(* ===== verification/Prelude.thy ===== *)
theory Prelude
  imports Main "HOL-Library.Word" "HOL-Library.DAList"
begin

text \<open>
  Shared vocabulary of the development: Go's fixed-width integers, results with
  an error branch, Go maps with their nil value and their iteration order, the
  error values that the package defines or tests for, and a generic locale for
  invariants of step relations.  Every other theory builds on this one.
\<close>

section \<open>Lemma collections\<close>

named_theorems go_simps \<open>unfolding and evaluation of the shared Go primitives\<close>
named_theorems go_elims \<open>inversion of successful results\<close>

section \<open>Machine integers and time\<close>

text \<open>
  Go's \<open>int\<close> (on the 64-bit platforms the module supports), \<open>int64\<close> and
  \<open>time.Duration\<close> are signed 64-bit words, read with \<open>sint\<close>; \<open>uint64\<close> is the
  same word read with \<open>unat\<close>.  Arithmetic on words wraps, as Go's does.  A
  \<open>time.Time\<close> is the number of nanoseconds since the Unix epoch, unbounded.
\<close>

type_synonym int64 = "64 word"
type_synonym uint64 = "64 word"
type_synonym duration = int64
type_synonym gotime = int

abbreviation Nanosecond :: duration where "Nanosecond \<equiv> 1"
abbreviation Millisecond :: duration where "Millisecond \<equiv> 1000000"
abbreviation Second :: duration where "Second \<equiv> 1000000000"
abbreviation Minute :: duration where "Minute \<equiv> 60000000000"
abbreviation Hour :: duration where "Hour \<equiv> 3600000000000"

text \<open>\<open>t.Add(d)\<close>.\<close>

definition time_add :: "gotime \<Rightarrow> duration \<Rightarrow> gotime" where
  "time_add t d = t + sint d"

text \<open>\<open>t.Sub(u)\<close> saturates at the ends of the duration range.\<close>

definition time_sub :: "gotime \<Rightarrow> gotime \<Rightarrow> duration" where
  "time_sub t u = word_of_int (max (- (2 ^ 63)) (min (2 ^ 63 - 1) (t - u)))"

text \<open>\<open>d.Milliseconds()\<close> divides by a million and truncates towards zero.\<close>

definition duration_ms :: "duration \<Rightarrow> int64" where
  "duration_ms d = word_of_int (sgn (sint d) * (\<bar>sint d\<bar> div 1000000))"

text \<open>\<open>min\<close> and \<open>max\<close> on signed integers.\<close>

definition smin :: "int64 \<Rightarrow> int64 \<Rightarrow> int64" where
  "smin a b = (if sint b < sint a then b else a)"

definition smax :: "int64 \<Rightarrow> int64 \<Rightarrow> int64" where
  "smax a b = (if sint a < sint b then b else a)"

lemma sint64_bounds: "- (2 ^ 63) \<le> sint (w :: int64)" "sint (w :: int64) < 2 ^ 63"
  using sint_ge [of w] sint_lt [of w] by simp_all

lemma sint_word_of_int_id:
  "- (2 ^ 63) \<le> k \<Longrightarrow> k < 2 ^ 63 \<Longrightarrow> sint (word_of_int k :: int64) = k"
  by (simp add: sint_sbintrunc' signed_take_bit_int_eq_self)

lemma sint_of_nat_id: "n < 2 ^ 63 \<Longrightarrow> sint (of_nat n :: int64) = int n"
  using sint_word_of_int_id [of "int n"] by simp

lemma sint_time_sub:
  "sint (time_sub t u) = max (- (2 ^ 63)) (min (2 ^ 63 - 1) (t - u))"
  unfolding time_sub_def by (rule sint_word_of_int_id) auto

lemma sint_smin: "sint (smin a b) = min (sint a) (sint b)"
  by (simp add: smin_def)

lemma sint_smax: "sint (smax a b) = max (sint a) (sint b)"
  by (simp add: smax_def)

section \<open>Error values\<close>

text \<open>
  The error values outside this package that the code tests for with
  \<open>errors.Is\<close>.  An error of \<open>nats.go\<close> or of a context is its text with the
  tested values its chain holds.
\<close>

datatype sentinel =
    SConsumerDeleted | SConsumerNotFound | SNoResponders | SStreamNotFound
  | SJetStreamNotEnabled | SJetStreamNotEnabledForAccount | SNoStreamResponse
  | STimeout | SDeadlineExceeded | SCanceled

datatype exterr = ExtErr (ext_chain: "sentinel list") (ext_text: string)

text \<open>What \<open>checkSegment\<close> finds wrong, and what \<open>subject\<close> reports of it.\<close>

datatype segment_problem =
    EmptySegment | HasDot | HasWildcard nat | HasWhitespace | HasNonPrintable

datatype target_problem = NoSegments | BadSegment nat string segment_problem

datatype mesh_kind = KindRoute | KindTopic

datatype config_rule =
    MustBeDuration | MustBeInt | MustBeBool | NeedsNamedGroup | MustBeAckPolicy
  | MustBeDeliverPolicy | MustBeDurationList | MustExceedBackoff nat
  | SubscribersOnly string | TopicTargetsOnly

text \<open>
  \<open>ErrBadConfig\<close> carries the key and the value it is wrapped with, and the rule
  the value breaks.  \<open>ErrNilHandler\<close> carries what has the handler, and its subject.  \<open>Panicked\<close> is a run-time panic of the package's own code,
  such as a write to a nil map.
\<close>

datatype goerr =
    ErrKindMismatch string mesh_kind mesh_kind
  | ErrInvalidTarget target_problem
  | ErrNoDeploymentGroup
  | ErrBadConfig string string config_rule
  | ErrClosed
  | ErrAlreadyStarted
  | ErrStopped
  | ErrStreamCoversRoute string string
  | HandlerError string
  | ErrNilClient
  | ErrNilHandler string string
  | External exterr
  | Panicked string

definition errors_is :: "exterr \<Rightarrow> sentinel \<Rightarrow> bool" where
  "errors_is e s \<longleftrightarrow> s \<in> set (ext_chain e)"

definition ErrTimeout :: exterr where
  "ErrTimeout = ExtErr [STimeout] ''nats: timeout''"

section \<open>Results\<close>

type_synonym 'a res = "goerr + 'a"

text \<open>Sequencing with an early return on error.\<close>

definition andThen :: "'a res \<Rightarrow> ('a \<Rightarrow> 'b res) \<Rightarrow> 'b res" where
  "andThen r f = (case r of Inl e \<Rightarrow> Inl e | Inr x \<Rightarrow> f x)"

lemma andThen_Inl [simp]: "andThen (Inl e) f = Inl e"
  by (simp add: andThen_def)

lemma andThen_Inr [simp]: "andThen (Inr x) f = f x"
  by (simp add: andThen_def)

lemma andThen_eq_Inr [go_elims]: "andThen r f = Inr y \<longleftrightarrow> (\<exists>x. r = Inr x \<and> f x = Inr y)"
  by (cases r) auto

lemma andThen_eq_Inl: "andThen r f = Inl e \<longleftrightarrow> r = Inl e \<or> (\<exists>x. r = Inr x \<and> f x = Inl e)"
  by (cases r) auto

lemma andThen_cong [cong]: "r = r' \<Longrightarrow> (\<And>x. r' = Inr x \<Longrightarrow> f x = g x) \<Longrightarrow> andThen r f = andThen r' g"
  by (cases r') auto

section \<open>Go maps\<close>

text \<open>
  A Go map is \<open>None\<close> when nil, otherwise an association list with distinct keys,
  whose order stands for the unspecified order of \<open>range\<close>.  Reading a nil map is
  allowed; writing to one panics.
\<close>

type_synonym 'v gomap = "(string, 'v) alist option"

definition mrange :: "'v gomap \<Rightarrow> (string \<times> 'v) list" where
  "mrange m = (case m of None \<Rightarrow> [] | Some a \<Rightarrow> DAList.impl_of a)"

definition mget :: "'v gomap \<Rightarrow> string \<Rightarrow> 'v option" where
  "mget m k = (case m of None \<Rightarrow> None | Some a \<Rightarrow> DAList.lookup a k)"

definition mlen :: "'v gomap \<Rightarrow> nat" where
  "mlen m = length (mrange m)"

definition mput :: "string \<Rightarrow> 'v \<Rightarrow> 'v gomap \<Rightarrow> 'v gomap res" where
  "mput k v m = (case m of
      None \<Rightarrow> Inl (Panicked ''assignment to entry in nil map'')
    | Some a \<Rightarrow> Inr (Some (DAList.update k v a)))"

text \<open>\<open>make(map[string]V)\<close> and a map literal.\<close>

definition mmake :: "'v gomap" where
  "mmake = Some DAList.empty"

definition mlit :: "(string \<times> 'v) list \<Rightarrow> 'v gomap" where
  "mlit xs = Some (fold (\<lambda>(k, v). DAList.update k v) xs DAList.empty)"

text \<open>A map of strings read with one result: a missing key reads as the empty string.\<close>

definition mget0 :: "string gomap \<Rightarrow> string \<Rightarrow> string" where
  "mget0 m k = (case mget m k of None \<Rightarrow> [] | Some v \<Rightarrow> v)"

text \<open>\<open>for k, v := range src { dst[k] = v }\<close>.\<close>

fun copy_entries :: "(string \<times> 'v) list \<Rightarrow> 'v gomap \<Rightarrow> 'v gomap res" where
  "copy_entries [] m = Inr m"
| "copy_entries ((k, v) # xs) m = andThen (mput k v m) (copy_entries xs)"

lemma mget_None [simp]: "mget None k = None"
  by (simp add: mget_def)

lemma mget_mmake [simp]: "mget mmake k = None"
  by (simp add: mget_def mmake_def DAList.lookup_def DAList.empty_def Alist_inverse)

lemma mrange_None [simp]: "mrange None = []"
  by (simp add: mrange_def)

lemma mrange_mmake [simp]: "mrange mmake = []"
  by (simp add: mrange_def mmake_def DAList.empty_def Alist_inverse)

lemma mmake_not_nil [simp]: "mmake \<noteq> None"
  by (simp add: mmake_def)

lemma mmake_Some [simp]: "\<exists>a. mmake = Some a"
  by (simp add: mmake_def)

lemma mlit_not_nil [simp]: "mlit xs \<noteq> None"
  by (simp add: mlit_def)

lemma mget_mrange: "mget m k = map_of (mrange m) k"
  by (cases m) (simp_all add: mget_def mrange_def DAList.lookup_def)

lemma distinct_mrange: "distinct (map fst (mrange m))"
  by (cases m) (simp_all add: mrange_def)

lemma mget_mlit_fold:
  "mget (Some (fold (\<lambda>(k, v). DAList.update k v) xs a)) k =
    (case map_of (rev xs) k of Some v \<Rightarrow> Some v | None \<Rightarrow> DAList.lookup a k)"
  by (induction xs arbitrary: a)
    (auto simp: mget_def lookup_update map_add_def split: option.splits)

lemma mget_mlit [simp]: "mget (mlit xs) k = map_of (rev xs) k"
  unfolding mlit_def mget_mlit_fold by (simp split: option.splits)

lemma mput_nil [simp]: "mput k v None = Inl (Panicked ''assignment to entry in nil map'')"
  by (simp add: mput_def)

lemma mput_ok: "m \<noteq> None \<Longrightarrow> \<exists>m'. mput k v m = Inr m' \<and> m' \<noteq> None"
  by (auto simp: mput_def)

lemma mput_not_nil [go_elims]: "mput k v m = Inr m' \<Longrightarrow> m \<noteq> None \<and> m' \<noteq> None"
  by (auto simp: mput_def split: option.splits)

lemma mget_mput: "mput k v m = Inr m' \<Longrightarrow> mget m' j = (if j = k then Some v else mget m j)"
  by (auto simp: mput_def mget_def lookup_update split: option.splits)

lemma mput_not_empty: "mput k v m = Inr m' \<Longrightarrow> mrange m' \<noteq> []"
  using mget_mput [of k v m m' k] by (auto simp: mget_mrange)

lemma mlen_0 [simp]: "mlen m = 0 \<longleftrightarrow> mrange m = []"
  by (simp add: mlen_def)

lemma mget_empty_range: "mrange m = [] \<Longrightarrow> mget m k = None"
  by (simp add: mget_mrange)

lemma mget0_Some: "mget m k = Some v \<Longrightarrow> mget0 m k = v"
  by (simp add: mget0_def)

lemma mget0_not_empty: "mget0 m k \<noteq> [] \<longleftrightarrow> (\<exists>v. mget m k = Some v \<and> v \<noteq> [])"
  by (simp add: mget0_def split: option.splits)

lemma copy_entries_ok: "m \<noteq> None \<Longrightarrow> \<exists>m'. copy_entries xs m = Inr m' \<and> m' \<noteq> None"
proof (induction xs arbitrary: m)
  case (Cons x xs)
  obtain k v where x: "x = (k, v)" by force
  obtain m1 where "mput k v m = Inr m1" "m1 \<noteq> None" using mput_ok [OF Cons.prems] by blast
  with Cons.IH x show ?case by simp
qed simp

lemma mget_copy_entries_rev:
  "copy_entries xs m = Inr m' \<Longrightarrow>
    mget m' k = (case map_of (rev xs) k of Some v \<Rightarrow> Some v | None \<Rightarrow> mget m k)"
proof (induction xs arbitrary: m)
  case (Cons x xs)
  obtain j v where x: "x = (j, v)" by force
  from Cons.prems x obtain m1 where "mput j v m = Inr m1" "copy_entries xs m1 = Inr m'"
    by (auto simp: andThen_eq_Inr)
  with Cons.IH x show ?case
    by (auto simp: mget_mput map_add_def split: option.splits)
qed simp

lemma map_of_rev_distinct: "distinct (map fst xs) \<Longrightarrow> map_of (rev xs) = map_of xs"
  by (rule map_of_eqI) (auto simp: rev_map [symmetric] map_of_eq_Some_iff)

lemma mget_copy_entries:
  "copy_entries (mrange src) m = Inr m' \<Longrightarrow>
    mget m' k = (case mget src k of Some v \<Rightarrow> Some v | None \<Rightarrow> mget m k)"
  by (simp add: mget_copy_entries_rev map_of_rev_distinct [OF distinct_mrange] mget_mrange [of src])

section \<open>Lists updated at one index\<close>

lemma map_nth_eq: "map f xs = map f ys \<Longrightarrow> i < length ys \<Longrightarrow> f (xs ! i) = f (ys ! i)"
  by (metis length_map nth_map)

lemma length_filter_update:
  "i < length xs \<Longrightarrow>
    length (filter P (xs[i := x])) + of_bool (P (xs ! i)) = length (filter P xs) + of_bool (P x)"
proof (induction xs arbitrary: i)
  case (Cons y ys)
  show ?case
  proof (cases i)
    case (Suc j)
    with Cons show ?thesis by (cases "P y") (auto)
  qed auto
qed simp

lemma sum_list_less_update:
  "i < length xs \<Longrightarrow> (x :: nat) < xs ! i \<Longrightarrow> sum_list (xs[i := x]) < sum_list xs"
  by (induction xs arbitrary: i) (auto split: nat.splits)

section \<open>Invariants of step relations\<close>

text \<open>
  A transition system with its initial states and steps, and an invariant every
  step keeps.  The systems of the concurrency theories are interpretations.
\<close>

inductive reach :: "('s \<Rightarrow> bool) \<Rightarrow> ('s \<Rightarrow> 's \<Rightarrow> bool) \<Rightarrow> 's \<Rightarrow> bool"
  for initial step where
  reach_init: "initial s \<Longrightarrow> reach initial step s"
| reach_step: "reach initial step s \<Longrightarrow> step s t \<Longrightarrow> reach initial step t"

lemma reach_steps: "step\<^sup>*\<^sup>* s t \<Longrightarrow> reach initial step s \<Longrightarrow> reach initial step t"
  by (induction rule: rtranclp.induct) (auto intro: reach_step)

locale transition_invariant =
  fixes initial :: "'s \<Rightarrow> bool"
    and step :: "'s \<Rightarrow> 's \<Rightarrow> bool"
    and inv :: "'s \<Rightarrow> bool"
  assumes inv_initial: "initial s \<Longrightarrow> inv s"
    and inv_step: "inv s \<Longrightarrow> step s t \<Longrightarrow> inv t"
begin

lemma reach_inv: "reach initial step s \<Longrightarrow> inv s"
  by (induction rule: reach.induct) (auto intro: inv_initial inv_step)

lemma steps_inv: "step\<^sup>*\<^sup>* s t \<Longrightarrow> inv s \<Longrightarrow> inv t"
  by (induction rule: rtranclp.induct) (auto intro: inv_step)

end

end
