(* ===== verification/Go_Text.thy ===== *)
theory Go_Text
  imports Prelude "HOL-Library.Log_Nat"
begin

text \<open>
  The parts of Go's standard library on strings that the package calls:
  \<open>strconv\<close> (decimal integers), \<open>unicode/utf8\<close> and \<open>unicode\<close> (runes),
  \<open>strings\<close> (split, trim, join) and \<open>time.ParseDuration\<close>.  A Go string is a
  sequence of bytes, which is HOL's \<open>string\<close>.
\<close>

section \<open>Decimal integers\<close>

definition byte :: "char \<Rightarrow> nat" where
  "byte c = of_char c"

definition is_digit :: "char \<Rightarrow> bool" where
  "is_digit c \<longleftrightarrow> 48 \<le> byte c \<and> byte c \<le> 57"

definition digit_val :: "char \<Rightarrow> nat" where
  "digit_val c = byte c - 48"

definition digit_char :: "nat \<Rightarrow> char" where
  "digit_char d = char_of (48 + d)"

definition digits_val :: "string \<Rightarrow> nat" where
  "digits_val s = foldl (\<lambda>n c. 10 * n + digit_val c) 0 s"

text \<open>
  \<open>strconv.ParseInt(s, 10, 64)\<close> and \<open>strconv.Atoi(s)\<close>: an optional sign, then
  digits only; \<open>None\<close> is the error, for the syntax or for the range.
\<close>

definition parse_int64 :: "string \<Rightarrow> int64 option" where
  "parse_int64 s =
    (let neg = (case s of c # _ \<Rightarrow> c = CHR ''-'' | [] \<Rightarrow> False);
         ds = (case s of c # r \<Rightarrow> if c = CHR ''-'' \<or> c = CHR ''+'' then r else s | [] \<Rightarrow> [])
     in if ds = [] \<or> \<not> list_all is_digit ds then None
        else let n = digits_val ds
             in if neg then (if n \<le> 2 ^ 63 then Some (- of_nat n) else None)
                else (if n < 2 ^ 63 then Some (of_nat n) else None))"

fun show_nat :: "nat \<Rightarrow> string" where
  "show_nat n = (if n < 10 then [digit_char n] else show_nat (n div 10) @ [digit_char (n mod 10)])"

declare show_nat.simps [simp del]

text \<open>\<open>strconv.FormatInt(i, 10)\<close> and \<open>strconv.FormatUint(u, 10)\<close>.\<close>

definition format_int64 :: "int64 \<Rightarrow> string" where
  "format_int64 w =
    (if sint w < 0 then CHR ''-'' # show_nat (nat (- sint w)) else show_nat (nat (sint w)))"

definition format_uint64 :: "uint64 \<Rightarrow> string" where
  "format_uint64 w = show_nat (unat w)"

section \<open>Runes\<close>

definition is_cont :: "nat \<Rightarrow> nat \<Rightarrow> char \<Rightarrow> bool" where
  "is_cont lo hi c \<longleftrightarrow> lo \<le> byte c \<and> byte c \<le> hi"

definition low6 :: "char \<Rightarrow> nat" where
  "low6 c = byte c mod 64"

text \<open>
  \<open>utf8.DecodeRuneInString\<close>: the first rune of a string and how many bytes it
  takes.  A byte that starts no valid encoding is U+FFFD of width one.
\<close>

fun decode_rune :: "string \<Rightarrow> nat \<times> nat" where
  "decode_rune [] = (0xFFFD, 0)"
| "decode_rune (a # s) =
    (let b = byte a in
     if b < 0x80 then (b, 1)
     else if 0xC2 \<le> b \<and> b \<le> 0xDF then
       (case s of
          c # _ \<Rightarrow> if is_cont 0x80 0xBF c then ((b mod 32) * 64 + low6 c, 2) else (0xFFFD, 1)
        | [] \<Rightarrow> (0xFFFD, 1))
     else if 0xE0 \<le> b \<and> b \<le> 0xEF then
       (case s of
          c # d # _ \<Rightarrow>
            if is_cont (if b = 0xE0 then 0xA0 else 0x80) (if b = 0xED then 0x9F else 0xBF) c
               \<and> is_cont 0x80 0xBF d
            then ((b mod 16) * 4096 + low6 c * 64 + low6 d, 3) else (0xFFFD, 1)
        | _ \<Rightarrow> (0xFFFD, 1))
     else if 0xF0 \<le> b \<and> b \<le> 0xF4 then
       (case s of
          c # d # e # _ \<Rightarrow>
            if is_cont (if b = 0xF0 then 0x90 else 0x80) (if b = 0xF4 then 0x8F else 0xBF) c
               \<and> is_cont 0x80 0xBF d \<and> is_cont 0x80 0xBF e
            then ((b mod 8) * 262144 + low6 c * 4096 + low6 d * 64 + low6 e, 4) else (0xFFFD, 1)
        | _ \<Rightarrow> (0xFFFD, 1))
     else (0xFFFD, 1))"

lemma decode_rune_width_pos: "s \<noteq> [] \<Longrightarrow> 0 < snd (decode_rune s)"
  by (cases s) (auto simp: Let_def split: list.splits)

text \<open>
  \<open>for _, c := range s\<close>: the runes in turn, each with its bytes.
\<close>

function rune_chunks :: "string \<Rightarrow> (nat \<times> string) list" where
  "rune_chunks s =
    (if s = [] then []
     else let (r, w) = decode_rune s in (r, take w s) # rune_chunks (drop w s))"
  by pat_completeness auto
termination
proof (relation "measure length")
  fix s :: string and p r w
  assume "s \<noteq> []" "p = decode_rune s" "(r, w) = p"
  then show "(drop w s, s) \<in> measure length"
    using decode_rune_width_pos [of s] by (cases s) (auto simp: prod_eq_iff)
qed simp

declare rune_chunks.simps [simp del]

definition runes :: "string \<Rightarrow> nat list" where
  "runes s = map fst (rune_chunks s)"

text \<open>
  \<open>unicode.IsSpace\<close>, in full.  \<open>unicode.IsPrint\<close> is exact on Latin-1; above U+00FF
  it is a table of the Unicode standard, which is the parameter \<open>uprint\<close>.
\<close>

definition is_space_rune :: "nat \<Rightarrow> bool" where
  "is_space_rune r \<longleftrightarrow>
     (9 \<le> r \<and> r \<le> 13) \<or> r = 0x20 \<or> r = 0x85 \<or> r = 0xA0 \<or> r = 0x1680
     \<or> (0x2000 \<le> r \<and> r \<le> 0x200A) \<or> r = 0x2028 \<or> r = 0x2029 \<or> r = 0x202F \<or> r = 0x205F \<or> r = 0x3000"

definition is_print_rune :: "(nat \<Rightarrow> bool) \<Rightarrow> nat \<Rightarrow> bool" where
  "is_print_rune uprint r \<longleftrightarrow>
     (if r \<le> 0xFF then (0x20 \<le> r \<and> r < 0x7F) \<or> (0xA1 \<le> r \<and> r \<noteq> 0xAD) else uprint r)"

section \<open>Splitting and trimming\<close>

text \<open>\<open>strings.Split(s, sep)\<close> for a separator of one byte.\<close>

fun split_on :: "char \<Rightarrow> string \<Rightarrow> string list" where
  "split_on c [] = [[]]"
| "split_on c (x # xs) =
    (if x = c then [] # split_on c xs
     else (case split_on c xs of [] \<Rightarrow> [[x]] | y # ys \<Rightarrow> (x # y) # ys))"

text \<open>\<open>strings.Join(parts, sep)\<close> for a separator of one byte.\<close>

fun join_with :: "char \<Rightarrow> string list \<Rightarrow> string" where
  "join_with c [] = []"
| "join_with c [s] = s"
| "join_with c (s # t # ts) = s @ c # join_with c (t # ts)"

text \<open>\<open>strings.TrimSpace(s)\<close>.\<close>

definition trim_space :: "string \<Rightarrow> string" where
  "trim_space s =
    concat (map snd (rev (dropWhile (is_space_rune \<circ> fst)
      (rev (dropWhile (is_space_rune \<circ> fst) (rune_chunks s))))))"

section \<open>Durations\<close>

text \<open>
  A positive \<open>float64\<close> is a fraction of natural numbers.  \<open>f64\<close> rounds \<open>p / q\<close> to
  53 significant bits, ties to even, which is IEEE 754 in the normal range; the
  operands of \<open>time.ParseDuration\<close> never leave it.
\<close>

definition round_half_even :: "nat \<Rightarrow> nat \<Rightarrow> nat" where
  "round_half_even n d =
    (let q = n div d; r = n mod d
     in if 2 * r < d then q else if d < 2 * r then Suc q else if even q then q else Suc q)"

definition scale_frac :: "nat \<Rightarrow> nat \<Rightarrow> int \<Rightarrow> nat \<times> nat" where
  "scale_frac p q e = (if e < 0 then (p * 2 ^ nat (- e), q) else (p, q * 2 ^ nat e))"

definition f64 :: "nat \<Rightarrow> nat \<Rightarrow> nat \<times> nat" where
  "f64 p q =
    (if p = 0 then (0, 1)
     else let e0 = int (floorlog 2 p) - int (floorlog 2 q) - 53;
              (n0, d0) = scale_frac p q e0;
              e = (if 2 ^ 53 * d0 \<le> n0 then e0 + 1 else e0);
              (n, d) = scale_frac p q e;
              m = round_half_even n d
          in if e < 0 then (m, 2 ^ nat (- e)) else (m * 2 ^ nat e, 1))"

text \<open>\<open>uint64(float64(f) * (float64(unit) / scale))\<close>.\<close>

definition frac_ns :: "nat \<Rightarrow> nat \<Rightarrow> nat \<Rightarrow> nat" where
  "frac_ns f unit scale =
    (let (fn, fd) = f64 f 1; (un, ud) = f64 unit scale; (n, d) = f64 (fn * un) (fd * ud)
     in n div d)"

text \<open>The units of a duration string; the two micro signs are in UTF-8.\<close>

definition unit_ns :: "string \<Rightarrow> nat option" where
  "unit_ns u = map_of
    [(''ns'', 1), (''us'', 1000),
     ([char_of (0xC2 :: nat), char_of (0xB5 :: nat), CHR ''s''], 1000),
     ([char_of (0xCE :: nat), char_of (0xBC :: nat), CHR ''s''], 1000),
     (''ms'', 1000000), (''s'', 1000000000), (''m'', 60000000000), (''h'', 3600000000000)] u"

text \<open>\<open>leadingFraction\<close>: digits past the precision of 64 bits are read and dropped.\<close>

definition leading_fraction :: "string \<Rightarrow> nat \<times> nat" where
  "leading_fraction ds =
    (let (x, scale, over) = foldl (\<lambda>(x, scale, over) c.
         if over then (x, scale, True)
         else if (2 ^ 63 - 1) div 10 < x then (x, scale, True)
         else let y = 10 * x + digit_val c
              in if 2 ^ 63 < y then (x, scale, True) else (y, scale * 10, False))
       (0, 1, False) ds
     in (x, scale))"

text \<open>
  One number with its unit, at the start of \<open>s\<close>: its value in nanoseconds, at
  most \<open>2 ^ 63\<close>, and the rest of the string.
\<close>

definition duration_part :: "string \<Rightarrow> (nat \<times> string) option" where
  "duration_part s =
    (let pre = takeWhile is_digit s; s1 = dropWhile is_digit s;
         dot = (case s1 of c # _ \<Rightarrow> c = CHR ''.'' | [] \<Rightarrow> False);
         post = (if dot then takeWhile is_digit (tl s1) else []);
         s2 = (if dot then dropWhile is_digit (tl s1) else s1);
         u = takeWhile (\<lambda>c. c \<noteq> CHR ''.'' \<and> \<not> is_digit c) s2;
         s3 = dropWhile (\<lambda>c. c \<noteq> CHR ''.'' \<and> \<not> is_digit c) s2;
         v = digits_val pre; (f, scale) = leading_fraction post
     in if pre = [] \<and> post = [] then None
        else if 2 ^ 63 < v then None
        else (case unit_ns u of
            None \<Rightarrow> None
          | Some unit \<Rightarrow>
              if 2 ^ 63 div unit < v then None
              else let w = v * unit + (if 0 < f then frac_ns f unit scale else 0)
                   in if 2 ^ 63 < w then None else Some (w, s3)))"

lemma duration_part_shorter: "duration_part s = Some (w, r) \<Longrightarrow> length r < length s"
proof -
  assume h: "duration_part s = Some (w, r)"
  define s1 where "s1 = dropWhile is_digit s"
  define dot where "dot = (case s1 of c # _ \<Rightarrow> c = CHR ''.'' | [] \<Rightarrow> False)"
  define s2 where "s2 = (if dot then dropWhile is_digit (tl s1) else s1)"
  let ?p = "\<lambda>c. c \<noteq> CHR ''.'' \<and> \<not> is_digit c"
  from h have u: "unit_ns (takeWhile ?p s2) \<noteq> None" and r: "r = dropWhile ?p s2"
    by (auto simp: duration_part_def Let_def s2_def dot_def s1_def
        split: if_splits option.splits prod.splits)
  have "0 < length (takeWhile ?p s2)"
    using u by (auto simp: unit_ns_def)
  moreover have "length s2 = length (takeWhile ?p s2) + length r"
    unfolding r using takeWhile_dropWhile_id [of ?p s2] by (metis length_append)
  moreover have "length s2 \<le> length s"
  proof -
    have a: "length s1 \<le> length s" by (simp add: s1_def length_dropWhile_le)
    have "length (dropWhile is_digit (tl s1)) \<le> length (tl s1)" by (rule length_dropWhile_le)
    also have "\<dots> \<le> length s" using a by simp
    finally show ?thesis using a by (simp add: s2_def)
  qed
  ultimately show ?thesis by linarith
qed

text \<open>The loop: the sum is a \<open>uint64\<close>, checked after each addition.\<close>

function duration_sum :: "nat \<Rightarrow> string \<Rightarrow> nat option" where
  "duration_sum d s =
    (if s = [] then Some d
     else case duration_part s of
        None \<Rightarrow> None
      | Some (w, r) \<Rightarrow>
          let d' = (d + w) mod 2 ^ 64 in if 2 ^ 63 < d' then None else duration_sum d' r)"
  by pat_completeness auto
termination
proof (relation "measure (\<lambda>(d, s). length s)")
  fix d d' w :: nat and s r :: string and p
  assume "duration_part s = Some p" "(w, r) = p"
  then have "length r < length s" by (metis duration_part_shorter)
  then show "((d', r), (d, s)) \<in> measure (\<lambda>(d, s). length s)" by simp
qed simp

declare duration_sum.simps [simp del]

text \<open>\<open>time.ParseDuration(s)\<close>; \<open>None\<close> is its error.\<close>

definition parse_duration :: "string \<Rightarrow> duration option" where
  "parse_duration s =
    (let neg = (case s of c # _ \<Rightarrow> c = CHR ''-'' | [] \<Rightarrow> False);
         r = (case s of c # t \<Rightarrow> if c = CHR ''-'' \<or> c = CHR ''+'' then t else s | [] \<Rightarrow> [])
     in if r = ''0'' then Some 0
        else if r = [] then None
        else case duration_sum 0 r of
            None \<Rightarrow> None
          | Some d \<Rightarrow>
              if neg then Some (- of_nat d)
              else if 2 ^ 63 - 1 < d then None else Some (of_nat d))"

section \<open>Encodings\<close>

text \<open>
  An encoding of values as strings with a parser that undoes it: what one side
  of the wire writes with, and the other side reads back.
\<close>

locale codec =
  fixes enc :: "'a \<Rightarrow> string"
    and dec :: "string \<Rightarrow> 'a option"
  assumes dec_enc: "dec (enc x) = Some x"
begin

lemma enc_inj: "enc x = enc y \<Longrightarrow> x = y"
  by (metis dec_enc option.inject)

lemma enc_eq_iff: "enc x = enc y \<longleftrightarrow> x = y"
  by (auto dest: enc_inj)

end

lemma byte_digit_char: "d < 10 \<Longrightarrow> byte (digit_char d) = 48 + d"
  by (simp add: byte_def digit_char_def)

lemma is_digit_digit_char: "d < 10 \<Longrightarrow> is_digit (digit_char d)"
  by (simp add: is_digit_def byte_digit_char)

lemma digit_val_digit_char: "d < 10 \<Longrightarrow> digit_val (digit_char d) = d"
  by (simp add: digit_val_def byte_digit_char)

lemma show_nat_small: "n < 10 \<Longrightarrow> show_nat n = [digit_char n]"
  by (simp add: show_nat.simps)

lemma show_nat_step: "10 \<le> n \<Longrightarrow> show_nat n = show_nat (n div 10) @ [digit_char (n mod 10)]"
  by (subst show_nat.simps) simp

lemma duration_sum_Nil: "duration_sum d [] = Some d"
  by (simp add: duration_sum.simps)

lemma duration_sum_step:
  "s \<noteq> [] \<Longrightarrow> duration_sum d s = (case duration_part s of
        None \<Rightarrow> None
      | Some (w, r) \<Rightarrow>
          let d' = (d + w) mod 2 ^ 64 in if 2 ^ 63 < d' then None else duration_sum d' r)"
  by (subst duration_sum.simps) simp

lemma digits_val_append1: "digits_val (s @ [c]) = 10 * digits_val s + digit_val c"
  by (simp add: digits_val_def)

lemma show_nat_not_Nil: "show_nat n \<noteq> []"
  by (subst show_nat.simps) simp

lemma show_nat_digits: "list_all is_digit (show_nat n)"
proof (induction n rule: show_nat.induct)
  case (1 n)
  then show ?case
    by (cases "n < 10") (simp_all add: show_nat.simps [of n] is_digit_digit_char)
qed

lemma digits_val_show_nat: "digits_val (show_nat n) = n"
proof (induction n rule: show_nat.induct)
  case (1 n)
  show ?case
  proof (cases "n < 10")
    case True
    then show ?thesis
      by (subst show_nat.simps) (simp add: digits_val_def digit_val_digit_char)
  next
    case False
    with 1 show ?thesis
      by (subst show_nat.simps) (simp add: digits_val_append1 digit_val_digit_char)
  qed
qed

lemma show_nat_no_sign:
  "\<exists>c r. show_nat n = c # r \<and> c \<noteq> CHR ''-'' \<and> c \<noteq> CHR ''+''"
proof (cases "show_nat n")
  case (Cons c r)
  with show_nat_digits [of n] have "is_digit c" by simp
  then have "c \<noteq> CHR ''-''" "c \<noteq> CHR ''+''" by (auto simp: is_digit_def byte_def)
  with Cons show ?thesis by blast
qed (simp add: show_nat_not_Nil)

lemma parse_int64_show_nat:
  "parse_int64 (show_nat n) = (if n < 2 ^ 63 then Some (of_nat n) else None)"
proof -
  obtain c r where "show_nat n = c # r" "c \<noteq> CHR ''-''" "c \<noteq> CHR ''+''"
    using show_nat_no_sign by blast
  with show_nat_digits [of n] digits_val_show_nat [of n] show ?thesis
    by (simp add: parse_int64_def)
qed

lemma parse_int64_neg_show_nat:
  "parse_int64 (CHR ''-'' # show_nat n) = (if n \<le> 2 ^ 63 then Some (- of_nat n) else None)"
  using show_nat_digits [of n] digits_val_show_nat [of n] show_nat_not_Nil [of n]
  by (simp add: parse_int64_def)

lemma parse_format_int64: "parse_int64 (format_int64 w) = Some w"
proof (cases "sint w < 0")
  case True
  have "nat (- sint w) \<le> 2 ^ 63" using sint64_bounds(1) [of w] by simp
  moreover have "- of_nat (nat (- sint w)) = w" using True by simp
  ultimately show ?thesis
    using True by (simp only: format_int64_def parse_int64_neg_show_nat if_True)
next
  case False
  have "nat (sint w) < 2 ^ 63" using sint64_bounds(2) [of w] by simp
  moreover have "of_nat (nat (sint w)) = w" using False by simp
  ultimately show ?thesis
    using False by (simp only: format_int64_def parse_int64_show_nat if_False if_True)
qed

interpretation int64_codec: codec format_int64 parse_int64
  by unfold_locales (rule parse_format_int64)

interpretation uint64_codec: codec format_uint64 "\<lambda>s. Some (of_nat (digits_val s))"
  by unfold_locales (simp add: format_uint64_def digits_val_show_nat)

section \<open>Facts on runes, splitting and joining\<close>

lemma rune_chunks_Nil [simp]: "rune_chunks [] = []"
  by (simp add: rune_chunks.simps)

lemma rune_chunks_nonempty:
  "s \<noteq> [] \<Longrightarrow> rune_chunks s =
    (fst (decode_rune s), take (snd (decode_rune s)) s) # rune_chunks (drop (snd (decode_rune s)) s)"
  by (subst rune_chunks.simps) (simp add: case_prod_beta)

lemma runes_Nil [simp]: "runes [] = []"
  by (simp add: runes_def)

lemma runes_ascii_Cons: "byte c < 0x80 \<Longrightarrow> runes (c # s) = byte c # runes s"
  by (simp add: runes_def rune_chunks_nonempty)

lemma runes_ascii: "list_all (\<lambda>c. byte c < 0x80) s \<Longrightarrow> runes s = map byte s"
  by (induction s) (simp_all add: runes_ascii_Cons)

text \<open>The bytes of an encoding after the first are never ASCII.\<close>

lemma decode_tail2:
  "(\<And>c. P c \<Longrightarrow> 0x80 \<le> byte c) \<Longrightarrow>
   \<forall>x \<in> set (take (snd (case s of c # _ \<Rightarrow> if P c then (f c, 2) else (r, 1)
      | [] \<Rightarrow> (r, 1)) - 1) s). 0x80 \<le> byte x"
  by (cases s) auto

lemma decode_tail3:
  "(\<And>c d. P c d \<Longrightarrow> 0x80 \<le> byte c \<and> 0x80 \<le> byte d) \<Longrightarrow>
   \<forall>x \<in> set (take (snd (case s of c # d # _ \<Rightarrow> if P c d then (f c d, 3) else (r, 1)
      | _ \<Rightarrow> (r, 1)) - 1) s). 0x80 \<le> byte x"
  by (cases s; cases "tl s") auto

lemma decode_tail4:
  "(\<And>c d e. P c d e \<Longrightarrow> 0x80 \<le> byte c \<and> 0x80 \<le> byte d \<and> 0x80 \<le> byte e) \<Longrightarrow>
   \<forall>x \<in> set (take (snd (case s of c # d # e # _ \<Rightarrow> if P c d e then (f c d e, 4) else (r, 1)
      | _ \<Rightarrow> (r, 1)) - 1) s). 0x80 \<le> byte x"
  by (cases s; cases "tl s"; cases "tl (tl s)") auto

lemma is_cont_ge: "is_cont lo hi c \<Longrightarrow> 0x80 \<le> lo \<Longrightarrow> 0x80 \<le> byte c"
  by (simp add: is_cont_def)

lemma decode_rune_tail:
  "\<forall>c \<in> set (take (snd (decode_rune (a # s)) - 1) s). 0x80 \<le> byte c"
  unfolding decode_rune.simps Let_def
  apply (split if_split, intro conjI impI, simp)
  apply (split if_split, intro conjI impI, rule decode_tail2, erule is_cont_ge, simp)
  apply (split if_split, intro conjI impI, rule decode_tail3, fastforce elim: is_cont_ge)
  apply (split if_split, intro conjI impI, rule decode_tail4, fastforce elim: is_cont_ge)
  apply simp
  done

lemma ascii_byte_is_rune:
  "c \<in> set s \<Longrightarrow> byte c < 0x80 \<Longrightarrow> byte c \<in> set (runes s)"
proof (induction "length s" arbitrary: s rule: less_induct)
  case less
  obtain a t where s: "s = a # t" using less.prems(1) by (cases s) auto
  let ?w = "snd (decode_rune s)"
  have w: "0 < ?w" using s decode_rune_width_pos by blast
  have split: "set s = insert a (set (take (?w - 1) t)) \<union> set (drop ?w s)"
  proof -
    have "drop ?w s = drop (?w - 1) t" using s w by (cases ?w) auto
    moreover have "set t = set (take (?w - 1) t) \<union> set (drop (?w - 1) t)"
      by (metis append_take_drop_id set_append)
    ultimately show ?thesis using s by auto
  qed
  have run: "runes s = fst (decode_rune s) # runes (drop ?w s)"
    using s by (simp add: runes_def rune_chunks_nonempty)
  consider "c = a" | "c \<in> set (take (?w - 1) t)" | "c \<in> set (drop ?w s)"
    using split less.prems(1) by blast
  then show ?case
  proof cases
    case 1
    then have "fst (decode_rune s) = byte c" using s less.prems(2) by simp
    with run show ?thesis by simp
  next
    case 2
    then show ?thesis using decode_rune_tail [of a t] s less.prems(2) by fastforce
  next
    case 3
    have "length (drop ?w s) < length s" using w s by simp
    with less.hyps 3 less.prems(2) have "byte c \<in> set (runes (drop ?w s))" by blast
    with run show ?thesis by simp
  qed
qed

lemma split_on_not_Nil: "split_on c s \<noteq> []"
  by (cases s) (auto split: list.splits)

lemma join_split: "join_with c (split_on c s) = s"
proof (induction s)
  case (Cons x s)
  then show ?case
    by (cases "split_on c s"; cases "tl (split_on c s)") (auto simp: split_on_not_Nil)
qed simp

lemma split_on_no_sep: "c \<notin> set s \<Longrightarrow> split_on c s = [s]"
  by (induction s) auto

lemma split_on_append: "c \<notin> set s \<Longrightarrow> split_on c (s @ c # t) = s # split_on c t"
  by (induction s) auto

lemma split_join:
  "parts \<noteq> [] \<Longrightarrow> (\<forall>p \<in> set parts. c \<notin> set p) \<Longrightarrow> split_on c (join_with c parts) = parts"
  by (induction c parts rule: join_with.induct) (auto simp: split_on_no_sep split_on_append)

lemmas go_text_eval =
  byte_def is_digit_def digit_val_def digits_val_def digit_char_def parse_int64_def
  show_nat_small show_nat_step
  rune_chunks_nonempty runes_def is_cont_def low6_def is_space_rune_def is_print_rune_def
  trim_space_def parse_duration_def duration_sum_Nil duration_sum_step duration_part_def leading_fraction_def
  unit_ns_def frac_ns_def f64_def scale_frac_def round_half_even_def compute_floorlog

end
