(* ===== verification/Go_Time.thy ===== *)
theory Go_Time
  imports Go_Text
begin

text \<open>
  \<open>time.Time.Format(time.RFC3339Nano)\<close> and Go's \<open>context\<close> package: deadlines,
  cancellation and causes.
\<close>

section \<open>RFC 3339 with fractional seconds\<close>

text \<open>The proleptic Gregorian date of a day number counted from 1970-01-01.\<close>

definition civil :: "int \<Rightarrow> int \<times> int \<times> int" where
  "civil days =
    (let z = days + 719468; era = z div 146097; doe = z mod 146097;
         yoe = (doe - doe div 1460 + doe div 36524 - doe div 146096) div 365;
         doy = doe - (365 * yoe + yoe div 4 - yoe div 100);
         mp = (5 * doy + 2) div 153;
         d = doy - (153 * mp + 2) div 5 + 1;
         m = (if mp < 10 then mp + 3 else mp - 9)
     in (yoe + era * 400 + (if m \<le> 2 then 1 else 0), m, d))"

definition pad :: "nat \<Rightarrow> int \<Rightarrow> string" where
  "pad w n = (let s = show_nat (nat \<bar>n\<bar>)
              in (if n < 0 then ''-'' else []) @ replicate (w - length s) CHR ''0'' @ s)"

definition frac_part :: "int \<Rightarrow> string" where
  "frac_part ns = (if ns = 0 then []
     else CHR ''.'' # rev (dropWhile (\<lambda>c. c = CHR ''0'') (rev (pad 9 ns))))"

definition zone_part :: "int \<Rightarrow> string" where
  "zone_part off =
    (if off = 0 then ''Z''
     else let z = \<bar>off\<bar> div 60
          in (if off \<le> -60 then ''-'' else ''+'') @ pad 2 (z div 60) @ '':'' @ pad 2 (z mod 60))"

text \<open>The time zone is its offset in seconds at each time.\<close>

definition rfc3339_nano :: "(gotime \<Rightarrow> int) \<Rightarrow> gotime \<Rightarrow> string" where
  "rfc3339_nano zone t =
    (let off = zone t; secs = t div 1000000000 + off; sod = secs mod 86400;
         (y, m, d) = civil (secs div 86400)
     in pad 4 y @ ''-'' @ pad 2 m @ ''-'' @ pad 2 d @ ''T''
        @ pad 2 (sod div 3600) @ '':'' @ pad 2 (sod mod 3600 div 60) @ '':'' @ pad 2 (sod mod 60)
        @ frac_part (t mod 1000000000) @ zone_part off)"

section \<open>Contexts\<close>

text \<open>
  A context is its deadline and its first firing: when it becomes done, with the
  error and the cause it then reports.  \<open>errRequestTimeout\<close> is the one cause this
  package gives; otherwise the cause is the error.
\<close>

datatype ctx_cause = CauseErr exterr | ErrRequestTimeout

record gocontext =
  c_deadline :: "gotime option"
  c_fire :: "(gotime \<times> exterr \<times> ctx_cause) option"

definition Canceled :: exterr where
  "Canceled = ExtErr [SCanceled] ''context canceled''"

definition DeadlineExceeded :: exterr where
  "DeadlineExceeded = ExtErr [SDeadlineExceeded] ''context deadline exceeded''"

definition ctx_background :: gocontext where
  "ctx_background = \<lparr>c_deadline = None, c_fire = None\<rparr>"

definition ctx_err :: "gocontext \<Rightarrow> gotime \<Rightarrow> exterr option" where
  "ctx_err c now = (case c_fire c of
      Some (t, e, _) \<Rightarrow> if t \<le> now then Some e else None | None \<Rightarrow> None)"

definition ctx_cause :: "gocontext \<Rightarrow> gotime \<Rightarrow> ctx_cause option" where
  "ctx_cause c now = (case c_fire c of
      Some (t, _, k) \<Rightarrow> if t \<le> now then Some k else None | None \<Rightarrow> None)"

text \<open>The first of two firings; of two at one time, that of the parent.\<close>

fun first_fire :: "(gotime \<times> 'e) option \<Rightarrow> (gotime \<times> 'e) option \<Rightarrow> (gotime \<times> 'e) option" where
  "first_fire None g = g"
| "first_fire f None = f"
| "first_fire (Some (s, x)) (Some (t, y)) = (if s \<le> t then Some (s, x) else Some (t, y))"

text \<open>
  \<open>context.WithDeadlineCause\<close> at time \<open>now\<close>: a parent with an earlier deadline
  keeps it, and the child only follows the parent.  A deadline in the past fires
  at once.
\<close>

definition with_deadline_cause ::
    "gocontext \<Rightarrow> gotime \<Rightarrow> gotime \<Rightarrow> ctx_cause \<Rightarrow> gocontext" where
  "with_deadline_cause parent now d cause =
    (if (case c_deadline parent of Some cur \<Rightarrow> cur < d | None \<Rightarrow> False) then parent
     else \<lparr>c_deadline = Some d,
           c_fire = first_fire (c_fire parent) (Some (max d now, DeadlineExceeded, cause))\<rparr>)"

definition with_timeout_cause ::
    "gocontext \<Rightarrow> gotime \<Rightarrow> duration \<Rightarrow> ctx_cause \<Rightarrow> gocontext" where
  "with_timeout_cause parent now d cause = with_deadline_cause parent now (time_add now d) cause"

definition with_deadline :: "gocontext \<Rightarrow> gotime \<Rightarrow> gotime \<Rightarrow> gocontext" where
  "with_deadline parent now d = with_deadline_cause parent now d (CauseErr DeadlineExceeded)"

definition with_timeout :: "gocontext \<Rightarrow> gotime \<Rightarrow> duration \<Rightarrow> gocontext" where
  "with_timeout parent now d = with_deadline parent now (time_add now d)"

lemma first_fire_None [simp]: "first_fire f None = f"
  by (cases f) auto

lemma with_deadline_cause_deadline:
  "c_deadline (with_deadline_cause p now d k) =
    Some (case c_deadline p of None \<Rightarrow> d | Some cur \<Rightarrow> min cur d)"
  by (auto simp: with_deadline_cause_def split: option.splits)

text \<open>A context derived from another is done whenever the other is.\<close>

lemma with_deadline_cause_done:
  "ctx_err p t = Some e \<Longrightarrow> \<exists>e'. ctx_err (with_deadline_cause p now d k) t = Some e'"
  by (auto simp: with_deadline_cause_def ctx_err_def split: option.splits if_splits
      elim: first_fire.elims)

lemma with_deadline_cause_expires:
  assumes "now \<le> t" "d \<le> t"
    and "\<And>cur. c_deadline p = Some cur \<Longrightarrow> cur < d \<Longrightarrow> \<exists>e. ctx_err p t = Some e"
  shows "\<exists>e. ctx_err (with_deadline_cause p now d k) t = Some e"
  using assms
  by (cases "c_fire p") (auto simp: with_deadline_cause_def ctx_err_def split: option.splits if_splits)

lemmas go_time_eval =
  rfc3339_nano_def civil_def pad_def frac_part_def zone_part_def

end
