(* ===== verification/Mesh.thy ===== *)
theory Mesh
  imports Go_Time
begin

text \<open>
  The contract types of \<open>service-mesh-go/mesh\<close> as this package uses them:
  targets, messages, handlers, endpoints and subscribers.  The reserved metadata
  keys have the values that \<open>docs/transport-specific-implementation.md\<close> gives.
\<close>

abbreviation ConsumerGroupNone :: string where "ConsumerGroupNone \<equiv> ''none''"
abbreviation DeploymentGroupKey :: string where "DeploymentGroupKey \<equiv> ''deployment_group''"
definition HandlerErrorKey :: string where "HandlerErrorKey = ''Mesh-Handler-Error''"
definition TimeoutKey :: string where "TimeoutKey = ''Mesh-Timeout''"
definition DeadlineKey :: string where "DeadlineKey = ''Mesh-Deadline''"
definition DeliveryAttemptKey :: string where "DeliveryAttemptKey = ''Mesh-Delivery-Attempt''"
definition MessageIDKey :: string where "MessageIDKey = ''Mesh-Message-Id''"

text \<open>\<open>jetstream.MsgIDHeader\<close>.\<close>

definition MsgIDHeader :: string where "MsgIDHeader = ''Nats-Msg-Id''"

lemmas mesh_key_defs =
  HandlerErrorKey_def TimeoutKey_def DeadlineKey_def DeliveryAttemptKey_def MessageIDKey_def
  MsgIDHeader_def

lemma mesh_keys_neq [simp]:
  "MsgIDHeader \<noteq> MessageIDKey" "MessageIDKey \<noteq> MsgIDHeader"
  "TimeoutKey \<noteq> MsgIDHeader" "MsgIDHeader \<noteq> TimeoutKey"
  "TimeoutKey \<noteq> MessageIDKey" "MessageIDKey \<noteq> TimeoutKey"
  "DeadlineKey \<noteq> TimeoutKey" "TimeoutKey \<noteq> DeadlineKey"
  "DeadlineKey \<noteq> MessageIDKey" "MessageIDKey \<noteq> DeadlineKey"
  by (simp_all add: mesh_key_defs)

type_synonym config = "string gomap"

record target =
  T_Segments :: "string list"
  T_Kind :: mesh_kind
  T_Metadata :: "string gomap"

text \<open>
  Everything the code reads that is not under \<open>src/\<close>: the table of printable
  runes above U+00FF, the CPU count, the local time zone, \<open>slog.Default()\<close> (a
  logger is a handle), \<open>Header.Set\<close> of \<open>nats.go\<close> and \<open>Target.Equal\<close> of \<open>mesh\<close>.
  A NATS header is a Go map to lists of values.
\<close>

type_synonym logger = nat
type_synonym header = "string list gomap"

record goenv =
  env_uprint :: "nat \<Rightarrow> bool"
  env_numcpu :: int64
  env_zone :: "gotime \<Rightarrow> int"
  env_default_logger :: logger
  env_header_set :: "string \<Rightarrow> string \<Rightarrow> header \<Rightarrow> header res"
  env_target_equal :: "target \<Rightarrow> target \<Rightarrow> bool"

text \<open>
  The documented behaviour of \<open>Header.Set\<close>: it sets the values of the key to the
  single value, and is an assignment to a map entry.
\<close>

definition header_set_law :: "goenv \<Rightarrow> bool" where
  "header_set_law env \<longleftrightarrow> (\<forall>k v h. env_header_set env k v h = mput k [v] h)"

text \<open>The documented behaviour of \<open>Target.Equal\<close>: it compares kinds.\<close>

definition target_equal_law :: "goenv \<Rightarrow> bool" where
  "target_equal_law env \<longleftrightarrow> (\<forall>a b. env_target_equal env a b \<longrightarrow> T_Kind a = T_Kind b)"

record message =
  M_Target :: target
  M_Metadata :: "string gomap"
  M_Payload :: string

definition zero_target :: target where
  "zero_target = \<lparr>T_Segments = [], T_Kind = KindRoute, T_Metadata = None\<rparr>"

definition zero_message :: message where
  "zero_message = \<lparr>M_Target = zero_target, M_Metadata = None, M_Payload = []\<rparr>"

text \<open>
  A call of an application handler returns a value and perhaps an error, whose
  text is kept, or panics with a value, whose formatted text is kept.  A
  subscriber handler also leaves the metadata map it was given in some state,
  because the map is shared with the caller, which reads it afterwards.
\<close>

datatype 'a outcome = Returns 'a "string option" | Panics string

type_synonym endpoint_handler = "gocontext \<Rightarrow> message \<Rightarrow> message outcome"
type_synonym subscriber_handler = "gocontext \<Rightarrow> message \<Rightarrow> unit outcome \<times> string gomap"

record endpoint =
  E_Target :: target
  E_Handler :: "endpoint_handler option"
  E_ConsumerGroup :: string
  E_Metadata :: "string gomap"

record subscriber =
  S_Target :: target
  S_Handler :: "subscriber_handler option"
  S_ConsumerGroup :: string
  S_Metadata :: "string gomap"

section \<open>Sample values for the witnesses\<close>

definition sample_env :: goenv where
  "sample_env = \<lparr>env_uprint = (\<lambda>_. True), env_numcpu = 8, env_zone = (\<lambda>_. 0),
     env_default_logger = 0, env_header_set = (\<lambda>k v h. mput k [v] h),
     env_target_equal = (\<lambda>a b. T_Segments a = T_Segments b \<and> T_Kind a = T_Kind b)\<rparr>"

definition sample_route :: target where
  "sample_route = \<lparr>T_Segments = [''demo'', ''echo''], T_Kind = KindRoute, T_Metadata = None\<rparr>"

definition sample_topic :: target where
  "sample_topic = \<lparr>T_Segments = [''demo'', ''created''], T_Kind = KindTopic, T_Metadata = None\<rparr>"

lemma header_set: "header_set_law env \<Longrightarrow> env_header_set env k v h = mput k [v] h"
  by (simp add: header_set_law_def)

lemma sample_env_laws: "header_set_law sample_env" "target_equal_law sample_env"
  by (simp_all add: sample_env_def header_set_law_def target_equal_law_def)

end
