(* ===== verification/Headers.thy ===== *)
theory Headers
  imports Mesh
begin

text \<open>
  \<open>header.go\<close>: message metadata to NATS headers and back, with \<open>Mesh-Message-Id\<close>
  and \<open>Nats-Msg-Id\<close> kept as one field.
\<close>

section \<open>Definitions\<close>

fun set_headers :: "goenv \<Rightarrow> (string \<times> string) list \<Rightarrow> header \<Rightarrow> header res" where
  "set_headers env [] h = Inr h"
| "set_headers env ((k, v) # xs) h = andThen (env_header_set env k v h) (set_headers env xs)"

definition to_header :: "goenv \<Rightarrow> string gomap \<Rightarrow> header res" where
  "to_header env md = (if mlen md = 0 then Inr None else set_headers env (mrange md) mmake)"

fun first_values :: "(string \<times> string list) list \<Rightarrow> string gomap \<Rightarrow> string gomap res" where
  "first_values [] md = Inr md"
| "first_values ((k, vs) # xs) md =
    (case vs of
       [] \<Rightarrow> first_values xs md
     | v # _ \<Rightarrow> andThen (mput k v md) (first_values xs))"

definition from_header :: "header \<Rightarrow> string gomap res" where
  "from_header h = (if mlen h = 0 then Inr None else first_values (mrange h) mmake)"

definition outgoing_header :: "goenv \<Rightarrow> string gomap \<Rightarrow> header res" where
  "outgoing_header env md =
    andThen (to_header env md) (\<lambda>h.
      case mget md MessageIDKey of
        Some ident \<Rightarrow> env_header_set env MsgIDHeader ident h
      | None \<Rightarrow> Inr h)"

definition incoming_metadata :: "header \<Rightarrow> string gomap res" where
  "incoming_metadata h =
    andThen (from_header h) (\<lambda>md0.
      let md = (if md0 = None then mmake else md0)
      in case mget md MsgIDHeader of
           Some ident \<Rightarrow> mput MessageIDKey ident md
         | None \<Rightarrow> Inr md)"

section \<open>Lemmas\<close>

lemma set_headers_eq:
  "header_set_law env \<Longrightarrow> set_headers env xs h = copy_entries (map (\<lambda>(k, v). (k, [v])) xs) h"
  by (induction xs arbitrary: h) (auto simp: header_set)

lemma map_of_single: "map_of (map (\<lambda>(k, v). (k, [v])) xs) k = map_option (\<lambda>v. [v]) (map_of xs k)"
  by (induction xs) auto

lemma to_header_ok:
  assumes "header_set_law env"
  obtains h where "to_header env md = Inr h" "h = None \<longleftrightarrow> mrange md = []"
    "\<And>k. mget h k = map_option (\<lambda>v. [v]) (mget md k)"
proof (cases "mrange md = []")
  case True
  with that [of None] show ?thesis
    by (simp add: to_header_def mget_empty_range)
next
  case False
  let ?xs = "map (\<lambda>(k, v). (k, [v])) (mrange md)"
  obtain h where h: "copy_entries ?xs mmake = Inr h" "h \<noteq> None"
    using copy_entries_ok [OF mmake_not_nil] by blast
  have "distinct (map fst ?xs)"
    using distinct_mrange [of md] by (simp add: comp_def case_prod_beta)
  then have "mget h k = map_option (\<lambda>v. [v]) (mget md k)" for k
    using mget_copy_entries_rev [OF h(1)]
    by (simp add: map_of_rev_distinct map_of_single mget_mrange [of md] split: option.split)
  with that [of h] h False assms show ?thesis
    by (simp add: to_header_def set_headers_eq)
qed

lemma first_values_ok:
  "md \<noteq> None \<Longrightarrow> \<exists>md'. first_values xs md = Inr md' \<and> md' \<noteq> None"
proof (induction xs arbitrary: md)
  case (Cons x xs)
  obtain k vs where x: "x = (k, vs)" by force
  show ?case
  proof (cases vs)
    case Nil
    with Cons.IH [OF Cons.prems] x show ?thesis by simp
  next
    case (Cons v _)
    obtain m1 where "mput k v md = Inr m1" "m1 \<noteq> None" using mput_ok [OF Cons.prems] by blast
    with Cons x Cons.IH [of m1] show ?thesis by simp
  qed
qed simp

definition first_value :: "string list option \<Rightarrow> string option" where
  "first_value vs = (case vs of Some (v # _) \<Rightarrow> Some v | _ \<Rightarrow> None)"

lemma mget_first_values:
  "first_values xs md = Inr md' \<Longrightarrow> distinct (map fst xs) \<Longrightarrow>
    mget md' k = (case first_value (map_of xs k) of Some v \<Rightarrow> Some v | None \<Rightarrow> mget md k)"
proof (induction xs arbitrary: md)
  case Nil
  then show ?case by (simp add: first_value_def)
next
  case (Cons x xs)
  obtain j vs where x: "x = (j, vs)" by force
  have none: "map_of xs j = None" using Cons.prems(2) x by (simp add: map_of_eq_None_iff)
  show ?case
  proof (cases vs)
    case Nil
    with Cons x none show ?thesis by (auto simp: first_value_def)
  next
    case (Cons v ws)
    with Cons.prems x obtain m1 where "mput j v md = Inr m1" "first_values xs m1 = Inr md'"
      by (auto simp: andThen_eq_Inr)
    with Cons.IH [of m1] Cons.prems(2) x Cons none show ?thesis
      by (auto simp: mget_mput first_value_def split: option.split list.split)
  qed
qed

lemma from_header_ok:
  obtains md where "from_header h = Inr md" "md = None \<longleftrightarrow> mrange h = []"
    "\<And>k. mget md k = first_value (mget h k)"
proof (cases "mrange h = []")
  case True
  with that [of None] show ?thesis
    by (simp add: from_header_def mget_empty_range first_value_def)
next
  case False
  obtain md where md: "first_values (mrange h) mmake = Inr md" "md \<noteq> None"
    using first_values_ok [OF mmake_not_nil] by blast
  have "mget md k = first_value (mget h k)" for k
    using mget_first_values [OF md(1) distinct_mrange] by (simp add: mget_mrange [of h] split: option.split)
  with that [of md] md False show ?thesis by (simp add: from_header_def)
qed

lemma outgoing_header_ok:
  assumes "header_set_law env"
  obtains h where "outgoing_header env md = Inr h" "h = None \<longleftrightarrow> mrange md = []"
    "\<And>k. mget h k = (if k = MsgIDHeader \<and> mget md MessageIDKey \<noteq> None
        then map_option (\<lambda>v. [v]) (mget md MessageIDKey)
        else map_option (\<lambda>v. [v]) (mget md k))"
proof -
  obtain h where h: "to_header env md = Inr h" "h = None \<longleftrightarrow> mrange md = []"
    "\<And>k. mget h k = map_option (\<lambda>v. [v]) (mget md k)"
    using to_header_ok [OF assms] by blast
  show ?thesis
  proof (cases "mget md MessageIDKey")
    case None
    with that [of h] h show ?thesis by (simp add: outgoing_header_def)
  next
    case (Some ident)
    then have ne: "mrange md \<noteq> []" by (auto simp: mget_mrange)
    with h(2) have "h \<noteq> None" by simp
    then obtain h' where h': "mput MsgIDHeader [ident] h = Inr h'" "h' \<noteq> None"
      using mput_ok [of h MsgIDHeader "[ident]"] by blast
    have "outgoing_header env md = Inr h'"
      using h(1) h'(1) Some by (simp add: outgoing_header_def header_set [OF assms])
    moreover have "h' = None \<longleftrightarrow> mrange md = []" using h'(2) ne by simp
    moreover have "mget h' k = (if k = MsgIDHeader \<and> mget md MessageIDKey \<noteq> None
        then map_option (\<lambda>v. [v]) (mget md MessageIDKey)
        else map_option (\<lambda>v. [v]) (mget md k))" for k
      by (simp add: mget_mput [OF h'(1)] h(3) Some)
    ultimately show ?thesis by (rule that)
  qed
qed

lemma incoming_metadata_ok:
  obtains md where "incoming_metadata h = Inr md" "md \<noteq> None"
    "\<And>k. mget md k = (if k = MessageIDKey \<and> first_value (mget h MsgIDHeader) \<noteq> None
        then first_value (mget h MsgIDHeader) else first_value (mget h k))"
proof -
  obtain md0 where md0: "from_header h = Inr md0" "md0 = None \<longleftrightarrow> mrange h = []"
    "\<And>k. mget md0 k = first_value (mget h k)"
    using from_header_ok by blast
  define md where "md = (if md0 = None then mmake else md0)"
  have md: "md \<noteq> None" "\<And>k. mget md k = first_value (mget h k)"
  proof -
    show "md \<noteq> None" by (simp add: md_def)
    show "mget md k = first_value (mget h k)" for k
      using md0(3) [of k] by (cases "md0 = None") (auto simp: md_def)
  qed
  show ?thesis
  proof (cases "mget md MsgIDHeader")
    case None
    with md md0(1) have "incoming_metadata h = Inr md"
      by (simp add: incoming_metadata_def md_def [symmetric] Let_def)
    with that [of md] md None show ?thesis by simp
  next
    case (Some ident)
    obtain md' where md': "mput MessageIDKey ident md = Inr md'" "md' \<noteq> None"
      using mput_ok [OF md(1)] by blast
    have "incoming_metadata h = Inr md'"
      using md0(1) Some md'(1) by (simp add: incoming_metadata_def md_def [symmetric] Let_def)
    then show ?thesis
    proof (rule that [OF _ md'(2)])
      show "mget md' k = (if k = MessageIDKey \<and> first_value (mget h MsgIDHeader) \<noteq> None
        then first_value (mget h MsgIDHeader) else first_value (mget h k))" for k
        using Some by (simp add: mget_mput [OF md'(1)] md(2))
    qed
  qed
qed

section \<open>Properties\<close>

text \<open>Metadata that goes through a header comes back key for key, and a
  non-empty map comes back as a map, an empty one as nil; no step panics.\<close>

theorem header_roundtrip:
  assumes "header_set_law env"
  shows "\<exists>h md'. to_header env md = Inr h \<and> from_header h = Inr md' \<and> mget md' = mget md
    \<and> (md' = None \<longleftrightarrow> mlen md = 0)"
proof -
  obtain h where h: "to_header env md = Inr h" "h = None \<longleftrightarrow> mrange md = []"
    "\<And>k. mget h k = map_option (\<lambda>v. [v]) (mget md k)"
    using to_header_ok [OF assms] by blast
  obtain md' where md': "from_header h = Inr md'" "md' = None \<longleftrightarrow> mrange h = []"
    "\<And>k. mget md' k = first_value (mget h k)"
    using from_header_ok by blast
  have get: "mget md' = mget md"
    using md'(3) h(3) by (auto simp: first_value_def fun_eq_iff split: option.split)
  have "mrange h = [] \<longleftrightarrow> mrange md = []"
  proof
    assume "mrange h = []"
    then have "mget h k = None" for k by (rule mget_empty_range)
    then have "map_of (mrange md) k = None" for k using h(3) by (simp add: mget_mrange [symmetric])
    then show "mrange md = []" by (metis map_of_eq_empty_iff ext)
  qed (use h(2) in auto)
  with h md' get show ?thesis by auto
qed

theorem header_roundtrip_witness:
  "\<exists>h md'. to_header sample_env (mlit [(''Event-Id'', ''42'')]) = Inr h \<and> from_header h = Inr md'
    \<and> mget md' = mget (mlit [(''Event-Id'', ''42'')])
    \<and> (md' = None \<longleftrightarrow> mlen (mlit [(''Event-Id'', ''42'')] :: string gomap) = 0)"
  by (rule header_roundtrip) (rule sample_env_laws)

text \<open>A message ID set by the sender reaches the handler under both names.  On the
  way out \<open>Mesh-Message-Id\<close> wins over \<open>Nats-Msg-Id\<close>, on the way in \<open>Nats-Msg-Id\<close>
  wins, every other key is unchanged, and neither step panics.\<close>

theorem message_id_one_field:
  assumes "header_set_law env"
  shows "\<exists>h md'. outgoing_header env md = Inr h \<and> incoming_metadata h = Inr md' \<and> md' \<noteq> None \<and>
    (case mget md MessageIDKey of
       Some ident \<Rightarrow> mget md' = (mget md)(MessageIDKey \<mapsto> ident, MsgIDHeader \<mapsto> ident)
     | None \<Rightarrow> (case mget md MsgIDHeader of
         Some ident \<Rightarrow> mget md' = (mget md)(MessageIDKey \<mapsto> ident)
       | None \<Rightarrow> mget md' = mget md))"
proof -
  obtain h where h: "outgoing_header env md = Inr h"
    "\<And>k. mget h k = (if k = MsgIDHeader \<and> mget md MessageIDKey \<noteq> None
        then map_option (\<lambda>v. [v]) (mget md MessageIDKey)
        else map_option (\<lambda>v. [v]) (mget md k))"
    using outgoing_header_ok [OF assms] by metis
  obtain md' where md': "incoming_metadata h = Inr md'" "md' \<noteq> None"
    "\<And>k. mget md' k = (if k = MessageIDKey \<and> first_value (mget h MsgIDHeader) \<noteq> None
        then first_value (mget h MsgIDHeader) else first_value (mget h k))"
    using incoming_metadata_ok by metis
  have fv: "first_value (map_option (\<lambda>v. [v]) x) = x" for x
    by (cases x) (simp_all add: first_value_def)
  have hv: "first_value (mget h k) =
      (if k = MsgIDHeader \<and> mget md MessageIDKey \<noteq> None then mget md MessageIDKey
       else mget md k)" for k
    by (cases "k = MsgIDHeader \<and> mget md MessageIDKey \<noteq> None") (simp_all only: h(2) fv if_True if_False simp_thms)
  from h(1) md'(1,2) show ?thesis
    by (cases "mget md MessageIDKey"; cases "mget md MsgIDHeader")
      (auto simp: fun_eq_iff md'(3) hv)
qed

theorem message_id_one_field_witness:
  "\<exists>h md'. outgoing_header sample_env (mlit [(MsgIDHeader, ''native''), (MessageIDKey, ''mesh'')]) = Inr h
    \<and> incoming_metadata h = Inr md' \<and> md' \<noteq> None \<and>
    mget md' = (mget (mlit [(MsgIDHeader, ''native''), (MessageIDKey, ''mesh'')]))
      (MessageIDKey \<mapsto> ''mesh'', MsgIDHeader \<mapsto> ''mesh'')"
  using message_id_one_field [OF sample_env_laws(1),
      of "mlit [(MsgIDHeader, ''native''), (MessageIDKey, ''mesh'')]"]
  by simp

end
