(* ===== verification/Targets.thy ===== *)
theory Targets
  imports Mesh
begin

text \<open>
  \<open>target.go\<close>: assembling a target's segments into a NATS subject, checking its
  kind, resolving a consumer group, and laying one set of settings over another.
\<close>

section \<open>Subjects\<close>

text \<open>
  \<open>checkSegment\<close>: the loop over the runes of a non-empty segment stops at the
  first one that is not allowed.  \<open>subject\<close> adds the segment and its index to the error.
\<close>

fun check_runes :: "goenv \<Rightarrow> nat list \<Rightarrow> segment_problem option" where
  "check_runes env [] = None"
| "check_runes env (c # cs) =
    (if c = 0x2E then Some HasDot
     else if c = 0x2A \<or> c = 0x3E then Some (HasWildcard c)
     else if is_space_rune c then Some HasWhitespace
     else if \<not> is_print_rune (env_uprint env) c then Some HasNonPrintable
     else check_runes env cs)"

definition check_segment :: "goenv \<Rightarrow> string \<Rightarrow> segment_problem option" where
  "check_segment env seg =
    (if seg = [] then Some EmptySegment else check_runes env (runes seg))"

fun check_segments :: "goenv \<Rightarrow> nat \<Rightarrow> string list \<Rightarrow> target_problem option" where
  "check_segments env i [] = None"
| "check_segments env i (seg # segs) =
    (case check_segment env seg of
       Some p \<Rightarrow> Some (BadSegment i seg p)
     | None \<Rightarrow> check_segments env (Suc i) segs)"

definition subject :: "goenv \<Rightarrow> target \<Rightarrow> string res" where
  "subject env t =
    (if T_Segments t = [] then Inl (ErrInvalidTarget NoSegments)
     else case check_segments env 0 (T_Segments t) of
         Some p \<Rightarrow> Inl (ErrInvalidTarget p)
       | None \<Rightarrow> Inr (join_with CHR ''.'' (T_Segments t)))"

definition check_kind :: "target \<Rightarrow> mesh_kind \<Rightarrow> string \<Rightarrow> unit res" where
  "check_kind t want use =
    (if T_Kind t \<noteq> want then Inl (ErrKindMismatch use want (T_Kind t)) else Inr ())"

section \<open>Consumer groups and settings\<close>

definition consumer_group :: "string \<Rightarrow> string \<Rightarrow> string" where
  "consumer_group grp deployment_group =
    (if grp = [] then deployment_group
     else if grp = ConsumerGroupNone then []
     else grp)"

definition merge_settings :: "string gomap \<Rightarrow> string gomap \<Rightarrow> string gomap res" where
  "merge_settings tgt over =
    andThen (copy_entries (mrange tgt) mmake) (\<lambda>md. copy_entries (mrange over) md)"

section \<open>Specification of a segment\<close>

text \<open>
  A segment is valid when it is non-empty and every rune of it is printable and
  none of the dot, the wildcards or white space.
\<close>

definition valid_rune :: "goenv \<Rightarrow> nat \<Rightarrow> bool" where
  "valid_rune env c \<longleftrightarrow> c \<notin> {0x2E, 0x2A, 0x3E} \<and> \<not> is_space_rune c \<and> is_print_rune (env_uprint env) c"

definition valid_segment :: "goenv \<Rightarrow> string \<Rightarrow> bool" where
  "valid_segment env seg \<longleftrightarrow> seg \<noteq> [] \<and> list_all (valid_rune env) (runes seg)"

fun problem_segment :: "target_problem \<Rightarrow> nat option" where
  "problem_segment NoSegments = None"
| "problem_segment (BadSegment i _ _) = Some i"

lemma check_runes_None: "check_runes env cs = None \<longleftrightarrow> list_all (valid_rune env) cs"
  by (induction cs) (auto simp: valid_rune_def)

lemma check_segment_None: "check_segment env seg = None \<longleftrightarrow> valid_segment env seg"
  by (simp add: check_segment_def valid_segment_def check_runes_None)

lemma check_segments_None:
  "check_segments env i segs = None \<longleftrightarrow> list_all (valid_segment env) segs"
proof (induction segs arbitrary: i)
  case (Cons seg segs)
  then show ?case
    using check_segment_None [of env seg] by (cases "check_segment env seg") auto
qed simp

text \<open>The problem found is that of the first segment that is not valid.\<close>

lemma check_segments_first:
  "check_segments env i segs = Some p \<Longrightarrow>
    \<exists>k < length segs. problem_segment p = Some (i + k) \<and> \<not> valid_segment env (segs ! k)
      \<and> list_all (valid_segment env) (take k segs)"
proof (induction segs arbitrary: i)
  case (Cons seg segs)
  show ?case
  proof (cases "check_segment env seg")
    case (Some q)
    with Cons.prems have "p = BadSegment i seg q" by simp
    with Some show ?thesis
      using check_segment_None [of env seg]
      by (intro exI [of _ 0]) auto
  next
    case None
    with Cons.prems obtain k where "k < length segs" "problem_segment p = Some (Suc i + k)"
      "\<not> valid_segment env (segs ! k)" "list_all (valid_segment env) (take k segs)"
      using Cons.IH [of "Suc i"] by auto
    with None show ?thesis
      by (intro exI [of _ "Suc k"]) (auto simp: check_segment_None)
  qed
qed simp

lemma subject_Inr:
  "subject env t = Inr s \<longleftrightarrow>
    T_Segments t \<noteq> [] \<and> list_all (valid_segment env) (T_Segments t)
      \<and> s = join_with CHR ''.'' (T_Segments t)"
  by (auto simp: subject_def check_segments_None [of env 0, symmetric] split: option.splits)

lemma valid_segment_byte:
  assumes "valid_segment env seg" "c \<in> set seg" "byte c < 0x80"
  shows "valid_rune env (byte c)"
  using assms ascii_byte_is_rune [of c seg] by (auto simp: valid_segment_def list_all_iff)

lemma valid_segment_no_dot: "valid_segment env seg \<Longrightarrow> CHR ''.'' \<notin> set seg"
  using valid_segment_byte [of env seg "CHR ''.''"] by (auto simp: valid_rune_def byte_def)

lemma set_join_with: "set (join_with c parts) \<subseteq> insert c (\<Union> (set ` set parts))"
  by (induction c parts rule: join_with.induct) auto

lemma subject_split:
  "subject env t = Inr s \<Longrightarrow> split_on CHR ''.'' s = T_Segments t"
  by (auto simp: subject_Inr list_all_iff intro!: split_join dest: valid_segment_no_dot)

lemma valid_rune_ascii:
  "valid_rune env r \<Longrightarrow> r < 0x80 \<Longrightarrow> 0x21 \<le> r \<and> r \<le> 0x7E \<and> r \<notin> {0x2A, 0x2E, 0x3E}"
  by (auto simp: valid_rune_def is_space_rune_def is_print_rune_def)

lemma merge_settings_ok:
  obtains md where "merge_settings tgt over = Inr md" "md \<noteq> None"
    "\<And>k. mget md k = (case mget over k of Some v \<Rightarrow> Some v | None \<Rightarrow> mget tgt k)"
proof -
  obtain m1 where m1: "copy_entries (mrange tgt) mmake = Inr m1" "m1 \<noteq> None"
    using copy_entries_ok [OF mmake_not_nil] by blast
  obtain md where md: "copy_entries (mrange over) m1 = Inr md" "md \<noteq> None"
    using copy_entries_ok [OF m1(2)] by blast
  have "mget md k = (case mget over k of Some v \<Rightarrow> Some v | None \<Rightarrow> mget tgt k)" for k
    using mget_copy_entries [OF md(1)] mget_copy_entries [OF m1(1)]
    by (simp split: option.splits)
  with m1 md that show ?thesis by (simp add: merge_settings_def)
qed

lemma merge_settings_get:
  "merge_settings tgt over = Inr md \<Longrightarrow>
    mget md k = (case mget over k of Some v \<Rightarrow> Some v | None \<Rightarrow> mget tgt k)"
  by (metis merge_settings_ok Inr_inject)

section \<open>Properties\<close>

text \<open>C28: a subject determines its target's segments: splitting it at the dots gives
  them back, so two targets that assemble to one subject have the same segments.\<close>

theorem subject_roundtrip:
  assumes "subject env t = Inr s" and "subject env t' = Inr s"
  shows "T_Segments t = split_on CHR ''.'' s \<and> T_Segments t' = T_Segments t"
  using subject_split [OF assms(1)] subject_split [OF assms(2)] by simp

theorem subject_roundtrip_witness:
  "T_Segments sample_route = split_on CHR ''.'' ''demo.echo'' \<and>
   T_Segments (sample_route\<lparr>T_Kind := KindTopic\<rparr>) = T_Segments sample_route"
  by (rule subject_roundtrip [of sample_env])
    (simp_all add: subject_def sample_route_def sample_env_def check_segment_def go_text_eval)

text \<open>C26: \<open>subject\<close> succeeds exactly on a non-empty list of valid segments, and then
  joins them with dots.\<close>

theorem subject_accepts_iff:
  "subject env t = Inr s \<longleftrightarrow>
    T_Segments t \<noteq> [] \<and> list_all (valid_segment env) (T_Segments t)
      \<and> s = join_with CHR ''.'' (T_Segments t)"
  by (rule subject_Inr)

text \<open>C27: a subject holds no wildcard, no white space and no control byte, and every
  token of it is non-empty: it is a literal NATS subject.\<close>

theorem subject_is_literal:
  assumes "subject env t = Inr s"
  shows "s \<noteq> [] \<and> list_all (\<lambda>tok. tok \<noteq> []) (split_on CHR ''.'' s) \<and>
    list_all (\<lambda>c. byte c \<notin> {0x2A, 0x3E} \<and> 0x21 \<le> byte c \<and> byte c \<noteq> 0x7F) s"
proof -
  from assms have segs: "T_Segments t \<noteq> []" "list_all (valid_segment env) (T_Segments t)"
    and s: "s = join_with CHR ''.'' (T_Segments t)"
    by (simp_all add: subject_Inr)
  have toks: "list_all (\<lambda>tok. tok \<noteq> []) (split_on CHR ''.'' s)"
    using segs(2) subject_split [OF assms] by (auto simp: list_all_iff valid_segment_def)
  have "byte c \<notin> {0x2A, 0x3E} \<and> 0x21 \<le> byte c \<and> byte c \<noteq> 0x7F" if c: "c \<in> set s" for c
  proof (cases "c = CHR ''.'' \<or> 0x80 \<le> byte c")
    case True
    then show ?thesis by (auto simp: byte_def)
  next
    case False
    from c False obtain seg where "seg \<in> set (T_Segments t)" "c \<in> set seg"
      using set_join_with [of "CHR ''.''" "T_Segments t"] by (auto simp: s)
    with segs(2) False have "valid_rune env (byte c)"
      using valid_segment_byte [of env seg c] by (auto simp: list_all_iff)
    with False show ?thesis using valid_rune_ascii [of env "byte c"] by auto
  qed
  moreover have "s \<noteq> []" using toks by auto
  ultimately show ?thesis using toks by (simp add: list_all_iff)
qed

theorem subject_is_literal_witness:
  "''demo.echo'' \<noteq> [] \<and> list_all (\<lambda>tok. tok \<noteq> []) (split_on CHR ''.'' ''demo.echo'') \<and>
    list_all (\<lambda>c. byte c \<notin> {0x2A, 0x3E} \<and> 0x21 \<le> byte c \<and> byte c \<noteq> 0x7F) ''demo.echo''"
  by (rule subject_is_literal [of sample_env sample_route])
    (simp add: subject_def sample_route_def sample_env_def check_segment_def go_text_eval)

text \<open>A target with segments that \<open>subject\<close> refuses is refused for its first
  segment that is not valid, and for no other.\<close>

theorem subject_reports_first:
  assumes "T_Segments t \<noteq> []" and "subject env t = Inl e"
  shows "\<exists>p k. e = ErrInvalidTarget p \<and> problem_segment p = Some k \<and> k < length (T_Segments t)
    \<and> \<not> valid_segment env (T_Segments t ! k)
    \<and> list_all (valid_segment env) (take k (T_Segments t))"
proof -
  from assms obtain p where "e = ErrInvalidTarget p" "check_segments env 0 (T_Segments t) = Some p"
    by (auto simp: subject_def split: option.splits)
  then show ?thesis using check_segments_first [of env 0 "T_Segments t" p] by auto
qed

definition bad_target :: target where
  "bad_target = \<lparr>T_Segments = [''demo'', ''c*d'', []], T_Kind = KindTopic, T_Metadata = None\<rparr>"

theorem subject_reports_first_witness:
  "\<exists>p k. ErrInvalidTarget (BadSegment 1 ''c*d'' (HasWildcard 0x2A)) = ErrInvalidTarget p \<and> problem_segment p = Some k
    \<and> k < length (T_Segments bad_target)
    \<and> \<not> valid_segment sample_env (T_Segments bad_target ! k)
    \<and> list_all (valid_segment sample_env) (take k (T_Segments bad_target))"
  by (rule subject_reports_first)
    (simp_all add: subject_def bad_target_def sample_env_def check_segment_def go_text_eval)

text \<open>Settings laid over a target's metadata win key by key, nothing else changes,
  and the result is a map that can be written to.\<close>

theorem merge_settings_override:
  "\<exists>md. merge_settings tgt over = Inr md \<and> md \<noteq> None \<and>
    mget md = (\<lambda>k. case mget over k of Some v \<Rightarrow> Some v | None \<Rightarrow> mget tgt k)"
  by (rule merge_settings_ok [of tgt over]) auto

end
