(* ===== verification/Config.thy ===== *)
theory Config
  imports Targets
begin

text \<open>
  \<open>config.go\<close> and the pull settings of \<open>jetstream.go\<close>: the keys, the two readers
  every numeric setting goes through, and what \<open>NewClient\<close> and \<open>New\<close> read from a
  \<open>mesh.Config\<close>.
\<close>

section \<open>Keys\<close>

datatype setting =
    URLKey | NameKey | ConnectTimeoutKey | RequestTimeoutKey | ConcurrencyKey | MaxDeliverKey
  | StreamKey | CreateConsumerKey | AckPolicyKey | AckWaitKey | BackoffKey | NakDelayKey
  | MaxAckPendingKey | DeliverPolicyKey | ConsumerInactiveThresholdKey
  | PullMaxMessagesKey | PullMaxBytesKey | PullThresholdMessagesKey | PullExpiryKey
  | PullHeartbeatKey

fun key :: "setting \<Rightarrow> string" where
  "key URLKey = ''url''"
| "key NameKey = ''name''"
| "key ConnectTimeoutKey = ''connect_timeout''"
| "key RequestTimeoutKey = ''request_timeout''"
| "key ConcurrencyKey = ''concurrency''"
| "key MaxDeliverKey = ''max_deliver''"
| "key StreamKey = ''stream''"
| "key CreateConsumerKey = ''create_consumer''"
| "key AckPolicyKey = ''ack_policy''"
| "key AckWaitKey = ''ack_wait''"
| "key BackoffKey = ''backoff''"
| "key NakDelayKey = ''nak_delay''"
| "key MaxAckPendingKey = ''max_ack_pending''"
| "key DeliverPolicyKey = ''deliver_policy''"
| "key ConsumerInactiveThresholdKey = ''consumer_inactive_threshold''"
| "key PullMaxMessagesKey = ''pull_max_messages''"
| "key PullMaxBytesKey = ''pull_max_bytes''"
| "key PullThresholdMessagesKey = ''pull_threshold_messages''"
| "key PullExpiryKey = ''pull_expiry''"
| "key PullHeartbeatKey = ''pull_heartbeat''"

text \<open>\<open>natsio.DefaultURL\<close>, as the documentation gives it.\<close>

definition DefaultURL :: string where
  "DefaultURL = ''nats://127.0.0.1:4222''"

definition defaultConnectTimeout :: duration where
  "defaultConnectTimeout = 5 * Second"

definition defaultRequestTimeout :: duration where
  "defaultRequestTimeout = 30 * Second"

definition defaultMaxDeliver :: int64 where
  "defaultMaxDeliver = 5"

section \<open>Readers\<close>

definition duration_setting :: "string gomap \<Rightarrow> string \<Rightarrow> duration \<Rightarrow> duration res" where
  "duration_setting cfg k fallback =
    (case mget cfg k of
       None \<Rightarrow> Inr fallback
     | Some v \<Rightarrow>
         (case parse_duration v of
            None \<Rightarrow> Inl (ErrBadConfig k v MustBeDuration)
          | Some d \<Rightarrow>
              if sint d \<le> 0 then Inl (ErrBadConfig k v MustBeDuration) else Inr d))"

definition positive_int_setting :: "string gomap \<Rightarrow> string \<Rightarrow> int64 \<Rightarrow> int64 res" where
  "positive_int_setting cfg k fallback =
    (case mget cfg k of
       None \<Rightarrow> Inr fallback
     | Some v \<Rightarrow>
         (case parse_int64 v of
            None \<Rightarrow> Inl (ErrBadConfig k v MustBeInt)
          | Some n \<Rightarrow> if sint n \<le> 0 then Inl (ErrBadConfig k v MustBeInt) else Inr n))"

section \<open>Pull settings\<close>

record pull_settings =
  p_maxMessages :: int64
  p_maxBytes :: int64
  p_thresholdMessages :: int64
  p_expiry :: duration
  p_heartbeat :: duration

definition zero_pull :: pull_settings where
  "zero_pull = \<lparr>p_maxMessages = 0, p_maxBytes = 0, p_thresholdMessages = 0,
     p_expiry = 0, p_heartbeat = 0\<rparr>"

definition read_pull_settings :: "string gomap \<Rightarrow> pull_settings \<Rightarrow> pull_settings res" where
  "read_pull_settings md p =
    andThen (positive_int_setting md (key PullMaxMessagesKey) (p_maxMessages p)) (\<lambda>mm.
    andThen (positive_int_setting md (key PullMaxBytesKey) (p_maxBytes p)) (\<lambda>mb.
    andThen (positive_int_setting md (key PullThresholdMessagesKey) (p_thresholdMessages p)) (\<lambda>tm.
    andThen (duration_setting md (key PullExpiryKey) (p_expiry p)) (\<lambda>ex.
    andThen (duration_setting md (key PullHeartbeatKey) (p_heartbeat p)) (\<lambda>hb.
      Inr \<lparr>p_maxMessages = mm, p_maxBytes = mb, p_thresholdMessages = tm,
           p_expiry = ex, p_heartbeat = hb\<rparr>)))))"

text \<open>The options \<open>consumeOpts\<close> builds for \<open>nats.go\<close>.\<close>

datatype pull_opt =
    PullMaxMessagesWithBytesLimit int64 int64
  | PullMaxMessages int64
  | PullMaxBytes int64
  | PullThresholdMessages int64
  | PullExpiry duration
  | PullHeartbeat duration

definition consume_opts :: "pull_settings \<Rightarrow> pull_opt list" where
  "consume_opts p =
    (if 0 < sint (p_maxMessages p) \<and> 0 < sint (p_maxBytes p)
     then [PullMaxMessagesWithBytesLimit (p_maxMessages p) (p_maxBytes p)]
     else if 0 < sint (p_maxMessages p) then [PullMaxMessages (p_maxMessages p)]
     else if 0 < sint (p_maxBytes p) then [PullMaxBytes (p_maxBytes p)]
     else [])
    @ (if 0 < sint (p_thresholdMessages p) then [PullThresholdMessages (p_thresholdMessages p)] else [])
    @ (if 0 < sint (p_expiry p) then [PullExpiry (p_expiry p)] else [])
    @ (if 0 < sint (p_heartbeat p) then [PullHeartbeat (p_heartbeat p)] else [])"

section \<open>Options\<close>

record options =
  o_logger :: "logger option"

type_synonym option_fn = "options \<Rightarrow> options"

definition with_logger :: "logger option \<Rightarrow> option_fn" where
  "with_logger l o' = o'\<lparr>o_logger := l\<rparr>"

definition apply_options :: "option_fn list \<Rightarrow> options" where
  "apply_options opts = foldl (\<lambda>o' opt. opt o') \<lparr>o_logger = None\<rparr> opts"

section \<open>What NewClient and New read\<close>

record client_settings =
  cs_url :: string
  cs_name :: string
  cs_connectTimeout :: duration
  cs_requestTimeout :: duration

definition parse_client_settings :: "config \<Rightarrow> client_settings res" where
  "parse_client_settings cfg =
    (let url = (case mget cfg (key URLKey) of
         Some v \<Rightarrow> if v \<noteq> [] then v else DefaultURL
       | None \<Rightarrow> DefaultURL);
         name = mget0 cfg (key NameKey)
     in andThen (duration_setting cfg (key ConnectTimeoutKey) defaultConnectTimeout) (\<lambda>ct.
        andThen (duration_setting cfg (key RequestTimeoutKey) defaultRequestTimeout) (\<lambda>rt.
          Inr \<lparr>cs_url = url, cs_name = name, cs_connectTimeout = ct, cs_requestTimeout = rt\<rparr>)))"

datatype nats_option = OptTimeout duration | OptName string

text \<open>The arguments \<open>connect\<close> gives to \<open>natsio.Connect\<close>.\<close>

definition connect_args :: "client_settings \<Rightarrow> string \<times> nats_option list" where
  "connect_args s =
    (cs_url s, OptTimeout (cs_connectTimeout s) # (if cs_name s \<noteq> [] then [OptName (cs_name s)] else []))"

record runtime_settings =
  rs_deploymentGroup :: string
  rs_concurrency :: int64
  rs_maxDeliver :: int64
  rs_pull :: pull_settings
  rs_logger :: logger

definition parse_runtime_settings ::
    "goenv \<Rightarrow> config \<Rightarrow> option_fn list \<Rightarrow> runtime_settings res" where
  "parse_runtime_settings env cfg opts =
    (let grp = mget0 cfg DeploymentGroupKey; l = o_logger (apply_options opts)
     in if grp = [] then Inl ErrNoDeploymentGroup
        else andThen (positive_int_setting cfg (key ConcurrencyKey) (env_numcpu env)) (\<lambda>c.
             andThen (positive_int_setting cfg (key MaxDeliverKey) defaultMaxDeliver) (\<lambda>d.
             andThen (read_pull_settings cfg zero_pull) (\<lambda>p.
               Inr \<lparr>rs_deploymentGroup = grp, rs_concurrency = c, rs_maxDeliver = d, rs_pull = p,
                    rs_logger = (case l of None \<Rightarrow> env_default_logger env | Some x \<Rightarrow> x)\<rparr>))))"

section \<open>The contract of a reader\<close>

text \<open>
  Every reader of one setting has the same contract: an absent key gives the
  fallback, only its own key matters, an accepted value is in range, and a
  refusal names the key and the value.
\<close>

locale setting_reader =
  fixes read :: "string gomap \<Rightarrow> 'a res"
    and k :: string
    and fallback :: 'a
    and ok :: "'a \<Rightarrow> bool"
  assumes absent: "mget md k = None \<Longrightarrow> read md = Inr fallback"
    and only_key: "mget md k = mget md' k \<Longrightarrow> read md = read md'"
    and accepted: "read md = Inr v \<Longrightarrow> mget md k = Some s \<Longrightarrow> ok v"
    and refused: "read md = Inl e \<Longrightarrow> \<exists>s r. mget md k = Some s \<and> e = ErrBadConfig k s r"
begin

text \<open>Over laid-over settings the reader sees the first map that has its key.\<close>

lemma read_merged:
  "merge_settings tgt over = Inr md \<Longrightarrow>
    read md = (if mget over k \<noteq> None then read over else read tgt)"
  by (auto simp: merge_settings_get intro!: only_key split: option.splits)

lemma read_ok: "read md = Inr v \<Longrightarrow> ok fallback \<Longrightarrow> ok v"
  by (cases "mget md k") (auto dest: absent accepted)

lemma read_absent_value: "read md = Inr v \<Longrightarrow> mget md k = None \<Longrightarrow> v = fallback"
  by (auto dest: absent)

lemma read_other: "mput j x md = Inr md' \<Longrightarrow> j \<noteq> k \<Longrightarrow> read md' = read md"
  by (rule only_key) (simp add: mget_mput)

end

interpretation duration_reader:
  setting_reader "\<lambda>md. duration_setting md k fb" k fb "\<lambda>d. 0 < sint d" for k fb
  by unfold_locales (auto simp: duration_setting_def split: option.splits if_splits)

interpretation positive_int_reader:
  setting_reader "\<lambda>md. positive_int_setting md k fb" k fb "\<lambda>n. 0 < sint n" for k fb
  by unfold_locales (auto simp: positive_int_setting_def split: option.splits if_splits)

section \<open>Lemmas\<close>

lemma andThen_merge:
  assumes "\<And>md. merge_settings tgt over = Inr md \<Longrightarrow> f md = r"
  shows "andThen (merge_settings tgt over) f = r"
proof -
  obtain md where "merge_settings tgt over = Inr md" using merge_settings_ok [of tgt over] by blast
  with assms show ?thesis by simp
qed

text \<open>\<open>readPullSettings\<close> keeps non-negative settings non-negative.\<close>

definition pull_ok :: "pull_settings \<Rightarrow> bool" where
  "pull_ok p \<longleftrightarrow> 0 \<le> sint (p_maxMessages p) \<and> 0 \<le> sint (p_maxBytes p)
     \<and> 0 \<le> sint (p_thresholdMessages p) \<and> 0 \<le> sint (p_expiry p) \<and> 0 \<le> sint (p_heartbeat p)"

lemma positive_int_nonneg: "positive_int_setting md k fb = Inr n \<Longrightarrow> 0 \<le> sint fb \<Longrightarrow> 0 \<le> sint n"
  by (auto simp: positive_int_setting_def split: option.splits if_splits)

lemma duration_nonneg: "duration_setting md k fb = Inr d \<Longrightarrow> 0 \<le> sint fb \<Longrightarrow> 0 \<le> sint d"
  by (auto simp: duration_setting_def split: option.splits if_splits)

lemma read_pull_ok: "read_pull_settings md p = Inr q \<Longrightarrow> pull_ok p \<Longrightarrow> pull_ok q"
  by (auto simp: read_pull_settings_def andThen_eq_Inr pull_ok_def intro: positive_int_nonneg duration_nonneg)

lemma zero_pull_ok: "pull_ok zero_pull"
  by (simp add: pull_ok_def zero_pull_def)

definition sample_config :: config where
  "sample_config = mlit [(DeploymentGroupKey, ''orders''), (key ConcurrencyKey, ''4''),
     (key PullMaxMessagesKey, ''100''), (key RequestTimeoutKey, ''2s'')]"

section \<open>Properties\<close>

text \<open>A setting is read from the first map that has its key, an endpoint's,
  subscriber's or call's over its target's, and only when neither has it from the
  fallback; an error of the first is not hidden by the second.\<close>

theorem settings_precedence:
  "andThen (merge_settings tgt over) (\<lambda>md. duration_setting md k d)
     = (if mget over k \<noteq> None then duration_setting over k d
        else if mget tgt k \<noteq> None then duration_setting tgt k d else Inr d) \<and>
   andThen (merge_settings tgt over) (\<lambda>md. positive_int_setting md k n)
     = (if mget over k \<noteq> None then positive_int_setting over k n
        else if mget tgt k \<noteq> None then positive_int_setting tgt k n else Inr n)"
proof
  show "andThen (merge_settings tgt over) (\<lambda>md. duration_setting md k d)
     = (if mget over k \<noteq> None then duration_setting over k d
        else if mget tgt k \<noteq> None then duration_setting tgt k d else Inr d)"
    by (rule andThen_merge)
      (simp add: duration_reader.read_merged [of tgt over] duration_reader.absent [of tgt])
  show "andThen (merge_settings tgt over) (\<lambda>md. positive_int_setting md k n)
     = (if mget over k \<noteq> None then positive_int_setting over k n
        else if mget tgt k \<noteq> None then positive_int_setting tgt k n else Inr n)"
    by (rule andThen_merge)
      (simp add: positive_int_reader.read_merged [of tgt over] positive_int_reader.absent [of tgt])
qed

text \<open>What \<open>NewClient\<close> accepts can be used: there is a server URL and both timeouts
  are positive, they are the defaults when their keys are absent, and \<open>connect\<close> is
  given exactly these.\<close>

theorem client_settings_usable:
  assumes "parse_client_settings cfg = Inr s"
  shows "cs_url s \<noteq> [] \<and> 0 < sint (cs_connectTimeout s) \<and> 0 < sint (cs_requestTimeout s) \<and>
    (mget cfg (key ConnectTimeoutKey) = None \<longrightarrow> cs_connectTimeout s = 5 * Second) \<and>
    (mget cfg (key RequestTimeoutKey) = None \<longrightarrow> cs_requestTimeout s = 30 * Second) \<and>
    fst (connect_args s) = cs_url s \<and> OptTimeout (cs_connectTimeout s) \<in> set (snd (connect_args s))"
proof -
  from assms obtain ct rt where
    ct: "duration_setting cfg (key ConnectTimeoutKey) defaultConnectTimeout = Inr ct"
    and rt: "duration_setting cfg (key RequestTimeoutKey) defaultRequestTimeout = Inr rt"
    and s: "cs_connectTimeout s = ct" "cs_requestTimeout s = rt" and url: "cs_url s \<noteq> []"
    by (auto simp: parse_client_settings_def Let_def andThen_eq_Inr DefaultURL_def split: option.splits if_splits)
  have "0 < sint ct" "0 < sint rt"
    using duration_reader.read_ok [OF ct] duration_reader.read_ok [OF rt]
    by (simp_all add: defaultConnectTimeout_def defaultRequestTimeout_def)
  moreover have "mget cfg (key ConnectTimeoutKey) = None \<Longrightarrow> ct = defaultConnectTimeout"
    "mget cfg (key RequestTimeoutKey) = None \<Longrightarrow> rt = defaultRequestTimeout"
    using duration_reader.read_absent_value [OF ct] duration_reader.read_absent_value [OF rt] by simp_all
  ultimately show ?thesis
    using s url by (simp add: connect_args_def defaultConnectTimeout_def defaultRequestTimeout_def)
qed

theorem client_settings_usable_witness:
  "\<exists>s. parse_client_settings sample_config = Inr s \<and> cs_requestTimeout s = 2 * Second \<and>
    cs_url s \<noteq> [] \<and> 0 < sint (cs_connectTimeout s) \<and> cs_connectTimeout s = 5 * Second"
proof -
  have p: "parse_client_settings sample_config = Inr \<lparr>cs_url = DefaultURL, cs_name = [],
      cs_connectTimeout = 5000000000, cs_requestTimeout = 2000000000\<rparr>"
    by (simp add: parse_client_settings_def sample_config_def duration_setting_def mget0_def
        defaultConnectTimeout_def defaultRequestTimeout_def go_text_eval)
  from client_settings_usable [OF p] p show ?thesis by (simp add: sample_config_def)
qed

text \<open>C34: what \<open>New\<close> accepts can be served: the deployment group is not empty, the
  concurrency and the delivery limit are positive, no pull setting is negative, and the
  default of the concurrency is the CPU count.\<close>

theorem runtime_settings_usable:
  assumes "parse_runtime_settings env cfg opts = Inr s" and "0 < sint (env_numcpu env)"
  shows "rs_deploymentGroup s \<noteq> [] \<and> mget cfg DeploymentGroupKey = Some (rs_deploymentGroup s) \<and>
    0 < sint (rs_concurrency s) \<and> 0 < sint (rs_maxDeliver s) \<and> pull_ok (rs_pull s) \<and>
    (mget cfg (key ConcurrencyKey) = None \<longrightarrow> rs_concurrency s = env_numcpu env)"
proof -
  from assms(1) obtain c d p where
    grp: "rs_deploymentGroup s = mget0 cfg DeploymentGroupKey" "mget0 cfg DeploymentGroupKey \<noteq> []"
    and c: "positive_int_setting cfg (key ConcurrencyKey) (env_numcpu env) = Inr c" "rs_concurrency s = c"
    and d: "positive_int_setting cfg (key MaxDeliverKey) defaultMaxDeliver = Inr d" "rs_maxDeliver s = d"
    and p: "read_pull_settings cfg zero_pull = Inr p" "rs_pull s = p"
    by (auto simp: parse_runtime_settings_def Let_def andThen_eq_Inr split: if_splits)
  have "0 < sint c" using positive_int_reader.read_ok [OF c(1)] assms(2) by simp
  moreover have "0 < sint d" using positive_int_reader.read_ok [OF d(1)] by (simp add: defaultMaxDeliver_def)
  moreover have "pull_ok p" using read_pull_ok [OF p(1) zero_pull_ok] .
  moreover have "mget cfg (key ConcurrencyKey) = None \<Longrightarrow> c = env_numcpu env"
    using positive_int_reader.read_absent_value [OF c(1)] by simp
  moreover have "mget cfg DeploymentGroupKey = Some (rs_deploymentGroup s)"
    using grp by (cases "mget cfg DeploymentGroupKey") (simp_all add: mget0_def)
  ultimately show ?thesis using grp c(2) d(2) p(2) by simp
qed

theorem runtime_settings_usable_witness:
  "\<exists>s. parse_runtime_settings sample_env sample_config [] = Inr s \<and> rs_deploymentGroup s = ''orders'' \<and>
    sint (rs_concurrency s) = 4 \<and> 0 < sint (rs_maxDeliver s) \<and> pull_ok (rs_pull s)"
proof -
  have p: "parse_runtime_settings sample_env sample_config [] = Inr \<lparr>rs_deploymentGroup = ''orders'',
      rs_concurrency = 4, rs_maxDeliver = 5,
      rs_pull = \<lparr>p_maxMessages = 100, p_maxBytes = 0, p_thresholdMessages = 0, p_expiry = 0, p_heartbeat = 0\<rparr>,
      rs_logger = 0\<rparr>"
    by (simp add: parse_runtime_settings_def sample_config_def positive_int_setting_def duration_setting_def
        read_pull_settings_def mget0_def apply_options_def sample_env_def zero_pull_def defaultMaxDeliver_def
        go_text_eval)
  from runtime_settings_usable [OF p] p show ?thesis by (simp add: sample_env_def)
qed

text \<open>What a pull option may carry, and which of them set a limit.\<close>

fun pull_opt_ok :: "pull_opt \<Rightarrow> bool" where
  "pull_opt_ok (PullMaxMessagesWithBytesLimit m b) \<longleftrightarrow> 0 < sint m \<and> 0 < sint b"
| "pull_opt_ok (PullMaxMessages m) \<longleftrightarrow> 0 < sint m"
| "pull_opt_ok (PullMaxBytes b) \<longleftrightarrow> 0 < sint b"
| "pull_opt_ok (PullThresholdMessages t) \<longleftrightarrow> 0 < sint t"
| "pull_opt_ok (PullExpiry d) \<longleftrightarrow> 0 < sint d"
| "pull_opt_ok (PullHeartbeat d) \<longleftrightarrow> 0 < sint d"

fun is_limit :: "pull_opt \<Rightarrow> bool" where
  "is_limit (PullMaxMessagesWithBytesLimit _ _) = True"
| "is_limit (PullMaxMessages _) = True"
| "is_limit (PullMaxBytes _) = True"
| "is_limit _ = False"

text \<open>The pull options given to \<open>nats.go\<close> carry only positive values, the message and
  byte limits are given as at most one option, and they are empty exactly when no pull
  setting is positive.\<close>

theorem consume_opts_positive:
  "list_all pull_opt_ok (consume_opts p) \<and> length (filter is_limit (consume_opts p)) \<le> 1 \<and>
   (consume_opts p = [] \<longleftrightarrow> sint (p_maxMessages p) \<le> 0 \<and> sint (p_maxBytes p) \<le> 0
     \<and> sint (p_thresholdMessages p) \<le> 0 \<and> sint (p_expiry p) \<le> 0 \<and> sint (p_heartbeat p) \<le> 0)"
  by (simp add: consume_opts_def not_less)

end
