(* ===== verification/JetStream_Settings.thy ===== *)
theory JetStream_Settings
  imports Config
begin

text \<open>
  The settings part of \<open>jetstream.go\<close>: what \<open>New\<close> reads for a JetStream
  subscriber, and the consumer configuration it builds for the server.
\<close>

section \<open>Data\<close>

datatype ackPolicy = ackDouble | ackExplicit | ackNone

text \<open>The values of \<open>nats.go\<close>'s consumer configuration that the code sets or reads.\<close>

datatype deliver_policy = DeliverAllPolicy | DeliverNewPolicy

datatype server_ack_policy = AckExplicitPolicy | AckAllPolicy | AckNonePolicy

record consumer_config =
  Durable :: string
  FilterSubject :: string
  DeliverPolicy :: deliver_policy
  AckPolicy :: server_ack_policy
  InactiveThreshold :: duration
  AckWait :: duration
  MaxDeliver :: int64
  BackOff :: "duration list"
  MaxAckPending :: int64

definition namedInactiveThreshold :: duration where
  "namedInactiveThreshold = 7 * 24 * Hour"

definition orderedInactiveThreshold :: duration where
  "orderedInactiveThreshold = 5 * Minute"

record js_settings =
  js_stream :: string
  js_group :: string
  js_create :: bool
  js_ack :: ackPolicy
  js_nakDelay :: duration
  js_config :: consumer_config
  js_pull :: pull_settings

section \<open>Readers\<close>

definition ordered_consumer :: "string \<Rightarrow> ackPolicy \<Rightarrow> bool" where
  "ordered_consumer grp ack \<longleftrightarrow> grp = [] \<and> ack = ackNone"

definition ordered :: "js_settings \<Rightarrow> bool" where
  "ordered s = ordered_consumer (js_group s) (js_ack s)"

definition create_consumer_setting :: "string gomap \<Rightarrow> string \<Rightarrow> bool res" where
  "create_consumer_setting md grp =
    (case mget md (key CreateConsumerKey) of
       None \<Rightarrow> Inr True
     | Some v \<Rightarrow>
         if v = ''true'' then Inr True
         else if v = ''false'' then
           (if grp = [] then Inl (ErrBadConfig (key CreateConsumerKey) v NeedsNamedGroup) else Inr False)
         else Inl (ErrBadConfig (key CreateConsumerKey) v MustBeBool))"

definition ack_policy_setting :: "string gomap \<Rightarrow> ackPolicy res" where
  "ack_policy_setting md =
    (case mget md (key AckPolicyKey) of
       None \<Rightarrow> Inr ackDouble
     | Some v \<Rightarrow>
         if v = ''double'' then Inr ackDouble
         else if v = ''explicit'' then Inr ackExplicit
         else if v = ''none'' then Inr ackNone
         else Inl (ErrBadConfig (key AckPolicyKey) v MustBeAckPolicy))"

definition deliver_policy_setting :: "string gomap \<Rightarrow> deliver_policy res" where
  "deliver_policy_setting md =
    (case mget md (key DeliverPolicyKey) of
       None \<Rightarrow> Inr DeliverAllPolicy
     | Some v \<Rightarrow>
         if v = ''all'' then Inr DeliverAllPolicy
         else if v = ''new'' then Inr DeliverNewPolicy
         else Inl (ErrBadConfig (key DeliverPolicyKey) v MustBeDeliverPolicy))"

definition default_inactive_threshold :: "string \<Rightarrow> ackPolicy \<Rightarrow> duration" where
  "default_inactive_threshold grp ack =
    (if ordered_consumer grp ack then orderedInactiveThreshold
     else if grp = [] then 0
     else namedInactiveThreshold)"

fun parse_backoff :: "string \<Rightarrow> string list \<Rightarrow> duration list res" where
  "parse_backoff v [] = Inr []"
| "parse_backoff v (p # ps) =
    (case parse_duration (trim_space p) of
       None \<Rightarrow> Inl (ErrBadConfig (key BackoffKey) v MustBeDurationList)
     | Some d \<Rightarrow>
         if sint d \<le> 0 then Inl (ErrBadConfig (key BackoffKey) v MustBeDurationList)
         else andThen (parse_backoff v ps) (\<lambda>ds. Inr (d # ds)))"

definition backoff_setting :: "string gomap \<Rightarrow> duration list res" where
  "backoff_setting md =
    (case mget md (key BackoffKey) of
       None \<Rightarrow> Inr []
     | Some v \<Rightarrow> parse_backoff v (split_on CHR '','' v))"

record ack_setting_values =
  a_wait :: duration
  a_maxDeliver :: int64
  a_maxAckPending :: int64
  a_backoff :: "duration list"

definition ack_settings :: "string gomap \<Rightarrow> int64 \<Rightarrow> ack_setting_values res" where
  "ack_settings md max_deliver =
    andThen (duration_setting md (key AckWaitKey) 0) (\<lambda>w.
    andThen (positive_int_setting md (key MaxDeliverKey) max_deliver) (\<lambda>m.
    andThen (positive_int_setting md (key MaxAckPendingKey) 0) (\<lambda>p.
    andThen (backoff_setting md) (\<lambda>b.
      Inr \<lparr>a_wait = w, a_maxDeliver = m, a_maxAckPending = p, a_backoff = b\<rparr>))))"

text \<open>
  \<open>consumerConfig\<close> reads the fields of \<open>jsSettings\<close> that are already set: group,
  create and ack.
\<close>

definition consumer_config_of ::
    "string gomap \<Rightarrow> string \<Rightarrow> string \<Rightarrow> bool \<Rightarrow> ackPolicy \<Rightarrow> int64 \<Rightarrow> consumer_config res" where
  "consumer_config_of md subj grp create ack max_deliver =
    andThen (deliver_policy_setting md) (\<lambda>deliver.
    andThen (duration_setting md (key ConsumerInactiveThresholdKey)
      (default_inactive_threshold grp ack)) (\<lambda>inactive.
    andThen (ack_settings md max_deliver) (\<lambda>a.
      if create \<and> ack \<noteq> ackNone \<and> sint (a_maxDeliver a) \<le> int (length (a_backoff a))
      then Inl (ErrBadConfig (key MaxDeliverKey) (format_int64 (a_maxDeliver a))
        (MustExceedBackoff (length (a_backoff a))))
      else
        let cfg = \<lparr>Durable = grp, FilterSubject = subj, DeliverPolicy = deliver,
          AckPolicy = AckNonePolicy, InactiveThreshold = inactive,
          AckWait = 0, MaxDeliver = 0, BackOff = [], MaxAckPending = 0\<rparr>
        in Inr (if ack \<noteq> ackNone
            then cfg\<lparr>AckPolicy := AckExplicitPolicy, AckWait := a_wait a,
              MaxDeliver := a_maxDeliver a, BackOff := a_backoff a,
              MaxAckPending := a_maxAckPending a\<rparr>
            else cfg))))"

definition parse_jetstream ::
    "string gomap \<Rightarrow> string \<Rightarrow> string \<Rightarrow> int64 \<Rightarrow> pull_settings \<Rightarrow> js_settings option res" where
  "parse_jetstream md subj grp max_deliver pull =
    (let stream = mget0 md (key StreamKey)
     in if stream = [] then Inr None
        else
          andThen (create_consumer_setting md grp) (\<lambda>create.
          andThen (ack_policy_setting md) (\<lambda>ack.
          andThen (duration_setting md (key NakDelayKey) 0) (\<lambda>nak_delay.
          andThen (consumer_config_of md subj grp create ack max_deliver) (\<lambda>cfg.
          andThen (read_pull_settings md pull) (\<lambda>p.
            Inr (Some \<lparr>js_stream = stream, js_group = grp, js_create = create, js_ack = ack,
              js_nakDelay = nak_delay, js_config = cfg, js_pull = p\<rparr>)))))))"

section \<open>Lemmas\<close>

lemma parse_backoff_positive:
  "parse_backoff v ps = Inr ds \<Longrightarrow> length ds = length ps \<and> list_all (\<lambda>d. 0 < sint d) ds"
  by (induction ps arbitrary: ds) (auto simp: andThen_eq_Inr split: option.splits if_splits)

lemma parse_backoff_error:
  "parse_backoff v ps = Inl e \<Longrightarrow> e = ErrBadConfig (key BackoffKey) v MustBeDurationList"
  by (induction ps) (auto simp: andThen_eq_Inl split: option.splits if_splits)

interpretation create_consumer_reader:
  setting_reader "\<lambda>md. create_consumer_setting md grp" "key CreateConsumerKey" True
    "\<lambda>c. grp = [] \<longrightarrow> c" for grp
  by unfold_locales (auto simp: create_consumer_setting_def split: option.splits if_splits)

interpretation ack_policy_reader:
  setting_reader ack_policy_setting "key AckPolicyKey" ackDouble "\<lambda>_. True"
  by unfold_locales (auto simp: ack_policy_setting_def split: option.splits if_splits)

interpretation deliver_policy_reader:
  setting_reader deliver_policy_setting "key DeliverPolicyKey" DeliverAllPolicy "\<lambda>_. True"
  by unfold_locales (auto simp: deliver_policy_setting_def split: option.splits if_splits)

interpretation backoff_reader:
  setting_reader backoff_setting "key BackoffKey" "[]" "list_all (\<lambda>d. 0 < sint d)"
  by unfold_locales
    (auto simp: backoff_setting_def dest: parse_backoff_positive parse_backoff_error split: option.splits)

section \<open>Properties\<close>

text \<open>A subscriber is a JetStream one exactly when its settings name a stream: without
  one no other JetStream key is read, whatever it holds.\<close>

theorem stream_key_decides:
  "parse_jetstream md subj grp max_deliver pull = Inr None \<longleftrightarrow> mget0 md (key StreamKey) = []"
  by (auto simp: parse_jetstream_def Let_def andThen_eq_Inr)

lemma consumer_config_ok:
  assumes "consumer_config_of md subj grp create ap max_deliver = Inr cfg" and "0 < sint max_deliver"
  shows "Durable cfg = grp \<and> FilterSubject cfg = subj \<and>
    (ap = ackNone \<longrightarrow> AckPolicy cfg = AckNonePolicy \<and> AckWait cfg = 0 \<and> MaxDeliver cfg = 0
      \<and> BackOff cfg = [] \<and> MaxAckPending cfg = 0) \<and>
    (ap \<noteq> ackNone \<longrightarrow> AckPolicy cfg = AckExplicitPolicy \<and> 0 \<le> sint (AckWait cfg) \<and> 0 < sint (MaxDeliver cfg)
      \<and> list_all (\<lambda>d. 0 < sint d) (BackOff cfg) \<and> 0 \<le> sint (MaxAckPending cfg)
      \<and> (create \<longrightarrow> int (length (BackOff cfg)) < sint (MaxDeliver cfg)))"
proof -
  from assms(1) obtain deliver inactive a where
    a: "ack_settings md max_deliver = Inr a"
    and ok: "\<not> (create \<and> ap \<noteq> ackNone \<and> sint (a_maxDeliver a) \<le> int (length (a_backoff a)))"
    and cfg: "cfg = (let cfg = \<lparr>Durable = grp, FilterSubject = subj, DeliverPolicy = deliver, AckPolicy = AckNonePolicy,
        InactiveThreshold = inactive, AckWait = 0, MaxDeliver = 0, BackOff = [], MaxAckPending = 0\<rparr>
      in if ap \<noteq> ackNone then cfg\<lparr>AckPolicy := AckExplicitPolicy, AckWait := a_wait a,
        MaxDeliver := a_maxDeliver a, BackOff := a_backoff a, MaxAckPending := a_maxAckPending a\<rparr> else cfg)"
    by (auto simp: consumer_config_of_def andThen_eq_Inr Let_def split: if_splits)
  from a obtain
    w: "duration_setting md (key AckWaitKey) 0 = Inr (a_wait a)" and
    m: "positive_int_setting md (key MaxDeliverKey) max_deliver = Inr (a_maxDeliver a)" and
    p: "positive_int_setting md (key MaxAckPendingKey) 0 = Inr (a_maxAckPending a)" and
    b: "backoff_setting md = Inr (a_backoff a)"
    by (auto simp: ack_settings_def andThen_eq_Inr)
  have "0 \<le> sint (a_wait a)" "0 \<le> sint (a_maxAckPending a)"
    using duration_nonneg [OF w] positive_int_nonneg [OF p] by simp_all
  moreover have "0 < sint (a_maxDeliver a)" using positive_int_reader.read_ok [OF m] assms(2) by simp
  moreover have "list_all (\<lambda>d. 0 < sint d) (a_backoff a)" using backoff_reader.read_ok [OF b] by simp
  ultimately show ?thesis using ok by (auto simp: cfg Let_def)
qed

text \<open>C29: the options of a JetStream subscriber are consistent: the consumer is named by
  its group and filters its subject, a consumer made elsewhere has a named group, a
  consumer without acks carries no ack setting, and one with acks delivers more often
  than its backoff has entries, when the runtime makes it, with every entry positive.\<close>

theorem jetstream_settings_consistent:
  assumes "parse_jetstream md subj grp max_deliver pull = Inr (Some s)" and "0 < sint max_deliver"
  shows "js_stream s \<noteq> [] \<and> js_group s = grp \<and> (js_create s \<or> grp \<noteq> []) \<and> 0 \<le> sint (js_nakDelay s) \<and>
    Durable (js_config s) = grp \<and> FilterSubject (js_config s) = subj \<and>
    (js_ack s = ackNone \<longrightarrow> AckPolicy (js_config s) = AckNonePolicy \<and> AckWait (js_config s) = 0 \<and>
      MaxDeliver (js_config s) = 0 \<and> BackOff (js_config s) = [] \<and> MaxAckPending (js_config s) = 0) \<and>
    (js_ack s \<noteq> ackNone \<longrightarrow> AckPolicy (js_config s) = AckExplicitPolicy \<and> 0 < sint (MaxDeliver (js_config s)) \<and>
      list_all (\<lambda>d. 0 < sint d) (BackOff (js_config s)) \<and>
      (js_create s \<longrightarrow> int (length (BackOff (js_config s))) < sint (MaxDeliver (js_config s))))"
proof -
  from assms(1) obtain create ap nd cfg p where
    c: "create_consumer_setting md grp = Inr create"
    and nd: "duration_setting md (key NakDelayKey) 0 = Inr nd"
    and cfg: "consumer_config_of md subj grp create ap max_deliver = Inr cfg"
    and s: "s = \<lparr>js_stream = mget0 md (key StreamKey), js_group = grp, js_create = create, js_ack = ap,
              js_nakDelay = nd, js_config = cfg, js_pull = p\<rparr>" "mget0 md (key StreamKey) \<noteq> []"
    by (auto simp: parse_jetstream_def Let_def andThen_eq_Inr split: if_splits)
  have "grp = [] \<longrightarrow> create" using create_consumer_reader.read_ok [OF c] by simp
  moreover have "0 \<le> sint nd" using duration_nonneg [OF nd] by simp
  ultimately show ?thesis using consumer_config_ok [OF cfg assms(2)] s by auto
qed

definition sample_stream_settings :: "string gomap" where
  "sample_stream_settings = mlit [(key StreamKey, ''ORDERS''), (key BackoffKey, ''1s,5s''), (key MaxDeliverKey, ''3'')]"

definition sample_js_settings :: js_settings where
  "sample_js_settings = \<lparr>js_stream = ''ORDERS'', js_group = ''orders'', js_create = True, js_ack = ackDouble,
     js_nakDelay = 0,
     js_config = \<lparr>Durable = ''orders'', FilterSubject = ''demo.created'', DeliverPolicy = DeliverAllPolicy,
       AckPolicy = AckExplicitPolicy, InactiveThreshold = namedInactiveThreshold, AckWait = 0, MaxDeliver = 3,
       BackOff = [Second, 5000000000], MaxAckPending = 0\<rparr>,
     js_pull = zero_pull\<rparr>"

lemma parse_sample_stream:
  "parse_jetstream sample_stream_settings ''demo.created'' ''orders'' 5 zero_pull = Inr (Some sample_js_settings)"
  by (simp add: parse_jetstream_def sample_stream_settings_def sample_js_settings_def mget0_def
      create_consumer_setting_def ack_policy_setting_def duration_setting_def positive_int_setting_def
      consumer_config_of_def deliver_policy_setting_def ack_settings_def backoff_setting_def
      default_inactive_threshold_def ordered_consumer_def read_pull_settings_def zero_pull_def go_text_eval)

theorem jetstream_settings_consistent_witness:
  "js_stream sample_js_settings \<noteq> [] \<and> int (length (BackOff (js_config sample_js_settings))) = 2 \<and>
   int (length (BackOff (js_config sample_js_settings))) < sint (MaxDeliver (js_config sample_js_settings))"
  using jetstream_settings_consistent [OF parse_sample_stream] by (simp add: sample_js_settings_def)

text \<open>The consumer's life without a puller is the one that is set, else a week for a
  named consumer group, five minutes for an ordered consumer and the server's default
  otherwise.\<close>

theorem inactive_threshold_default:
  assumes "parse_jetstream md subj grp max_deliver pull = Inr (Some s)"
  shows "InactiveThreshold (js_config s) =
    (case mget md (key ConsumerInactiveThresholdKey) of
       Some v \<Rightarrow> the (parse_duration v)
     | None \<Rightarrow> if grp \<noteq> [] then 7 * 24 * Hour else if ordered s then 5 * Minute else 0)"
proof -
  from assms obtain create ap cfg where
    cfg: "consumer_config_of md subj grp create ap max_deliver = Inr cfg"
    and s: "js_config s = cfg" "js_group s = grp" "js_ack s = ap"
    by (auto simp: parse_jetstream_def Let_def andThen_eq_Inr split: if_splits)
  from cfg have "duration_setting md (key ConsumerInactiveThresholdKey) (default_inactive_threshold grp ap)
      = Inr (InactiveThreshold cfg)"
    by (auto simp: consumer_config_of_def andThen_eq_Inr Let_def split: if_splits)
  then show ?thesis using s
    by (auto simp: duration_setting_def default_inactive_threshold_def ordered_def ordered_consumer_def
        namedInactiveThreshold_def orderedInactiveThreshold_def split: option.splits if_splits)
qed

theorem inactive_threshold_default_witness:
  "InactiveThreshold (js_config sample_js_settings) = 7 * 24 * Hour"
  using inactive_threshold_default [OF parse_sample_stream]
  by (simp add: sample_stream_settings_def)

end
