(* ===== verification/Nats.thy ===== *)
theory Nats
  imports JetStream_Settings
begin

text \<open>
  The operations of \<open>nats.go\<close> and the clock that the package calls.  They are not
  under \<open>src/\<close>, so they are a parameter of the model: a record of functions on a
  state \<open>'w\<close> of the outside world.  A call of one is logged, so that theorems can
  speak of what reaches the connection.
\<close>

section \<open>Messages and consumers\<close>

record natsmsg =
  N_Subject :: string
  N_Reply :: string
  N_Header :: header
  N_Data :: string

text \<open>
  A consumer handle with the configuration that \<open>CachedInfo\<close> holds after the call
  that made it.
\<close>

record consumer =
  cn_id :: nat
  cn_name :: string
  cn_config :: consumer_config

record ordered_config =
  oc_FilterSubjects :: "string list"
  oc_DeliverPolicy :: deliver_policy
  oc_InactiveThreshold :: duration

text \<open>A JetStream message: \<open>Headers\<close>, \<open>Data\<close> and \<open>Metadata\<close>, which may fail.\<close>

record msg_metadata =
  mm_NumDelivered :: uint64
  mm_Stream :: string
  mm_Consumer :: string
  mm_StreamSeq :: uint64
  mm_ConsumerSeq :: uint64
  mm_NumPending :: uint64
  mm_Timestamp :: gotime

record jsmsg =
  jm_id :: nat
  jm_Headers :: header
  jm_Data :: string
  jm_Metadata :: "exterr + msg_metadata"

section \<open>Log records\<close>

text \<open>What the runtime writes to its \<open>slog.Logger\<close>.\<close>

datatype log_level = LevelWarn | LevelError

datatype attr =
    AString string
  | AError string
  | AUint uint64
  | AInt int64
  | ADuration duration
  | ABool bool

record log_record =
  l_level :: log_level
  l_msg :: string
  l_attrs :: "(string \<times> attr) list"

definition log_warn :: "string \<Rightarrow> (string \<times> attr) list \<Rightarrow> log_record" where
  "log_warn m as = \<lparr>l_level = LevelWarn, l_msg = m, l_attrs = as\<rparr>"

definition log_error :: "string \<Rightarrow> (string \<times> attr) list \<Rightarrow> log_record" where
  "log_error m as = \<lparr>l_level = LevelError, l_msg = m, l_attrs = as\<rparr>"

section \<open>Operations\<close>

record 'w nats =
  n_now :: "'w \<Rightarrow> gotime \<times> 'w"
  n_connect :: "string \<Rightarrow> nats_option list \<Rightarrow> 'w \<Rightarrow> exterr option \<times> 'w"
  n_jetstream :: "'w \<Rightarrow> exterr option \<times> 'w"
  n_close :: "'w \<Rightarrow> 'w"
  n_request :: "gocontext \<Rightarrow> natsmsg \<Rightarrow> 'w \<Rightarrow> (exterr + natsmsg) \<times> 'w"
  n_publish :: "natsmsg \<Rightarrow> 'w \<Rightarrow> exterr option \<times> 'w"
  n_js_publish :: "gocontext \<Rightarrow> natsmsg \<Rightarrow> string \<Rightarrow> 'w \<Rightarrow> exterr option \<times> 'w"
  n_stream_by_subject :: "gocontext \<Rightarrow> string \<Rightarrow> 'w \<Rightarrow> (exterr + string) \<times> 'w"
  n_stream :: "gocontext \<Rightarrow> string \<Rightarrow> 'w \<Rightarrow> exterr option \<times> 'w"
  n_ordered_consumer :: "gocontext \<Rightarrow> string \<Rightarrow> ordered_config \<Rightarrow> 'w \<Rightarrow> (exterr + consumer) \<times> 'w"
  n_consumer :: "gocontext \<Rightarrow> string \<Rightarrow> string \<Rightarrow> 'w \<Rightarrow> (exterr + consumer) \<times> 'w"
  n_create_consumer :: "gocontext \<Rightarrow> string \<Rightarrow> consumer_config \<Rightarrow> 'w \<Rightarrow> (exterr + consumer) \<times> 'w"
  n_create_or_update_consumer ::
    "gocontext \<Rightarrow> string \<Rightarrow> consumer_config \<Rightarrow> 'w \<Rightarrow> (exterr + consumer) \<times> 'w"
  n_consume :: "consumer \<Rightarrow> pull_opt list \<Rightarrow> 'w \<Rightarrow> (exterr + nat) \<times> 'w"
  n_subscribe :: "string \<Rightarrow> string option \<Rightarrow> 'w \<Rightarrow> (exterr + nat) \<times> 'w"
  n_flush :: "gocontext \<Rightarrow> 'w \<Rightarrow> exterr option \<times> 'w"
  n_unsubscribe :: "nat \<Rightarrow> 'w \<Rightarrow> 'w"
  n_drain_sub :: "nat \<Rightarrow> 'w \<Rightarrow> 'w"
  n_cc_stop :: "nat \<Rightarrow> 'w \<Rightarrow> 'w"
  n_cc_drain :: "nat \<Rightarrow> 'w \<Rightarrow> 'w"
  n_ack :: "nat \<Rightarrow> 'w \<Rightarrow> exterr option \<times> 'w"
  n_double_ack :: "gocontext \<Rightarrow> nat \<Rightarrow> 'w \<Rightarrow> exterr option \<times> 'w"
  n_nak :: "nat \<Rightarrow> 'w \<Rightarrow> exterr option \<times> 'w"
  n_nak_delay :: "duration \<Rightarrow> nat \<Rightarrow> 'w \<Rightarrow> exterr option \<times> 'w"
  n_consumer_info :: "gocontext \<Rightarrow> consumer \<Rightarrow> 'w \<Rightarrow> exterr option \<times> 'w"
  n_is_connected :: "'w \<Rightarrow> bool"
  n_cc_closed :: "nat \<Rightarrow> 'w \<Rightarrow> bool"

text \<open>
  The log of calls.  A call that hands out a handle logs the handle, so that the
  log says which handles were opened and which were released.  \<open>CHandle\<close> is a call
  of an application handler, with the context and the message it is given.
\<close>

datatype call =
    CConnect string "nats_option list"
  | CClose
  | CRequest natsmsg
  | CPublish natsmsg
  | CJsPublish natsmsg string
  | CStreamBySubject string
  | CStream string
  | COrderedConsumer string ordered_config
  | CConsumer string string
  | CCreateConsumer string consumer_config
  | CCreateOrUpdateConsumer string consumer_config
  | CConsume consumer "pull_opt list" "exterr + nat"
  | CSubscribe string "string option" "exterr + nat"
  | CFlush
  | CUnsubscribe nat
  | CDrainSub nat
  | CCcStop nat
  | CCcDrain nat
  | CAck nat
  | CDoubleAck nat
  | CNak nat
  | CNakDelay duration nat
  | CConsumerInfo consumer
  | CHandle gocontext message

record 'w world =
  w_ext :: 'w
  w_log :: "call list"

definition perform :: "('r \<Rightarrow> call) \<Rightarrow> ('w \<Rightarrow> 'r \<times> 'w) \<Rightarrow> 'w world \<Rightarrow> 'r \<times> 'w world" where
  "perform c f W = (let (r, w) = f (w_ext W) in (r, W\<lparr>w_ext := w, w_log := w_log W @ [c r]\<rparr>))"

definition perform0 :: "call \<Rightarrow> ('w \<Rightarrow> 'w) \<Rightarrow> 'w world \<Rightarrow> 'w world" where
  "perform0 c f W = W\<lparr>w_ext := f (w_ext W), w_log := w_log W @ [c]\<rparr>"

definition note_call :: "call \<Rightarrow> 'w world \<Rightarrow> 'w world" where
  "note_call c W = W\<lparr>w_log := w_log W @ [c]\<rparr>"

definition clock :: "'w nats \<Rightarrow> 'w world \<Rightarrow> gotime \<times> 'w world" where
  "clock N W = (let (t, w) = n_now N (w_ext W) in (t, W\<lparr>w_ext := w\<rparr>))"

definition init_world :: "'w \<Rightarrow> 'w world" where
  "init_world w = \<lparr>w_ext = w, w_log = []\<rparr>"

lemma perform_log: "perform c f W = (r, W') \<Longrightarrow> w_log W' = w_log W @ [c r]"
  by (auto simp: perform_def split: prod.splits)

lemma perform_log_snd [simp]: "w_log (snd (perform c f W)) = w_log W @ [c (fst (perform c f W))]"
  by (simp add: perform_def split: prod.splits)

lemma perform0_log [simp]: "w_log (perform0 c f W) = w_log W @ [c]"
  by (simp add: perform0_def)

lemma note_call_log [simp]: "w_log (note_call c W) = w_log W @ [c]"
  by (simp add: note_call_def)

lemma clock_log: "clock N W = (t, W') \<Longrightarrow> w_log W' = w_log W"
  by (auto simp: clock_def split: prod.splits)

lemma clock_log_snd [simp]: "w_log (snd (clock N W)) = w_log W"
  by (simp add: clock_def split: prod.splits)

end
