(* ===== verification/Client.thy ===== *)
theory Client
  imports Headers Nats
begin

text \<open>
  \<open>client.go\<close>: requests and publishes over one connection, bounded by the request
  timeout, and the closed flag.
\<close>

section \<open>State\<close>

record client =
  cl_requestTimeout :: duration
  cl_serviceMap :: "target list"
  cl_closed :: bool

text \<open>\<open>NewClient\<close>.\<close>

definition new_client ::
    "'w nats \<Rightarrow> config \<Rightarrow> target list \<Rightarrow> 'w world \<Rightarrow> client res \<times> 'w world" where
  "new_client N cfg service_map W =
    (case parse_client_settings cfg of
       Inl e \<Rightarrow> (Inl e, W)
     | Inr s \<Rightarrow>
         (case perform (\<lambda>_. CConnect (fst (connect_args s)) (snd (connect_args s)))
            (n_connect N (fst (connect_args s)) (snd (connect_args s))) W of
            (Some e, W1) \<Rightarrow> (Inl (External e), W1)
          | (None, W1) \<Rightarrow>
              (case n_jetstream N (w_ext W1) of
                 (Some e, w) \<Rightarrow> (Inl (External e), perform0 CClose (n_close N) (W1\<lparr>w_ext := w\<rparr>))
               | (None, w) \<Rightarrow>
                   (Inr \<lparr>cl_requestTimeout = cs_requestTimeout s, cl_serviceMap = service_map,
                         cl_closed = False\<rparr>, W1\<lparr>w_ext := w\<rparr>))))"

text \<open>\<open>connections\<close> and \<open>connection\<close>: the connection is usable until \<open>Close\<close>.\<close>

definition connections :: "client \<Rightarrow> unit res" where
  "connections c = (if cl_closed c then Inl ErrClosed else Inr ())"

definition connection :: "client \<Rightarrow> unit res" where
  "connection c = andThen (connections c) (\<lambda>nc. Inr nc)"

lemma connection_connections [simp]: "connection c = connections c"
  unfolding connection_def andThen_def by (cases "connections c") simp_all

definition close :: "'w nats \<Rightarrow> client \<Rightarrow> 'w world \<Rightarrow> client \<times> 'w world" where
  "close N c W =
    (if cl_closed c then (c, W) else (c\<lparr>cl_closed := True\<rparr>, perform0 CClose (n_close N) W))"

section \<open>Bounding a call\<close>

text \<open>
  \<open>boundContext\<close> reads the clock in \<open>time.Until\<close>, when the context has a deadline,
  and again in \<open>context.WithTimeoutCause\<close>.
\<close>

definition bound_context ::
    "'w nats \<Rightarrow> gocontext \<Rightarrow> duration \<Rightarrow> 'w world \<Rightarrow> (gocontext \<times> duration) \<times> 'w world" where
  "bound_context N ctx timeout W =
    (let (wait, W1) =
       (case c_deadline ctx of
          Some d \<Rightarrow>
            let (now, W1) = clock N W in (smin timeout (smax (time_sub d now) 0), W1)
        | None \<Rightarrow> (timeout, W));
         (now, W2) = clock N W1
     in ((with_timeout_cause ctx now timeout ErrRequestTimeout, wait), W2))"

definition timeout_error :: "gocontext \<Rightarrow> gotime \<Rightarrow> exterr \<Rightarrow> exterr" where
  "timeout_error ctx now e =
    (if errors_is e SDeadlineExceeded \<and> ctx_cause ctx now = Some ErrRequestTimeout
     then ErrTimeout else e)"

section \<open>Request\<close>

text \<open>What \<open>Request\<close> checks before it touches the connection.\<close>

definition request_checks ::
    "goenv \<Rightarrow> client \<Rightarrow> message \<Rightarrow> string gomap \<Rightarrow> (string \<times> duration) res" where
  "request_checks env c msg opts =
    andThen (check_kind (M_Target msg) KindRoute ''Request'') (\<lambda>_.
    andThen (subject env (M_Target msg)) (\<lambda>subj.
    andThen (merge_settings (T_Metadata (M_Target msg)) opts) (\<lambda>opts.
    let v = mget0 opts (key StreamKey) in
    if v \<noteq> [] then Inl (ErrBadConfig (key StreamKey) v TopicTargetsOnly)
    else
      andThen (duration_setting opts (key RequestTimeoutKey) (cl_requestTimeout c)) (\<lambda>timeout.
      andThen (connection c) (\<lambda>_. Inr (subj, timeout))))))"

text \<open>The header of a request: the outgoing metadata and the time left.\<close>

definition request_header :: "goenv \<Rightarrow> string gomap \<Rightarrow> duration \<Rightarrow> header res" where
  "request_header env md wait =
    andThen (outgoing_header env md) (\<lambda>h.
      env_header_set env TimeoutKey (format_int64 (duration_ms wait))
        (if h = None then mmake else h))"

text \<open>The reply, read as a handler's failure or as a message.\<close>

definition read_reply :: "target \<Rightarrow> natsmsg \<Rightarrow> message res" where
  "read_reply tgt reply =
    (case mget (N_Header reply) HandlerErrorKey of
       Some text \<Rightarrow> Inl (HandlerError (case text of [] \<Rightarrow> [] | t # _ \<Rightarrow> t))
     | None \<Rightarrow>
         andThen (from_header (N_Header reply)) (\<lambda>md.
           Inr \<lparr>M_Target = tgt, M_Metadata = md, M_Payload = N_Data reply\<rparr>))"

definition request ::
    "goenv \<Rightarrow> 'w nats \<Rightarrow> client \<Rightarrow> gocontext \<Rightarrow> message \<Rightarrow> string gomap \<Rightarrow> 'w world
      \<Rightarrow> message res \<times> 'w world" where
  "request env N c ctx msg opts W =
    (case request_checks env c msg opts of
       Inl e \<Rightarrow> (Inl e, W)
     | Inr (subj, timeout) \<Rightarrow>
         let ((bctx, wait), W1) = bound_context N ctx timeout W in
         (case request_header env (M_Metadata msg) wait of
            Inl e \<Rightarrow> (Inl e, W1)
          | Inr h \<Rightarrow>
              let m = \<lparr>N_Subject = subj, N_Reply = [], N_Header = h, N_Data = M_Payload msg\<rparr> in
              (case perform (\<lambda>_. CRequest m) (n_request N bctx m) W1 of
                 (Inl e, W2) \<Rightarrow>
                   let (now, W3) = clock N W2 in (Inl (External (timeout_error bctx now e)), W3)
               | (Inr reply, W2) \<Rightarrow> (read_reply (M_Target msg) reply, W2))))"

section \<open>Publish\<close>

definition publish_checks ::
    "goenv \<Rightarrow> client \<Rightarrow> message \<Rightarrow> string gomap \<Rightarrow> (string \<times> string \<times> duration) res" where
  "publish_checks env c msg opts =
    andThen (check_kind (M_Target msg) KindTopic ''Publish'') (\<lambda>_.
    andThen (subject env (M_Target msg)) (\<lambda>subj.
    andThen (merge_settings (T_Metadata (M_Target msg)) opts) (\<lambda>opts.
    let stream = mget0 opts (key StreamKey) in
    andThen (if stream \<noteq> [] then duration_setting opts (key RequestTimeoutKey) (cl_requestTimeout c)
             else Inr (cl_requestTimeout c)) (\<lambda>timeout.
    andThen (connections c) (\<lambda>_. Inr (subj, stream, timeout))))))"

definition publish ::
    "goenv \<Rightarrow> 'w nats \<Rightarrow> client \<Rightarrow> gocontext \<Rightarrow> message \<Rightarrow> string gomap \<Rightarrow> 'w world
      \<Rightarrow> unit res \<times> 'w world" where
  "publish env N c ctx msg opts W =
    (case publish_checks env c msg opts of
       Inl e \<Rightarrow> (Inl e, W)
     | Inr (subj, stream, timeout) \<Rightarrow>
         let (now, W0) = clock N W in
         (case ctx_err ctx now of
            Some e \<Rightarrow> (Inl (External e), W0)
          | None \<Rightarrow>
              (case outgoing_header env (M_Metadata msg) of
                 Inl e \<Rightarrow> (Inl e, W0)
               | Inr h \<Rightarrow>
                   let m = \<lparr>N_Subject = subj, N_Reply = [], N_Header = h, N_Data = M_Payload msg\<rparr> in
                   if stream = [] then
                     (case perform (\<lambda>_. CPublish m) (n_publish N m) W0 of
                        (Some e, W1) \<Rightarrow> (Inl (External e), W1)
                      | (None, W1) \<Rightarrow> (Inr (), W1))
                   else
                     let ((bctx, _), W1) = bound_context N ctx timeout W0 in
                     (case perform (\<lambda>_. CJsPublish m stream) (n_js_publish N bctx m stream) W1 of
                        (Some e, W2) \<Rightarrow>
                          let (now', W3) = clock N W2
                          in (Inl (External (timeout_error bctx now' e)), W3)
                      | (None, W2) \<Rightarrow> (Inr (), W2)))))"

section \<open>Inspection\<close>

text \<open>\<open>Client.Stream\<close>: \<open>Inr None\<close> is the nil stream with no error.\<close>

definition client_stream ::
    "'w nats \<Rightarrow> client \<Rightarrow> gocontext \<Rightarrow> target \<Rightarrow> 'w world \<Rightarrow> string option res \<times> 'w world" where
  "client_stream N c ctx tgt W =
    (let name = mget0 (T_Metadata tgt) (key StreamKey)
     in if name = [] then (Inr None, W)
        else case connections c of
            Inl e \<Rightarrow> (Inl e, W)
          | Inr _ \<Rightarrow>
              (case perform (\<lambda>_. CStream name) (n_stream N ctx name) W of
                 (Some e, W1) \<Rightarrow> (Inl (External e), W1)
               | (None, W1) \<Rightarrow> (Inr (Some name), W1)))"

definition service_map :: "client \<Rightarrow> target list" where
  "service_map c = cl_serviceMap c"

section \<open>Lemmas\<close>

lemma request_header_ok:
  assumes "header_set_law env"
  obtains h where "request_header env md wait = Inr h"
    "mget h = (\<lambda>k. if k = TimeoutKey then Some [format_int64 (duration_ms wait)]
        else if k = MsgIDHeader \<and> mget md MessageIDKey \<noteq> None then map_option (\<lambda>v. [v]) (mget md MessageIDKey)
        else map_option (\<lambda>v. [v]) (mget md k))"
proof -
  obtain h0 where h0: "outgoing_header env md = Inr h0" "h0 = None \<longleftrightarrow> mrange md = []"
    "\<And>k. mget h0 k = (if k = MsgIDHeader \<and> mget md MessageIDKey \<noteq> None
        then map_option (\<lambda>v. [v]) (mget md MessageIDKey)
        else map_option (\<lambda>v. [v]) (mget md k))"
    using outgoing_header_ok [OF assms] by blast
  let ?h1 = "if h0 = None then mmake else h0"
  have ne: "?h1 \<noteq> None" by (cases h0) simp_all
  obtain h where h: "mput TimeoutKey [format_int64 (duration_ms wait)] ?h1 = Inr h"
    using mput_ok [OF ne, of TimeoutKey "[format_int64 (duration_ms wait)]"] by (elim exE conjE) (rule that)
  have h1: "mget ?h1 k = mget h0 k" for k by (simp add: mmake_def mget_def DAList.lookup_def DAList.empty_def Alist_inverse)
  show ?thesis
  proof (rule that)
    show "request_header env md wait = Inr h"
      using h0(1) h by (simp add: request_header_def header_set [OF assms])
    show "mget h = (\<lambda>k. if k = TimeoutKey then Some [format_int64 (duration_ms wait)]
        else if k = MsgIDHeader \<and> mget md MessageIDKey \<noteq> None then map_option (\<lambda>v. [v]) (mget md MessageIDKey)
        else map_option (\<lambda>v. [v]) (mget md k))"
      by (rule ext) (simp only: mget_mput [OF h] h1 h0(3))
  qed
qed

lemma connections_Inr: "connections c = Inr u \<longleftrightarrow> \<not> cl_closed c"
  by (simp add: connections_def)

lemma clock_ext: "clock N W = (t, W') \<Longrightarrow> w_log W' = w_log W"
  by (rule clock_log)

lemma bound_context_log: "w_log (snd (bound_context N ctx timeout W)) = w_log W"
  by (simp add: bound_context_def Let_def case_prod_beta split: option.split)

lemma check_kind_ok: "check_kind t want use = Inr u \<longleftrightarrow> T_Kind t = want"
  by (simp add: check_kind_def)

text \<open>The checks of a request pass exactly on these conditions.\<close>

lemma request_checks_Inr:
  "request_checks env c msg opts = Inr (subj, timeout) \<longleftrightarrow>
    T_Kind (M_Target msg) = KindRoute \<and> subject env (M_Target msg) = Inr subj \<and>
    (\<exists>md. merge_settings (T_Metadata (M_Target msg)) opts = Inr md \<and> mget0 md (key StreamKey) = [] \<and>
      duration_setting md (key RequestTimeoutKey) (cl_requestTimeout c) = Inr timeout) \<and> \<not> cl_closed c"
  by (auto simp: request_checks_def andThen_eq_Inr Let_def check_kind_ok connections_Inr split: if_splits)

lemma publish_checks_Inr:
  "publish_checks env c msg opts = Inr (subj, stream, timeout) \<longleftrightarrow>
    T_Kind (M_Target msg) = KindTopic \<and> subject env (M_Target msg) = Inr subj \<and>
    (\<exists>md. merge_settings (T_Metadata (M_Target msg)) opts = Inr md \<and> stream = mget0 md (key StreamKey) \<and>
      (if stream \<noteq> [] then duration_setting md (key RequestTimeoutKey) (cl_requestTimeout c) = Inr timeout
       else timeout = cl_requestTimeout c)) \<and> \<not> cl_closed c"
  by (auto simp: publish_checks_def andThen_eq_Inr Let_def check_kind_ok connections_Inr split: if_splits) metis

lemma request_timeout_positive:
  assumes "request_checks env c msg opts = Inr (subj, timeout)" "0 < sint (cl_requestTimeout c)"
  shows "0 < sint timeout"
  using assms duration_reader.read_ok [of _ "key RequestTimeoutKey" "cl_requestTimeout c" timeout]
  by (auto simp: request_checks_Inr)

section \<open>Sample values for the witnesses\<close>

definition sample_client :: client where
  "sample_client = \<lparr>cl_requestTimeout = 30 * Second, cl_serviceMap = [], cl_closed = False\<rparr>"

definition sample_request :: message where
  "sample_request = \<lparr>M_Target = sample_route, M_Metadata = mlit [(MessageIDKey, ''42'')], M_Payload = ''hi''\<rparr>"

text \<open>A connection that does nothing but answer with what it was sent, at time zero.\<close>

definition sample_consumer :: "string \<Rightarrow> consumer_config \<Rightarrow> consumer" where
  "sample_consumer name cfg = \<lparr>cn_id = 1, cn_name = name, cn_config = cfg\<rparr>"

definition sample_plain_config :: consumer_config where
  "sample_plain_config = \<lparr>Durable = [], FilterSubject = [], DeliverPolicy = DeliverAllPolicy,
     AckPolicy = AckExplicitPolicy, InactiveThreshold = 0, AckWait = 30 * Second, MaxDeliver = 5, BackOff = [],
     MaxAckPending = 0\<rparr>"

definition sample_nats :: "nat nats" where
  "sample_nats = \<lparr>n_now = (\<lambda>w. (0, w)), n_connect = (\<lambda>_ _ w. (None, w)), n_jetstream = (\<lambda>w. (None, w)),
     n_close = (\<lambda>w. w), n_request = (\<lambda>_ m w. (Inr m, w)), n_publish = (\<lambda>_ w. (None, w)),
     n_js_publish = (\<lambda>_ _ _ w. (None, w)),
     n_stream_by_subject = (\<lambda>_ _ w. (Inl (ExtErr [SStreamNotFound] ''nats: stream not found''), w)),
     n_stream = (\<lambda>_ _ w. (None, w)),
     n_ordered_consumer = (\<lambda>_ _ _ w. (Inr (sample_consumer ''ordered'' sample_plain_config), w)),
     n_consumer = (\<lambda>_ _ g w. (Inr (sample_consumer g sample_plain_config), w)),
     n_create_consumer = (\<lambda>_ _ cfg w. (Inr (sample_consumer ''none'' cfg), w)),
     n_create_or_update_consumer = (\<lambda>_ _ cfg w. (Inr (sample_consumer (Durable cfg) cfg), w)),
     n_consume = (\<lambda>_ _ w. (Inr w, w + 1)), n_subscribe = (\<lambda>_ _ w. (Inr w, w + 1)),
     n_flush = (\<lambda>_ w. (None, w)), n_unsubscribe = (\<lambda>_ w. w), n_drain_sub = (\<lambda>_ w. w),
     n_cc_stop = (\<lambda>_ w. w), n_cc_drain = (\<lambda>_ w. w), n_ack = (\<lambda>_ w. (None, w)),
     n_double_ack = (\<lambda>_ _ w. (None, w)), n_nak = (\<lambda>_ w. (None, w)), n_nak_delay = (\<lambda>_ _ w. (None, w)),
     n_consumer_info = (\<lambda>_ _ w. (None, w)), n_is_connected = (\<lambda>_. True), n_cc_closed = (\<lambda>_ _. False)\<rparr>"

lemma sample_subjects:
  "subject sample_env sample_route = Inr ''demo.echo''"
  "subject sample_env sample_topic = Inr ''demo.created''"
  by (simp_all add: subject_def sample_route_def sample_topic_def sample_env_def check_segment_def go_text_eval)

lemma sample_target_fields:
  "T_Kind sample_route = KindRoute" "T_Metadata sample_route = None"
  "T_Kind sample_topic = KindTopic" "T_Metadata sample_topic = None"
  by (simp_all add: sample_route_def sample_topic_def)

section \<open>Properties\<close>

text \<open>C22: \<open>Request\<close> sends nothing when a check fails, and otherwise exactly one message: to
  the target's subject, with the payload, the outgoing metadata and, in \<open>Mesh-Timeout\<close>,
  the milliseconds that are left; it never panics on a nil header.\<close>

theorem request_sends_one_message:
  assumes "header_set_law env"
  shows "case request_checks env c msg opts of
      Inl e \<Rightarrow> request env N c ctx msg opts W = (Inl e, W)
    | Inr (subj, timeout) \<Rightarrow>
        \<exists>h. w_log (snd (request env N c ctx msg opts W)) = w_log W @
          [CRequest \<lparr>N_Subject = subj, N_Reply = [], N_Header = h, N_Data = M_Payload msg\<rparr>] \<and>
        mget h = (\<lambda>k. if k = TimeoutKey
            then Some [format_int64 (duration_ms (snd (fst (bound_context N ctx timeout W))))]
          else if k = MsgIDHeader \<and> mget (M_Metadata msg) MessageIDKey \<noteq> None
            then map_option (\<lambda>v. [v]) (mget (M_Metadata msg) MessageIDKey)
          else map_option (\<lambda>v. [v]) (mget (M_Metadata msg) k))"
proof (cases "request_checks env c msg opts")
  case (Inl e)
  then show ?thesis by (simp add: request_def)
next
  case (Inr st)
  obtain subj timeout where st: "st = (subj, timeout)" by force
  obtain bctx wait W1 where b: "bound_context N ctx timeout W = ((bctx, wait), W1)"
    by (metis prod.exhaust)
  have log: "w_log W1 = w_log W" using bound_context_log [of N ctx timeout W] b by simp
  obtain h where h: "request_header env (M_Metadata msg) wait = Inr h"
    "mget h = (\<lambda>k. if k = TimeoutKey then Some [format_int64 (duration_ms wait)]
        else if k = MsgIDHeader \<and> mget (M_Metadata msg) MessageIDKey \<noteq> None
        then map_option (\<lambda>v. [v]) (mget (M_Metadata msg) MessageIDKey)
        else map_option (\<lambda>v. [v]) (mget (M_Metadata msg) k))"
    using request_header_ok [OF assms] by blast
  let ?m = "\<lparr>N_Subject = subj, N_Reply = [], N_Header = h, N_Data = M_Payload msg\<rparr>"
  have "w_log (snd (request env N c ctx msg opts W)) = w_log W @ [CRequest ?m]"
    using Inr st b h(1) log
    by (auto simp: request_def Let_def split: prod.splits sum.splits dest!: perform_log clock_log)
  with Inr st b h(2) show ?thesis by auto
qed

theorem request_sends_one_message_witness:
  "\<exists>h. w_log (snd (request sample_env sample_nats sample_client ctx_background sample_request None (init_world 0)))
      = [CRequest \<lparr>N_Subject = ''demo.echo'', N_Reply = [], N_Header = h, N_Data = ''hi''\<rparr>] \<and>
    mget h TimeoutKey = Some [''30000''] \<and> mget h MsgIDHeader = Some [''42'']"
proof -
  have c: "request_checks sample_env sample_client sample_request None = Inr (''demo.echo'', 30 * Second)"
    unfolding request_checks_Inr using sample_subjects(1)
    by (simp add: sample_request_def sample_client_def sample_target_fields merge_settings_def duration_setting_def
        mget0_def)
  have b: "snd (fst (bound_context sample_nats ctx_background (30 * Second) (init_world 0))) = 30 * Second"
    by (simp add: bound_context_def ctx_background_def clock_def sample_nats_def)
  obtain h where
    h: "w_log (snd (request sample_env sample_nats sample_client ctx_background sample_request None (init_world 0)))
      = w_log (init_world (0 :: nat)) @
        [CRequest \<lparr>N_Subject = ''demo.echo'', N_Reply = [], N_Header = h, N_Data = M_Payload sample_request\<rparr>]"
    and m: "mget h = (\<lambda>k. if k = TimeoutKey then Some [format_int64 (duration_ms (30 * Second))]
        else if k = MsgIDHeader \<and> mget (M_Metadata sample_request) MessageIDKey \<noteq> None
        then map_option (\<lambda>v. [v]) (mget (M_Metadata sample_request) MessageIDKey)
        else map_option (\<lambda>v. [v]) (mget (M_Metadata sample_request) k))"
    using request_sends_one_message [OF sample_env_laws(1), where c = sample_client and msg = sample_request
        and opts = None and N = sample_nats and ctx = ctx_background and W = "init_world 0"]
    unfolding c sum.case prod.case b by (elim exE conjE) (rule that)
  have "mget h TimeoutKey = Some [''30000'']"
    unfolding m by (simp add: duration_ms_def format_int64_def go_text_eval char_of_def bit_0)
  moreover have "mget h MsgIDHeader = Some [''42'']"
    unfolding m by (simp add: sample_request_def)
  ultimately show ?thesis
    using h by (intro exI [of _ h]) (simp add: init_world_def sample_request_def)
qed

text \<open>The bound of a call: with a non-negative timeout the time left that the request
  carries lies between zero and the timeout and is no more than the caller's deadline
  leaves, and the call's context has the sooner of the two deadlines.\<close>

theorem bound_context_bounds:
  assumes "0 \<le> sint timeout" and "bound_context N ctx timeout W = ((b, wait), W')"
  shows "0 \<le> sint wait \<and> sint wait \<le> sint timeout \<and>
    (\<forall>d. c_deadline ctx = Some d \<longrightarrow> sint wait \<le> max 0 (sint (time_sub d (fst (clock N W))))) \<and>
    (\<exists>now. c_deadline b = Some (case c_deadline ctx of
        None \<Rightarrow> now + sint timeout | Some d \<Rightarrow> min d (now + sint timeout)))"
proof (cases "c_deadline ctx")
  case None
  with assms show ?thesis
    by (auto simp: bound_context_def Let_def with_timeout_cause_def with_deadline_cause_deadline time_add_def
        split: prod.splits)
next
  case (Some d)
  with assms show ?thesis
    by (auto simp: bound_context_def Let_def with_timeout_cause_def with_deadline_cause_deadline time_add_def
        sint_smin sint_smax split: prod.splits)
qed

theorem bound_context_bounds_witness:
  "\<exists>b W'. bound_context sample_nats (with_timeout ctx_background 0 Second) (30 * Second) (init_world 0)
      = ((b, Second), W') \<and> c_deadline b = Some 1000000000 \<and> sint (Second :: duration) \<le> sint (30 * Second :: duration)"
proof -
  obtain b wait W' where e: "bound_context sample_nats (with_timeout ctx_background 0 Second) (30 * Second) (init_world 0)
      = ((b, wait), W')" by (metis prod.exhaust)
  have d: "c_deadline (with_timeout ctx_background 0 Second) = Some 1000000000"
    by (simp add: with_timeout_def with_deadline_def with_deadline_cause_def ctx_background_def time_add_def)
  have w: "wait = Second" and b: "c_deadline b = Some 1000000000"
    using e d by (auto simp: bound_context_def clock_def sample_nats_def time_sub_def smin_def smax_def init_world_def
        with_timeout_cause_def with_deadline_cause_deadline time_add_def)
  from bound_context_bounds [OF _ e] w b e show ?thesis by simp
qed

text \<open>C23: \<open>Publish\<close> sends nothing when a check fails or the context is done, and otherwise
  exactly one message, to the target's subject with the payload and the outgoing
  metadata: a JetStream publish that expects the stream of the settings when they name
  one, a core publish otherwise.\<close>

theorem publish_sends_one_message:
  assumes "header_set_law env"
  shows "case publish_checks env c msg opts of
      Inl e \<Rightarrow> publish env N c ctx msg opts W = (Inl e, W)
    | Inr (subj, stream, timeout) \<Rightarrow>
        (case ctx_err ctx (fst (clock N W)) of
           Some e \<Rightarrow> publish env N c ctx msg opts W = (Inl (External e), snd (clock N W))
         | None \<Rightarrow> \<exists>h m. m = \<lparr>N_Subject = subj, N_Reply = [], N_Header = h, N_Data = M_Payload msg\<rparr> \<and>
             outgoing_header env (M_Metadata msg) = Inr h \<and>
             w_log (snd (publish env N c ctx msg opts W)) =
               w_log W @ [if stream = [] then CPublish m else CJsPublish m stream])"
proof (cases "publish_checks env c msg opts")
  case (Inl e)
  then show ?thesis by (simp add: publish_def)
next
  case (Inr st)
  obtain subj stream timeout where st: "st = (subj, stream, timeout)" by (metis prod.exhaust)
  obtain now W0 where k: "clock N W = (now, W0)" by force
  have log0: "w_log W0 = w_log W" using k by (rule clock_log)
  obtain h where h: "outgoing_header env (M_Metadata msg) = Inr h" using outgoing_header_ok [OF assms] by metis
  show ?thesis
  proof (cases "ctx_err ctx now")
    case (Some e)
    with Inr st k show ?thesis by (simp add: publish_def)
  next
    case None
    let ?m = "\<lparr>N_Subject = subj, N_Reply = [], N_Header = h, N_Data = M_Payload msg\<rparr>"
    obtain bctx wait W1 where b: "bound_context N ctx timeout W0 = ((bctx, wait), W1)" by (metis prod.exhaust)
    have log: "w_log W1 = w_log W" using bound_context_log [of N ctx timeout W0] b log0 by simp
    have "w_log (snd (publish env N c ctx msg opts W))
        = w_log W @ [if stream = [] then CPublish ?m else CJsPublish ?m stream]"
      using Inr st k None h b log log0
      by (auto simp: publish_def Let_def split: prod.splits option.splits dest!: perform_log clock_log)
    with Inr st k None h show ?thesis by simp
  qed
qed

definition sample_event :: message where
  "sample_event = \<lparr>M_Target = sample_topic, M_Metadata = None, M_Payload = ''{}''\<rparr>"

theorem publish_sends_one_message_witness:
  "w_log (snd (publish sample_env sample_nats sample_client ctx_background sample_event
      (mlit [(key StreamKey, ''ORDERS'')]) (init_world 0)))
    = [CJsPublish \<lparr>N_Subject = ''demo.created'', N_Reply = [], N_Header = None, N_Data = ''{}''\<rparr> ''ORDERS'']"
proof -
  obtain md where md: "merge_settings None (mlit [(key StreamKey, ''ORDERS'')]) = Inr md"
    "\<And>k. mget md k = (case mget (mlit [(key StreamKey, ''ORDERS'')]) k of Some v \<Rightarrow> Some v | None \<Rightarrow> mget None k)"
    using merge_settings_ok [of None "mlit [(key StreamKey, ''ORDERS'')]"] by metis
  have c: "publish_checks sample_env sample_client sample_event (mlit [(key StreamKey, ''ORDERS'')])
      = Inr (''demo.created'', ''ORDERS'', 30 * Second)"
  proof -
    have "mget0 md (key StreamKey) = ''ORDERS''" by (simp add: mget0_def md(2))
    moreover have "duration_setting md (key RequestTimeoutKey) d = Inr d" for d
      by (simp add: duration_setting_def md(2))
    ultimately show ?thesis
      unfolding publish_checks_Inr
      by (intro conjI exI [of _ md])
        (simp_all only: sample_event_def sample_client_def message.simps client.simps sample_target_fields
          sample_subjects md(1) if_True if_False split: if_split, simp_all)
  qed
  have n: "ctx_err ctx_background (fst (clock sample_nats (init_world 0))) = None"
    by (simp add: ctx_err_def ctx_background_def)
  have h: "outgoing_header sample_env (M_Metadata sample_event) = Inr None"
    by (simp add: outgoing_header_def to_header_def sample_event_def)
  show ?thesis
    using publish_sends_one_message [OF sample_env_laws(1), where c = sample_client and msg = sample_event
        and opts = "mlit [(key StreamKey, ''ORDERS'')]" and N = sample_nats and ctx = ctx_background
        and W = "init_world 0"]
    unfolding c sum.case prod.case n option.case h
    by (simp add: init_world_def sample_event_def)
qed

text \<open>C33: a call reports \<open>ErrTimeout\<close> exactly when its own request timeout was what ended
  it: on a context that is bounded by the timeout, a deadline error is replaced when the
  timeout has fired before the caller's context, and every other error, a sooner
  deadline of the caller's included, is returned unchanged.\<close>

theorem own_timeout_reported:
  assumes "case c_fire ctx of Some (_, _, cause) \<Rightarrow> cause \<noteq> ErrRequestTimeout | None \<Rightarrow> True"
    and "0 \<le> sint timeout"
  shows "timeout_error (with_timeout_cause ctx t0 timeout ErrRequestTimeout) now e =
    (if errors_is e SDeadlineExceeded \<and> t0 + sint timeout \<le> now
        \<and> (case c_deadline ctx of Some d \<Rightarrow> t0 + sint timeout \<le> d | None \<Rightarrow> True)
        \<and> (case c_fire ctx of Some (t, _) \<Rightarrow> t0 + sint timeout < t | None \<Rightarrow> True)
     then ErrTimeout else e)"
proof (cases "c_fire ctx")
  case None
  with assms(2) show ?thesis
    by (auto simp: timeout_error_def with_timeout_cause_def with_deadline_cause_def ctx_cause_def time_add_def
        split: option.splits)
next
  case (Some f)
  obtain t x k where "f = (t, x, k)" by (metis prod.exhaust)
  with Some assms show ?thesis
    by (auto simp: timeout_error_def with_timeout_cause_def with_deadline_cause_def ctx_cause_def time_add_def
        split: option.splits)
qed

theorem own_timeout_reported_witness:
  "timeout_error (with_timeout_cause ctx_background 0 Second ErrRequestTimeout) 1000000000 DeadlineExceeded = ErrTimeout \<and>
   timeout_error (with_timeout_cause (with_timeout ctx_background 0 Millisecond) 0 Second ErrRequestTimeout)
     1000000000 DeadlineExceeded = DeadlineExceeded"
  using own_timeout_reported [of ctx_background Second 0 1000000000 DeadlineExceeded]
    own_timeout_reported [of "with_timeout ctx_background 0 Millisecond" Second 0 1000000000 DeadlineExceeded]
  by (simp add: ctx_background_def with_timeout_def with_deadline_def with_deadline_cause_def time_add_def
      errors_is_def DeadlineExceeded_def)

text \<open>\<open>Close\<close> is idempotent and final: a second one does nothing, and a closed client
  refuses every request, publish and stream lookup without touching the connection.\<close>

theorem close_is_final:
  "close N (fst (close N c W)) (snd (close N c W)) = close N c W \<and>
   (\<exists>e. request env N (fst (close N c W)) ctx msg opts W' = (Inl e, W')) \<and>
   (\<exists>e. publish env N (fst (close N c W)) ctx msg opts W' = (Inl e, W')) \<and>
   (mget0 (T_Metadata tgt) (key StreamKey) \<noteq> [] \<longrightarrow>
     client_stream N (fst (close N c W)) ctx tgt W' = (Inl ErrClosed, W'))"
proof -
  have cl: "cl_closed (fst (close N c W))" by (simp add: close_def)
  then have k: "connections (fst (close N c W)) = Inl ErrClosed" by (simp add: connections_def)
  have "\<exists>e. request_checks env (fst (close N c W)) msg opts = Inl e"
    by (cases "request_checks env (fst (close N c W)) msg opts") (use cl request_checks_Inr in \<open>auto simp del: split_paired_All\<close>)
  moreover have "\<exists>e. publish_checks env (fst (close N c W)) msg opts = Inl e"
    by (cases "publish_checks env (fst (close N c W)) msg opts")
      (auto simp: publish_checks_def andThen_eq_Inr Let_def k)
  ultimately show ?thesis using cl k by (auto simp: close_def request_def publish_def client_stream_def Let_def)
qed

theorem close_is_final_witness:
  "client_stream sample_nats (fst (close sample_nats sample_client (init_world 0))) ctx_background
     (sample_topic\<lparr>T_Metadata := mlit [(key StreamKey, ''ORDERS'')]\<rparr>) (init_world 0) = (Inl ErrClosed, init_world 0)"
  using close_is_final [where tgt = "sample_topic\<lparr>T_Metadata := mlit [(key StreamKey, ''ORDERS'')]\<rparr>"
      and N = sample_nats and c = sample_client and W = "init_world 0" and W' = "init_world 0" and ctx = ctx_background]
  by (simp add: mget0_def)

end
