(* ===== verification/Subscriptions.thy ===== *)
theory Subscriptions
  imports Client
begin

text \<open>
  \<open>New\<close> in \<open>runtime.go\<close> and \<open>prepareSubscription\<close> in \<open>target.go\<close>: from endpoints
  and subscribers to the validated subscriptions of a runtime.
\<close>

section \<open>Data\<close>

record subscription =
  sb_subject :: string
  sb_queue :: string
  sb_target :: target
  sb_endpoint :: "endpoint_handler option"
  sb_subscriber :: "subscriber_handler option"
  sb_js :: "js_settings option"

datatype runtime_state = StateCreated | StateRunning | StateStopped

text \<open>
  What \<open>New\<close> sets in a \<open>Runtime\<close>: the logger, the capacity of the semaphore and
  the subscriptions.  The fields that \<open>Start\<close> and the handlers change are the state
  of the lifecycle and of the concurrency model.
\<close>

record runtime_config =
  rc_logger :: logger
  rc_concurrency :: int64
  rc_subscriptions :: "subscription list"

section \<open>Construction\<close>

definition prepare_subscription ::
    "goenv \<Rightarrow> target \<Rightarrow> mesh_kind \<Rightarrow> string \<Rightarrow> string \<Rightarrow> string \<Rightarrow> subscription res" where
  "prepare_subscription env t want use grp deployment_group =
    andThen (check_kind t want use) (\<lambda>_.
    andThen (subject env t) (\<lambda>subj.
      Inr \<lparr>sb_subject = subj, sb_queue = consumer_group grp deployment_group, sb_target = t,
        sb_endpoint = None, sb_subscriber = None, sb_js = None\<rparr>))"

definition new_endpoint :: "goenv \<Rightarrow> runtime_settings \<Rightarrow> endpoint \<Rightarrow> subscription res" where
  "new_endpoint env s e =
    andThen (prepare_subscription env (E_Target e) KindRoute ''Endpoint''
      (E_ConsumerGroup e) (rs_deploymentGroup s)) (\<lambda>b.
    if E_Handler e = None then Inl (ErrNilHandler ''endpoint'' (sb_subject b))
    else
      andThen (merge_settings (T_Metadata (E_Target e)) (E_Metadata e)) (\<lambda>md.
      let v = mget0 md (key StreamKey) in
      if v \<noteq> [] then Inl (ErrBadConfig (key StreamKey) v (SubscribersOnly (sb_subject b)))
      else Inr (b\<lparr>sb_endpoint := E_Handler e\<rparr>)))"

definition new_subscriber :: "goenv \<Rightarrow> runtime_settings \<Rightarrow> subscriber \<Rightarrow> subscription res" where
  "new_subscriber env s sub =
    andThen (prepare_subscription env (S_Target sub) KindTopic ''Subscriber''
      (S_ConsumerGroup sub) (rs_deploymentGroup s)) (\<lambda>b.
    if S_Handler sub = None then Inl (ErrNilHandler ''subscriber'' (sb_subject b))
    else
      andThen (merge_settings (T_Metadata (S_Target sub)) (S_Metadata sub)) (\<lambda>md.
      andThen (parse_jetstream md (sb_subject b) (sb_queue b) (rs_maxDeliver s) (rs_pull s)) (\<lambda>js.
        Inr (b\<lparr>sb_subscriber := S_Handler sub, sb_js := js\<rparr>))))"

text \<open>The loops of \<open>New\<close> stop at the first element that is refused.\<close>

fun collect :: "('a \<Rightarrow> 'b res) \<Rightarrow> 'a list \<Rightarrow> 'b list res" where
  "collect f [] = Inr []"
| "collect f (x # xs) =
    andThen (f x) (\<lambda>y. andThen (collect f xs) (\<lambda>ys. Inr (y # ys)))"

definition new_runtime ::
    "goenv \<Rightarrow> client option \<Rightarrow> config \<Rightarrow> endpoint list \<Rightarrow> subscriber list \<Rightarrow> option_fn list
      \<Rightarrow> runtime_config res" where
  "new_runtime env cl cfg endpoints subscribers opts =
    (if cl = None then Inl ErrNilClient
     else
       andThen (parse_runtime_settings env cfg opts) (\<lambda>s.
       andThen (collect (new_endpoint env s) endpoints) (\<lambda>es.
       andThen (collect (new_subscriber env s) subscribers) (\<lambda>ss.
         Inr \<lparr>rc_logger = rs_logger s, rc_concurrency = rs_concurrency s,
              rc_subscriptions = es @ ss\<rparr>))))"

section \<open>Lemmas\<close>

lemma collect_Inr: "collect f xs = Inr ys \<longleftrightarrow> list_all2 (\<lambda>x y. f x = Inr y) xs ys"
  by (induction xs arbitrary: ys) (auto simp: andThen_eq_Inr list_all2_Cons1)

lemma collect_Inl:
  "collect f xs = Inl e \<Longrightarrow> \<exists>k < length xs. f (xs ! k) = Inl e \<and> (\<forall>j < k. \<exists>y. f (xs ! j) = Inr y)"
proof (induction xs)
  case (Cons x xs)
  show ?case
  proof (cases "f x")
    case (Inl e')
    with Cons.prems show ?thesis by (intro exI [of _ 0]) simp
  next
    case (Inr y)
    with Cons.prems have "collect f xs = Inl e" by (auto simp: andThen_eq_Inl)
    with Cons.IH obtain k where k: "k < length xs" "f (xs ! k) = Inl e"
      "\<forall>j < k. \<exists>y. f (xs ! j) = Inr y" by blast
    have "\<forall>j < Suc k. \<exists>y. f ((x # xs) ! j) = Inr y"
      using k(3) Inr by (auto simp: less_Suc_eq_0_disj)
    with k(1,2) show ?thesis by (intro exI [of _ "Suc k"]) simp
  qed
qed simp

text \<open>
  What a subscription of an endpoint or subscriber is: its subject, resolved group,
  target and handler, and the JetStream settings its settings give.
\<close>

definition endpoint_subscription :: "goenv \<Rightarrow> string \<Rightarrow> endpoint \<Rightarrow> subscription \<Rightarrow> bool" where
  "endpoint_subscription env grp e b \<longleftrightarrow>
    T_Kind (E_Target e) = KindRoute \<and> subject env (E_Target e) = Inr (sb_subject b) \<and>
    sb_queue b = consumer_group (E_ConsumerGroup e) grp \<and> sb_target b = E_Target e \<and>
    sb_endpoint b = E_Handler e \<and> E_Handler e \<noteq> None \<and> sb_subscriber b = None \<and> sb_js b = None"

definition subscriber_subscription :: "goenv \<Rightarrow> runtime_settings \<Rightarrow> subscriber \<Rightarrow> subscription \<Rightarrow> bool" where
  "subscriber_subscription env s sub b \<longleftrightarrow>
    T_Kind (S_Target sub) = KindTopic \<and> subject env (S_Target sub) = Inr (sb_subject b) \<and>
    sb_queue b = consumer_group (S_ConsumerGroup sub) (rs_deploymentGroup s) \<and> sb_target b = S_Target sub \<and>
    sb_endpoint b = None \<and> sb_subscriber b = S_Handler sub \<and> S_Handler sub \<noteq> None \<and>
    (\<exists>md. merge_settings (T_Metadata (S_Target sub)) (S_Metadata sub) = Inr md \<and>
      parse_jetstream md (sb_subject b) (sb_queue b) (rs_maxDeliver s) (rs_pull s) = Inr (sb_js b))"

lemma prepare_Inr:
  "prepare_subscription env t want use grp dg = Inr b \<longleftrightarrow>
    T_Kind t = want \<and> (\<exists>subj. subject env t = Inr subj \<and>
      b = \<lparr>sb_subject = subj, sb_queue = consumer_group grp dg, sb_target = t,
        sb_endpoint = None, sb_subscriber = None, sb_js = None\<rparr>)"
  by (auto simp: prepare_subscription_def andThen_eq_Inr check_kind_ok)

lemma new_endpoint_Inr:
  "new_endpoint env s e = Inr b \<Longrightarrow> endpoint_subscription env (rs_deploymentGroup s) e b"
  by (auto simp: new_endpoint_def andThen_eq_Inr prepare_Inr endpoint_subscription_def Let_def split: if_splits)

lemma new_subscriber_Inr:
  "new_subscriber env s sub = Inr b \<Longrightarrow> subscriber_subscription env s sub b"
  by (auto simp: new_subscriber_def andThen_eq_Inr prepare_Inr subscriber_subscription_def split: if_splits)

section \<open>Properties\<close>

lemma new_runtime_lists:
  assumes "new_runtime env cl cfg es ss opts = Inr rc"
  obtains s bs cs where "parse_runtime_settings env cfg opts = Inr s" "rc_subscriptions rc = bs @ cs"
    "rc_concurrency rc = rs_concurrency s" "list_all2 (endpoint_subscription env (rs_deploymentGroup s)) es bs"
    "list_all2 (subscriber_subscription env s) ss cs"
proof -
  from assms obtain s bs cs where s: "parse_runtime_settings env cfg opts = Inr s"
    and bs: "collect (new_endpoint env s) es = Inr bs" and cs: "collect (new_subscriber env s) ss = Inr cs"
    and rc: "rc = \<lparr>rc_logger = rs_logger s, rc_concurrency = rs_concurrency s, rc_subscriptions = bs @ cs\<rparr>"
    by (auto simp: new_runtime_def andThen_eq_Inr split: if_splits)
  have "list_all2 (endpoint_subscription env (rs_deploymentGroup s)) es bs"
    using bs unfolding collect_Inr by (rule list_all2_mono) (rule new_endpoint_Inr)
  moreover have "list_all2 (subscriber_subscription env s) ss cs"
    using cs unfolding collect_Inr by (rule list_all2_mono) (rule new_subscriber_Inr)
  ultimately show ?thesis using s rc by (intro that [of s bs cs]) simp_all
qed

text \<open>
  \<open>New\<close> gives one subscription for each endpoint and then one for each subscriber,
  in their order, each with its own subject, group and handler; an endpoint's has no
  stream, and a subscriber's JetStream options come from its metadata over its target's.
\<close>

theorem new_runtime_subscriptions:
  assumes "new_runtime env cl cfg es ss opts = Inr rc"
  shows "\<exists>s bs cs. parse_runtime_settings env cfg opts = Inr s \<and> rc_subscriptions rc = bs @ cs \<and>
    rc_concurrency rc = rs_concurrency s \<and>
    list_all2 (endpoint_subscription env (rs_deploymentGroup s)) es bs \<and>
    list_all2 (subscriber_subscription env s) ss cs"
  by (rule new_runtime_lists [OF assms]) blast

text \<open>Handlers for the witnesses: an echo of the payload, and a subscriber that always fails.\<close>

definition echo :: endpoint_handler where
  "echo ctx m = Returns (m\<lparr>M_Metadata := None\<rparr>) None"

definition failing :: subscriber_handler where
  "failing ctx m = (Returns () (Some ''boom''), M_Metadata m)"

definition sample_endpoint :: endpoint where
  "sample_endpoint = \<lparr>E_Target = sample_route, E_Handler = Some echo, E_ConsumerGroup = [], E_Metadata = None\<rparr>"

definition sample_subscriber :: subscriber where
  "sample_subscriber = \<lparr>S_Target = sample_topic, S_Handler = Some failing, S_ConsumerGroup = ConsumerGroupNone,
     S_Metadata = None\<rparr>"

definition sample_endpoint_sub :: subscription where
  "sample_endpoint_sub = \<lparr>sb_subject = ''demo.echo'', sb_queue = ''orders'', sb_target = sample_route,
     sb_endpoint = Some echo, sb_subscriber = None, sb_js = None\<rparr>"

definition sample_subscriber_sub :: subscription where
  "sample_subscriber_sub = \<lparr>sb_subject = ''demo.created'', sb_queue = [], sb_target = sample_topic,
     sb_endpoint = None, sb_subscriber = Some failing, sb_js = None\<rparr>"

definition sample_runtime_settings :: runtime_settings where
  "sample_runtime_settings = \<lparr>rs_deploymentGroup = ''orders'', rs_concurrency = 4, rs_maxDeliver = 5,
     rs_pull = zero_pull\<lparr>p_maxMessages := 100\<rparr>, rs_logger = 0\<rparr>"

definition sample_runtime_config :: runtime_config where
  "sample_runtime_config = \<lparr>rc_logger = 0, rc_concurrency = 4,
     rc_subscriptions = [sample_endpoint_sub, sample_subscriber_sub]\<rparr>"

lemma sample_runtime_parsed:
  "parse_runtime_settings sample_env sample_config [] = Inr sample_runtime_settings"
  by (simp add: parse_runtime_settings_def sample_config_def positive_int_setting_def duration_setting_def
      read_pull_settings_def mget0_def apply_options_def sample_env_def zero_pull_def defaultMaxDeliver_def
      sample_runtime_settings_def go_text_eval)

lemma merge_nil: "merge_settings None None = Inr mmake"
  by (simp add: merge_settings_def)

lemma sample_runtime_made:
  "new_runtime sample_env (Some sample_client) sample_config [sample_endpoint] [sample_subscriber] []
    = Inr sample_runtime_config"
proof -
  have "new_endpoint sample_env sample_runtime_settings sample_endpoint = Inr sample_endpoint_sub"
    by (simp add: new_endpoint_def prepare_subscription_def check_kind_def sample_endpoint_def sample_target_fields
        sample_subjects merge_nil mget0_def consumer_group_def sample_runtime_settings_def sample_endpoint_sub_def)
  moreover have "new_subscriber sample_env sample_runtime_settings sample_subscriber = Inr sample_subscriber_sub"
    by (simp add: new_subscriber_def prepare_subscription_def check_kind_def sample_subscriber_def sample_target_fields
        sample_subjects merge_nil mget0_def consumer_group_def sample_runtime_settings_def sample_subscriber_sub_def
        parse_jetstream_def)
  ultimately show ?thesis
    by (simp add: new_runtime_def sample_runtime_parsed sample_runtime_config_def)
      (simp add: sample_runtime_settings_def)
qed

theorem new_runtime_subscriptions_witness:
  "\<exists>s bs cs. parse_runtime_settings sample_env sample_config [] = Inr s \<and>
    rc_subscriptions sample_runtime_config = bs @ cs \<and> rc_concurrency sample_runtime_config = rs_concurrency s \<and>
    list_all2 (endpoint_subscription sample_env (rs_deploymentGroup s)) [sample_endpoint] bs \<and>
    list_all2 (subscriber_subscription sample_env s) [sample_subscriber] cs"
  by (rule new_runtime_subscriptions [OF sample_runtime_made])

text \<open>\<open>New\<close> reports the first thing that is wrong: no client, then the runtime's own
  settings, then the first endpoint that is refused, then the first such subscriber.\<close>

theorem new_runtime_first_error:
  assumes "new_runtime env cl cfg es ss opts = Inl e"
  shows "cl = None \<and> e = ErrNilClient \<or> parse_runtime_settings env cfg opts = Inl e \<or>
    (\<exists>s. parse_runtime_settings env cfg opts = Inr s \<and>
      ((\<exists>k < length es. new_endpoint env s (es ! k) = Inl e \<and>
          list_all (\<lambda>x. \<exists>b. new_endpoint env s x = Inr b) (take k es)) \<or>
       list_all (\<lambda>x. \<exists>b. new_endpoint env s x = Inr b) es \<and>
       (\<exists>k < length ss. new_subscriber env s (ss ! k) = Inl e \<and>
          list_all (\<lambda>x. \<exists>b. new_subscriber env s x = Inr b) (take k ss))))"
proof (cases "cl = None \<or> (\<exists>e'. parse_runtime_settings env cfg opts = Inl e')")
  case True
  with assms show ?thesis by (auto simp: new_runtime_def split: if_splits)
next
  case False
  then obtain s where s: "parse_runtime_settings env cfg opts = Inr s" "cl \<noteq> None"
    by (cases "parse_runtime_settings env cfg opts") auto
  have first: "\<exists>k < length xs. f (xs ! k) = Inl e \<and> list_all (\<lambda>x. \<exists>y. f x = Inr y) (take k xs)"
    if "collect f xs = Inl e" for f :: "'x \<Rightarrow> 'y res" and xs
    using collect_Inl [OF that] by (auto simp: list_all_length)
  have all: "list_all (\<lambda>x. \<exists>y. f x = Inr y) xs" if "collect f xs = Inr ys" for f :: "'x \<Rightarrow> 'y res" and xs ys
    using that unfolding collect_Inr by (auto simp: list_all_length list_all2_conv_all_nth)
  show ?thesis
  proof (cases "collect (new_endpoint env s) es")
    case (Inl e')
    with assms s have "e' = e" by (simp add: new_runtime_def)
    with Inl first [of "new_endpoint env s" es] s show ?thesis by blast
  next
    case (Inr bs)
    with assms s have "collect (new_subscriber env s) ss = Inl e"
      by (auto simp: new_runtime_def andThen_eq_Inl)
    with first [of "new_subscriber env s" ss] all [OF Inr] s show ?thesis by blast
  qed
qed

theorem new_runtime_first_error_witness:
  "\<exists>s. parse_runtime_settings sample_env sample_config [] = Inr s \<and>
    new_endpoint sample_env s (sample_endpoint\<lparr>E_Handler := None\<rparr>) = Inl (ErrNilHandler ''endpoint'' ''demo.echo'')"
proof -
  have bad: "new_endpoint sample_env sample_runtime_settings (sample_endpoint\<lparr>E_Handler := None\<rparr>)
      = Inl (ErrNilHandler ''endpoint'' ''demo.echo'')"
    by (simp add: new_endpoint_def prepare_subscription_def check_kind_def sample_endpoint_def sample_target_fields
        sample_subjects)
  then have "new_runtime sample_env (Some sample_client) sample_config [sample_endpoint\<lparr>E_Handler := None\<rparr>]
      [] [] = Inl (ErrNilHandler ''endpoint'' ''demo.echo'')"
    by (simp add: new_runtime_def sample_runtime_parsed)
  from new_runtime_first_error [OF this] show ?thesis
    by (simp add: sample_runtime_parsed bad)
qed

end
