(* ===== verification/Error_Texts.thy ===== *)
theory Error_Texts
  imports Client Subscriptions
begin

text \<open>
  The texts of the errors: \<open>errors.go\<close>, the formats of every \<open>fmt.Errorf\<close> of the
  package, and \<open>strconv.Quote\<close>, which \<open>%q\<close> prints with.  The texts of the three errors of
  \<open>mesh\<close> and of its kinds are not under \<open>src/\<close>, so they are a parameter.
\<close>

section \<open>Quoting\<close>

abbreviation backslash :: char where "backslash \<equiv> CHR 0x5C"
abbreviation dquote :: char where "dquote \<equiv> CHR 0x22"
abbreviation squote :: char where "squote \<equiv> CHR 0x27"

definition hex_digit :: "nat \<Rightarrow> char" where
  "hex_digit d = (if d < 10 then char_of (48 + d) else char_of (87 + d))"

text \<open>The last \<open>w\<close> hexadecimal digits of a number.\<close>

fun hex :: "nat \<Rightarrow> nat \<Rightarrow> string" where
  "hex 0 n = []"
| "hex (Suc w) n = hex w (n div 16) @ [hex_digit (n mod 16)]"

lemma hex_2: "hex 2 n = [hex_digit (n div 16 mod 16), hex_digit (n mod 16)]"
  by (simp add: numeral_2_eq_2)

definition escape_letter :: "nat \<Rightarrow> char option" where
  "escape_letter r = map_of
    [(7, CHR ''a''), (8, CHR ''b''), (12, CHR ''f''), (10, CHR ''n''), (13, CHR ''r''),
     (9, CHR ''t''), (11, CHR ''v'')] r"

text \<open>
  One rune of a quoted string, given with its bytes: a byte that is no valid UTF-8 and a
  control character in hexadecimal, the quote and the backslash escaped, a printable rune
  as it is, any other by its code point.
\<close>

definition escape_rune :: "goenv \<Rightarrow> nat \<Rightarrow> nat \<times> string \<Rightarrow> string" where
  "escape_rune env q = (\<lambda>(r, bs).
    if r = 0xFFFD \<and> length bs = 1 then [backslash, CHR ''x''] @ hex 2 (byte (hd bs))
    else if r = q \<or> r = 0x5C then [backslash, char_of r]
    else if is_print_rune (env_uprint env) r then bs
    else case escape_letter r of
        Some c \<Rightarrow> [backslash, c]
      | None \<Rightarrow>
          if r < 0x20 \<or> r = 0x7F then [backslash, CHR ''x''] @ hex 2 r
          else if r < 0x10000 then [backslash, CHR ''u''] @ hex 4 r
          else [backslash, CHR ''U''] @ hex 8 r)"

text \<open>\<open>%q\<close> of a string or of bytes, and of an ASCII rune.\<close>

definition go_quote :: "goenv \<Rightarrow> string \<Rightarrow> string" where
  "go_quote env s = dquote # concat (map (escape_rune env 0x22) (rune_chunks s)) @ [dquote]"

definition quote_rune :: "goenv \<Rightarrow> nat \<Rightarrow> string" where
  "quote_rune env r = squote # escape_rune env 0x27 (r, [char_of r]) @ [squote]"

section \<open>Error texts\<close>

record mesh_texts =
  mt_kind :: "mesh_kind \<Rightarrow> string"
  mt_kind_mismatch :: string
  mt_invalid_target :: string
  mt_no_deployment_group :: string

fun segment_text :: "goenv \<Rightarrow> segment_problem \<Rightarrow> string" where
  "segment_text env EmptySegment = ''empty''"
| "segment_text env HasDot = ''contains '.'' @ [squote]"
| "segment_text env (HasWildcard c) = ''contains wildcard '' @ quote_rune env c"
| "segment_text env HasWhitespace = ''contains whitespace''"
| "segment_text env HasNonPrintable = ''contains non-printable character''"

fun target_text :: "goenv \<Rightarrow> target_problem \<Rightarrow> string" where
  "target_text env NoSegments = ''no segments''"
| "target_text env (BadSegment i seg p) =
    ''segment '' @ show_nat i @ '' '' @ go_quote env seg @ '': '' @ segment_text env p"

fun rule_text :: "goenv \<Rightarrow> string \<Rightarrow> string \<Rightarrow> config_rule \<Rightarrow> string" where
  \<open>rule_text env k v MustBeDuration =
    k @ ''='' @ go_quote env v @ '' must be a positive duration such as "5s"''\<close>
| \<open>rule_text env k v MustBeInt = k @ ''='' @ go_quote env v @ '' must be a positive integer''\<close>
| \<open>rule_text env k v NeedsNamedGroup = k @ ''='' @ go_quote env v @ '' needs a named consumer group''\<close>
| \<open>rule_text env k v MustBeBool = k @ ''='' @ go_quote env v @ '' must be "true" or "false"''\<close>
| \<open>rule_text env k v MustBeAckPolicy =
    k @ ''='' @ go_quote env v @ '' must be "double", "explicit", or "none"''\<close>
| \<open>rule_text env k v MustBeDeliverPolicy = k @ ''='' @ go_quote env v @ '' must be "all" or "new"''\<close>
| \<open>rule_text env k v MustBeDurationList =
    k @ ''='' @ go_quote env v @ '' must be a comma-separated list of positive durations such as "1s,5s"''\<close>
| \<open>rule_text env k v (MustExceedBackoff n) =
    k @ ''='' @ v @ '' must exceed the '' @ show_nat n @ '' entries of '' @ key BackoffKey\<close>
| \<open>rule_text env k v (SubscribersOnly subj) =
    k @ ''='' @ go_quote env v @ '' on endpoint '' @ go_quote env subj @ '' applies to subscribers only''\<close>
| \<open>rule_text env k v TopicTargetsOnly = k @ ''='' @ go_quote env v @ '' applies to topic targets only''\<close>

text \<open>\<open>HandlerError.Error\<close>.\<close>

definition handler_error_text :: "string \<Rightarrow> string" where
  "handler_error_text t = ''nats: handler failed: '' @ t"

text \<open>\<open>err.Error()\<close>, which \<open>%v\<close> prints.\<close>

fun error_text :: "goenv \<Rightarrow> mesh_texts \<Rightarrow> goerr \<Rightarrow> string" where
  "error_text env mt (ErrKindMismatch use want got) =
    mt_kind_mismatch mt @ '': '' @ use @ '' requires a '' @ mt_kind mt want @ '' target, got '' @ mt_kind mt got"
| "error_text env mt (ErrInvalidTarget p) = mt_invalid_target mt @ '': '' @ target_text env p"
| "error_text env mt ErrNoDeploymentGroup = mt_no_deployment_group mt"
| "error_text env mt (ErrBadConfig k v rule) = ''nats: bad configuration value: '' @ rule_text env k v rule"
| "error_text env mt ErrClosed = ''nats: client is closed''"
| "error_text env mt ErrAlreadyStarted = ''nats: runtime already started''"
| "error_text env mt ErrStopped = ''nats: runtime has been stopped''"
| "error_text env mt (ErrStreamCoversRoute subj name) =
    ''nats: a stream covers an endpoint subject: subject '' @ go_quote env subj @ '', stream '' @ go_quote env name"
| "error_text env mt (HandlerError t) = handler_error_text t"
| "error_text env mt ErrNilClient = ''nats: client is nil''"
| "error_text env mt (ErrNilHandler what subj) =
    ''nats: '' @ what @ '' '' @ go_quote env subj @ '' has a nil handler''"
| "error_text env mt (External e) = ext_text e"
| "error_text env mt (Panicked p) = p"

section \<open>Lines without control bytes\<close>

definition plain_byte :: "char \<Rightarrow> bool" where
  "plain_byte c \<longleftrightarrow> 0x20 \<le> byte c \<and> byte c \<noteq> 0x7F"

definition one_line :: "string \<Rightarrow> bool" where
  "one_line s \<longleftrightarrow> list_all plain_byte s"

definition plain_mesh_texts :: "mesh_texts \<Rightarrow> bool" where
  "plain_mesh_texts mt \<longleftrightarrow> one_line (mt_kind mt KindRoute) \<and> one_line (mt_kind mt KindTopic) \<and>
    one_line (mt_kind_mismatch mt) \<and> one_line (mt_invalid_target mt) \<and> one_line (mt_no_deployment_group mt)"

lemma one_line_simps [simp]:
  "one_line []" "one_line (c # s) \<longleftrightarrow> plain_byte c \<and> one_line s"
  "one_line (s @ t) \<longleftrightarrow> one_line s \<and> one_line t"
  by (simp_all add: one_line_def)

lemma plain_byte_Char [simp]:
  "plain_byte (Char a b c d e f g h) \<longleftrightarrow> (f \<or> g \<or> h) \<and> \<not> (a \<and> b \<and> c \<and> d \<and> e \<and> f \<and> g \<and> \<not> h)"
  by (cases a; cases b; cases c; cases d; cases e; cases f; cases g; cases h) (simp_all add: plain_byte_def byte_def)

lemma plain_byte_char: "plain_byte (char_of (n :: nat)) \<longleftrightarrow> 0x20 \<le> n mod 256 \<and> n mod 256 \<noteq> 0x7F"
  by (simp add: plain_byte_def byte_def)

lemma one_line_hex [simp]: "one_line (hex w n)"
proof (induction w arbitrary: n)
  case (Suc w)
  have "n mod 16 < 16" by simp
  then have "plain_byte (hex_digit (n mod 16))"
    by (cases "n mod 16 < 10") (auto simp: hex_digit_def plain_byte_char)
  with Suc show ?case by simp
qed simp

lemma one_line_show_nat [simp]: "one_line (show_nat n)"
  using show_nat_digits [of n] by (auto simp: one_line_def list_all_iff plain_byte_def is_digit_def)

text \<open>The bytes of a printable rune hold no control byte.\<close>

lemma rune_chunk_bytes:
  "(r, bs) \<in> set (rune_chunks s) \<Longrightarrow>
    (\<exists>c. bs = [c] \<and> r = byte c \<and> r < 0x80) \<or> list_all (\<lambda>c. 0x80 \<le> byte c) bs"
proof (induction "length s" arbitrary: s rule: less_induct)
  case less
  obtain a t where s: "s = a # t" using less.prems by (cases s) auto
  let ?d = "decode_rune s"
  have w: "0 < snd ?d" using s decode_rune_width_pos by blast
  consider "(r, bs) = (fst ?d, take (snd ?d) s)" | "(r, bs) \<in> set (rune_chunks (drop (snd ?d) s))"
    using less.prems rune_chunks_nonempty [of s] s by auto
  then show ?case
  proof cases
    case 1
    show ?thesis
    proof (cases "byte a < 0x80")
      case True
      with 1 s show ?thesis by simp
    next
      case False
      have "take (snd ?d) s = a # take (snd ?d - 1) t" using s w by (cases "snd ?d") auto
      with False 1 decode_rune_tail [of a t] s show ?thesis by (auto simp: list_all_iff)
    qed
  next
    case 2
    have "length (drop (snd ?d) s) < length s" using w s by simp
    from less.hyps [OF this 2] show ?thesis .
  qed
qed

lemma plain_high: "list_all (\<lambda>c. 0x80 \<le> byte c) bs \<Longrightarrow> one_line bs"
  by (auto simp: one_line_def plain_byte_def list_all_iff)

lemma escape_letter_plain: "escape_letter r = Some c \<Longrightarrow> plain_byte c"
  by (auto simp: escape_letter_def plain_byte_def byte_def split: if_splits)

lemma one_line_escape:
  assumes "(\<exists>c. bs = [c] \<and> r = byte c \<and> r < 0x80) \<or> list_all (\<lambda>c. 0x80 \<le> byte c) bs"
    and "0x20 \<le> q" "q < 0x7F"
  shows "one_line (escape_rune env q (r, bs))"
proof -
  have bs: "one_line bs" if "is_print_rune (env_uprint env) r"
    using assms(1) that plain_high [of bs] by (auto simp: plain_byte_def is_print_rune_def)
  have lit: "plain_byte backslash" "plain_byte (CHR ''x'')" "plain_byte (CHR ''u'')" "plain_byte (CHR ''U'')"
    by (simp_all add: plain_byte_def byte_def)
  show ?thesis
    using bs lit assms(2,3) escape_letter_plain [of r]
    by (auto simp: escape_rune_def plain_byte_char split: option.split)
qed

lemma one_line_quote [simp]: "one_line (go_quote env s)"
proof -
  have "one_line (escape_rune env 0x22 x)" if "x \<in> set (rune_chunks s)" for x
    using that rune_chunk_bytes [of "fst x" "snd x" s] one_line_escape [where bs = "snd x" and r = "fst x" and q = "0x22" and env = env] by simp
  then have "one_line (concat (map (escape_rune env 0x22) (rune_chunks s)))"
    by (auto simp: one_line_def list_all_iff)
  then show ?thesis by (simp add: go_quote_def plain_byte_def byte_def)
qed

lemma one_line_quote_rune: "r < 0x80 \<Longrightarrow> one_line (quote_rune env r)"
  using one_line_escape [where bs = "[char_of r]" and r = r and q = "0x27" and env = env]
  by (simp add: quote_rune_def byte_def plain_byte_def)

lemma one_line_key [simp]: "one_line (key s)"
  by (cases s) simp_all

section \<open>What can fail with which error\<close>

text \<open>A result whose error, when it is one, satisfies a predicate; one rule for each combinator.\<close>

definition fails :: "(goerr \<Rightarrow> bool) \<Rightarrow> 'a res \<Rightarrow> bool" where
  "fails P r \<longleftrightarrow> (case r of Inl e \<Rightarrow> P e | Inr _ \<Rightarrow> True)"

lemma failsD: "fails P r \<Longrightarrow> r = Inl e \<Longrightarrow> P e"
  by (simp add: fails_def)

lemma fails_Inr [intro!, simp]: "fails P (Inr x)"
  by (simp add: fails_def)

lemma fails_Inl [simp]: "fails P (Inl e) \<longleftrightarrow> P e"
  by (simp add: fails_def)

lemma fails_andThen [intro]: "fails P r \<Longrightarrow> (\<And>x. r = Inr x \<Longrightarrow> fails P (f x)) \<Longrightarrow> fails P (andThen r f)"
  by (cases r) simp_all

lemma fails_collect: "(\<And>x. fails P (f x)) \<Longrightarrow> fails P (collect f xs)"
  by (induction xs) (auto intro!: fails_andThen)

lemma fails_merge [intro!, simp]: "fails P (merge_settings tgt over)"
  by (rule merge_settings_ok [of tgt over]) simp

text \<open>An error whose text is one line without control bytes.\<close>

definition plain_error :: "goenv \<Rightarrow> mesh_texts \<Rightarrow> goerr \<Rightarrow> bool" where
  "plain_error env mt e \<longleftrightarrow> one_line (error_text env mt e)"

lemma plain_bad_config:
  "one_line k \<Longrightarrow> \<forall>n. rule \<noteq> MustExceedBackoff n \<Longrightarrow> plain_error env mt (ErrBadConfig k v rule)"
  by (cases rule) (simp_all add: plain_error_def)

lemma plain_nil_handler: "one_line what \<Longrightarrow> plain_error env mt (ErrNilHandler what subj)"
  by (simp add: plain_error_def)

lemma plain_check_runes: "check_runes env cs = Some p \<Longrightarrow> one_line (segment_text env p)"
proof (induction cs)
  case (Cons c cs)
  have "one_line (quote_rune env 0x2A)" "one_line (quote_rune env 0x3E)" by (simp_all add: one_line_quote_rune)
  with Cons show ?case by (auto split: if_splits)
qed simp

lemma plain_check_segments: "check_segments env i segs = Some p \<Longrightarrow> one_line (target_text env p)"
proof (induction segs arbitrary: i)
  case (Cons seg segs)
  show ?case
  proof (cases "check_segment env seg")
    case (Some q)
    then have "one_line (segment_text env q)"
      using plain_check_runes by (auto simp: check_segment_def split: if_splits)
    with Some Cons.prems show ?thesis by auto
  next
    case None
    with Cons show ?thesis by auto
  qed
qed simp

lemma plain_subject: "plain_mesh_texts mt \<Longrightarrow> fails (plain_error env mt) (subject env t)"
  using plain_check_segments [of env 0 "T_Segments t"]
  by (auto simp: subject_def plain_error_def plain_mesh_texts_def split: option.split)

lemma plain_kind:
  "plain_mesh_texts mt \<Longrightarrow> one_line use \<Longrightarrow> fails (plain_error env mt) (check_kind t want use)"
  by (cases want; cases "T_Kind t") (simp_all add: check_kind_def plain_error_def plain_mesh_texts_def)

lemma plain_duration: "one_line k \<Longrightarrow> fails (plain_error env mt) (duration_setting md k d)"
  by (auto simp: duration_setting_def plain_bad_config split: option.split)

lemma plain_positive_int: "one_line k \<Longrightarrow> fails (plain_error env mt) (positive_int_setting md k d)"
  by (auto simp: positive_int_setting_def plain_bad_config split: option.split)

lemma plain_connections: "fails (plain_error env mt) (connections c)"
  by (simp add: connections_def plain_error_def)

lemmas plain_readers = plain_duration plain_positive_int plain_connections

lemma plain_pull: "fails (plain_error env mt) (read_pull_settings md p)"
  unfolding read_pull_settings_def by (intro fails_andThen fails_Inr plain_readers one_line_key)

lemma one_line_format_int64 [simp]: "one_line (format_int64 w)"
  by (simp add: format_int64_def)

lemma plain_backoff: "fails (plain_error env mt) (parse_backoff v ps)"
proof (cases "parse_backoff v ps")
  case (Inl e)
  with parse_backoff_error [OF Inl] show ?thesis by (simp add: plain_bad_config)
qed simp

lemma plain_ack: "fails (plain_error env mt) (ack_settings md n)"
  unfolding ack_settings_def backoff_setting_def
  by (intro fails_andThen fails_Inr plain_readers one_line_key) (simp add: plain_backoff split: option.split)

lemma plain_consumer_config: "fails (plain_error env mt) (consumer_config_of md subj grp create ack n)"
  unfolding consumer_config_of_def
proof (intro fails_andThen plain_readers plain_ack one_line_key)
  show "fails (plain_error env mt) (deliver_policy_setting md)"
    by (simp add: deliver_policy_setting_def plain_bad_config split: option.split)
next
  fix deliver inactive and a :: ack_setting_values
  show "fails (plain_error env mt) (if create \<and> ack \<noteq> ackNone \<and> sint (a_maxDeliver a) \<le> int (length (a_backoff a))
      then Inl (ErrBadConfig (key MaxDeliverKey) (format_int64 (a_maxDeliver a)) (MustExceedBackoff (length (a_backoff a))))
      else
        let cfg = \<lparr>Durable = grp, FilterSubject = subj, DeliverPolicy = deliver,
          AckPolicy = AckNonePolicy, InactiveThreshold = inactive,
          AckWait = 0, MaxDeliver = 0, BackOff = [], MaxAckPending = 0\<rparr>
        in Inr (if ack \<noteq> ackNone
            then cfg\<lparr>AckPolicy := AckExplicitPolicy, AckWait := a_wait a,
              MaxDeliver := a_maxDeliver a, BackOff := a_backoff a,
              MaxAckPending := a_maxAckPending a\<rparr>
            else cfg))"
    by (simp add: plain_error_def Let_def)
qed

lemma plain_jetstream: "fails (plain_error env mt) (parse_jetstream md subj grp n p)"
proof -
  have "fails (plain_error env mt) (create_consumer_setting md grp)"
    by (simp add: create_consumer_setting_def plain_bad_config split: option.split)
  moreover have "fails (plain_error env mt) (ack_policy_setting md)"
    by (simp add: ack_policy_setting_def plain_bad_config split: option.split)
  ultimately show ?thesis
    unfolding parse_jetstream_def Let_def
    by (auto intro!: fails_andThen plain_readers plain_consumer_config plain_pull)
qed

lemma plain_prepare:
  "plain_mesh_texts mt \<Longrightarrow> one_line use \<Longrightarrow> fails (plain_error env mt) (prepare_subscription env t want use g d)"
  unfolding prepare_subscription_def by (intro fails_andThen fails_Inr plain_kind plain_subject)

lemma plain_new_endpoint: "plain_mesh_texts mt \<Longrightarrow> fails (plain_error env mt) (new_endpoint env s e)"
  unfolding new_endpoint_def Let_def
  by (intro fails_andThen plain_prepare)
    (auto simp: plain_bad_config plain_nil_handler intro!: fails_andThen)

lemma plain_new_subscriber: "plain_mesh_texts mt \<Longrightarrow> fails (plain_error env mt) (new_subscriber env s b)"
  unfolding new_subscriber_def Let_def
  by (intro fails_andThen plain_prepare)
    (auto simp: plain_nil_handler intro!: fails_andThen plain_jetstream)

lemma plain_new_runtime:
  "plain_mesh_texts mt \<Longrightarrow> fails (plain_error env mt) (new_runtime env cl cfg endpoints subscribers opts)"
  unfolding new_runtime_def parse_runtime_settings_def Let_def
  by (auto simp: plain_error_def [of _ _ ErrNilClient] plain_error_def [of _ _ ErrNoDeploymentGroup] plain_mesh_texts_def
      intro!: fails_andThen plain_readers plain_pull fails_collect plain_new_endpoint plain_new_subscriber)

lemma plain_request_checks: "plain_mesh_texts mt \<Longrightarrow> fails (plain_error env mt) (request_checks env c msg opts)"
  unfolding request_checks_def Let_def
  by (intro fails_andThen plain_kind plain_subject fails_merge)
    (auto simp: plain_bad_config intro!: fails_andThen plain_readers)

lemma plain_publish_checks: "plain_mesh_texts mt \<Longrightarrow> fails (plain_error env mt) (publish_checks env c msg opts)"
  unfolding publish_checks_def Let_def
  by (intro fails_andThen plain_kind plain_subject fails_merge) (auto intro!: fails_andThen plain_readers)

section \<open>Properties\<close>

text \<open>C36: whatever bytes a target, a setting or a subject holds, the error with which \<open>Request\<close>,
  \<open>Publish\<close> or \<open>New\<close> refuses it reads as one line with no control byte in it: it cannot
  break or forge a line of a log.\<close>

theorem refusals_read_as_one_line:
  assumes "plain_mesh_texts mt"
    and "request_checks env c msg opts = Inl e \<or> publish_checks env c msg opts = Inl e \<or>
      new_runtime env cl cfg endpoints subscribers fns = Inl e"
  shows "one_line (error_text env mt e)"
  using assms(2) failsD [OF plain_request_checks [OF assms(1)]] failsD [OF plain_publish_checks [OF assms(1)]]
    failsD [OF plain_new_runtime [OF assms(1)]]
  by (auto simp: plain_error_def)

definition sample_mesh_texts :: mesh_texts where
  "sample_mesh_texts = \<lparr>mt_kind = (\<lambda>k. case k of KindRoute \<Rightarrow> ''route'' | KindTopic \<Rightarrow> ''topic''),
     mt_kind_mismatch = ''mesh: kind mismatch'', mt_invalid_target = ''mesh: invalid target'',
     mt_no_deployment_group = ''mesh: no deployment group''\<rparr>"

lemma sample_mesh_texts_plain: "plain_mesh_texts sample_mesh_texts"
  by (simp add: plain_mesh_texts_def sample_mesh_texts_def)

definition broken_request :: message where
  "broken_request = \<lparr>M_Target = \<lparr>T_Segments = [''demo'', [CHR ''a'', CHR 0x0A, CHR 0xFF]], T_Kind = KindRoute,
     T_Metadata = None\<rparr>, M_Metadata = None, M_Payload = []\<rparr>"

theorem refusals_read_as_one_line_witness:
  "\<exists>e. request_checks sample_env sample_client broken_request None = Inl e \<and>
    error_text sample_env sample_mesh_texts e = ''mesh: invalid target: segment 1 '' @
      [dquote, CHR ''a'', backslash, CHR ''n'', backslash] @ ''xff'' @ [dquote] @ '': contains whitespace'' \<and>
    one_line (error_text sample_env sample_mesh_texts e)"
proof -
  let ?seg = "[CHR ''a'', CHR 0x0A, CHR 0xFF]"
  have e: "request_checks sample_env sample_client broken_request None = Inl (ErrInvalidTarget (BadSegment 1 ?seg HasWhitespace))"
    by (simp add: request_checks_def broken_request_def check_kind_def subject_def check_segment_def sample_env_def
        go_text_eval)
  have "error_text sample_env sample_mesh_texts (ErrInvalidTarget (BadSegment 1 ?seg HasWhitespace)) =
      ''mesh: invalid target: segment 1 '' @ [dquote, CHR ''a'', backslash, CHR ''n'', backslash] @ ''xff'' @ [dquote]
        @ '': contains whitespace''"
    by (simp add: sample_mesh_texts_def go_quote_def escape_rune_def escape_letter_def sample_env_def hex_digit_def
        hex_2 char_of_def bit_0 go_text_eval)
  with e refusals_read_as_one_line [OF sample_mesh_texts_plain, of sample_env sample_client broken_request None] show ?thesis
    by (intro exI [of _ "ErrInvalidTarget (BadSegment 1 ?seg HasWhitespace)"]) blast
qed

end
