(* ===== verification/Consumers.thy ===== *)
theory Consumers
  imports Subscriptions
begin

text \<open>
  \<open>consumers.go\<close>: opening a JetStream subscriber's consumer, the ack deadline and
  the last delivery, the rate limit of late-start warnings, and the watch over
  consumers that went missing.
\<close>

section \<open>State\<close>

definition lateStartLogInterval :: duration where
  "lateStartLogInterval = Minute"

definition missingLogInterval :: duration where
  "missingLogInterval = 5 * Second"

text \<open>The zero \<open>time.Time\<close>, in the year 1.\<close>

definition zero_time :: gotime where
  "zero_time = -62135596800000000000"

text \<open>
  \<open>jsConsumer\<close>.  \<open>jc_index\<close> is the position of its subscription in the runtime,
  which stands for the pointer \<open>sub\<close>; \<open>jc_gen\<close> is the number of the \<open>Start\<close> whose
  handler context it keeps; \<open>jc_cc\<close> is its consume context.
\<close>

record js_consumer =
  jc_index :: nat
  jc_sub :: subscription
  jc_settings :: js_settings
  jc_gen :: nat
  jc_consumer :: consumer
  jc_cc :: nat
  jc_acks :: bool
  jc_ackWait :: duration
  jc_backoff :: "duration list"
  jc_maxDeliver :: int64
  jc_lastLateLog :: gotime
  jc_lateSkipped :: int64

section \<open>Opening a consumer\<close>

definition lookup_consumer ::
    "'w nats \<Rightarrow> gocontext \<Rightarrow> string \<Rightarrow> js_settings \<Rightarrow> 'w world \<Rightarrow> (exterr + consumer) \<times> 'w world" where
  "lookup_consumer N ctx subj s W =
    (if ordered s then
       let oc = \<lparr>oc_FilterSubjects = [subj], oc_DeliverPolicy = DeliverPolicy (js_config s),
                 oc_InactiveThreshold = InactiveThreshold (js_config s)\<rparr>
       in perform (\<lambda>_. COrderedConsumer (js_stream s) oc) (n_ordered_consumer N ctx (js_stream s) oc) W
     else if \<not> js_create s then
       perform (\<lambda>_. CConsumer (js_stream s) (js_group s)) (n_consumer N ctx (js_stream s) (js_group s)) W
     else if js_group s = [] then
       perform (\<lambda>_. CCreateConsumer (js_stream s) (js_config s))
         (n_create_consumer N ctx (js_stream s) (js_config s)) W
     else
       perform (\<lambda>_. CCreateOrUpdateConsumer (js_stream s) (js_config s))
         (n_create_or_update_consumer N ctx (js_stream s) (js_config s)) W)"

text \<open>The server's settings for the consumer decide its acks and its deadlines.\<close>

definition consumer_state ::
    "nat \<Rightarrow> subscription \<Rightarrow> js_settings \<Rightarrow> nat \<Rightarrow> consumer \<Rightarrow> js_consumer" where
  "consumer_state ix b s g cons =
    (let c = \<lparr>jc_index = ix, jc_sub = b, jc_settings = s, jc_gen = g, jc_consumer = cons, jc_cc = 0,
              jc_acks = False, jc_ackWait = 0, jc_backoff = [], jc_maxDeliver = 0,
              jc_lastLateLog = zero_time, jc_lateSkipped = 0\<rparr>;
         cfg = cn_config cons
     in if ordered s then c
        else c\<lparr>jc_acks := (js_ack s \<noteq> ackNone \<and> AckPolicy cfg \<noteq> AckNonePolicy),
               jc_ackWait := AckWait cfg, jc_backoff := BackOff cfg, jc_maxDeliver := MaxDeliver cfg\<rparr>)"

definition open_consumer ::
    "'w nats \<Rightarrow> gocontext \<Rightarrow> nat \<Rightarrow> subscription \<Rightarrow> js_settings \<Rightarrow> nat \<Rightarrow> 'w world
      \<Rightarrow> js_consumer res \<times> 'w world" where
  "open_consumer N ctx ix b s g W =
    (case perform (\<lambda>_. CStream (js_stream s)) (n_stream N ctx (js_stream s)) W of
       (Some e, W1) \<Rightarrow> (Inl (External e), W1)
     | (None, W1) \<Rightarrow>
         (case lookup_consumer N ctx (sb_subject b) s W1 of
            (Inl e, W2) \<Rightarrow> (Inl (External e), W2)
          | (Inr cons, W2) \<Rightarrow> (Inr (consumer_state ix b s g cons), W2)))"

text \<open>\<open>consume\<close> starts pulling from the consumer with the subscriber's pull settings.\<close>

definition consume ::
    "'w nats \<Rightarrow> gocontext \<Rightarrow> nat \<Rightarrow> subscription \<Rightarrow> js_settings \<Rightarrow> nat \<Rightarrow> 'w world
      \<Rightarrow> js_consumer res \<times> 'w world" where
  "consume N ctx ix b s g W =
    (case open_consumer N ctx ix b s g W of
       (Inl e, W1) \<Rightarrow> (Inl e, W1)
     | (Inr c, W1) \<Rightarrow>
         (case perform (CConsume (jc_consumer c) (consume_opts (js_pull s)))
            (n_consume N (jc_consumer c) (consume_opts (js_pull s))) W1 of
            (Inl e, W2) \<Rightarrow> (Inl (External e), W2)
          | (Inr cc, W2) \<Rightarrow> (Inr (c\<lparr>jc_cc := cc\<rparr>), W2)))"

section \<open>Deadlines and deliveries\<close>

text \<open>
  \<open>lateStartLogged\<close>: a late start is logged when the last one logged is an
  interval ago, with the number of those that were not.
\<close>

definition late_start_logged :: "js_consumer \<Rightarrow> gotime \<Rightarrow> int64 option \<times> js_consumer" where
  "late_start_logged c now =
    (if sint (time_sub now (jc_lastLateLog c)) < sint lateStartLogInterval
     then (None, c\<lparr>jc_lateSkipped := jc_lateSkipped c + 1\<rparr>)
     else (Some (jc_lateSkipped c), c\<lparr>jc_lastLateLog := now, jc_lateSkipped := 0\<rparr>))"

text \<open>The index of a delivery's backoff entry; \<open>int(delivered)-1\<close> wraps as in Go.\<close>

definition backoff_index :: "nat \<Rightarrow> uint64 \<Rightarrow> nat" where
  "backoff_index n delivered = nat (min (max (sint (delivered - 1)) 0) (int n - 1))"

definition ack_deadline :: "js_consumer \<Rightarrow> gotime \<Rightarrow> uint64 \<Rightarrow> gotime" where
  "ack_deadline c arrival delivered =
    (let n = length (jc_backoff c);
         wait = (if 0 < n then jc_backoff c ! backoff_index n delivered else jc_ackWait c)
     in time_add arrival wait)"

text \<open>\<open>uint64(c.maxDeliver)\<close> is the same word, read as unsigned.\<close>

definition last_delivery :: "js_consumer \<Rightarrow> uint64 \<Rightarrow> bool" where
  "last_delivery c delivered \<longleftrightarrow> jc_maxDeliver c \<le> delivered"

section \<open>Missing consumers\<close>

definition missing_record :: "js_consumer \<Rightarrow> exterr option \<Rightarrow> log_record" where
  "missing_record c e =
    log_error ''nats: consumer missing''
      ([(''subject'', AString (sb_subject (jc_sub c))), (''stream'', AString (js_stream (jc_settings c))),
        (''consumer'', AString (cn_name (jc_consumer c)))]
       @ (case e of None \<Rightarrow> [] | Some x \<Rightarrow> [(''error'', AError (ext_text x))]))"

text \<open>
  \<open>r.missing\<close> is a map with consumer pointers as keys: a consumer is the one of its
  subscription in its \<open>Start\<close>, whatever its rate limit's counters hold.
\<close>

definition consumer_id :: "js_consumer \<Rightarrow> nat \<times> nat" where
  "consumer_id c = (jc_gen c, jc_index c)"

definition store_missing :: "js_consumer \<Rightarrow> js_consumer list \<Rightarrow> js_consumer list" where
  "store_missing c missing =
    (if consumer_id c \<in> set (map consumer_id missing) then missing else missing @ [c])"

definition delete_missing :: "js_consumer \<Rightarrow> js_consumer list \<Rightarrow> js_consumer list" where
  "delete_missing c missing = filter (\<lambda>x. consumer_id x \<noteq> consumer_id c) missing"

definition consume_error ::
    "js_consumer \<Rightarrow> exterr \<Rightarrow> js_consumer list \<Rightarrow> js_consumer list \<times> log_record" where
  "consume_error c e missing =
    (if \<not> ordered (jc_settings c) \<and> (errors_is e SConsumerDeleted \<or> errors_is e SNoResponders)
     then (store_missing c missing, missing_record c (Some e))
     else (missing, log_warn ''nats: consume error''
       [(''subject'', AString (sb_subject (jc_sub c))), (''stream'', AString (js_stream (jc_settings c))),
        (''error'', AError (ext_text e))]))"

definition check_missing ::
    "'w nats \<Rightarrow> client \<Rightarrow> gocontext \<Rightarrow> js_consumer \<Rightarrow> js_consumer list \<Rightarrow> 'w world
      \<Rightarrow> (js_consumer list \<times> log_record list) \<times> 'w world" where
  "check_missing N cl ctx c missing W =
    (if n_cc_closed N (jc_cc c) (w_ext W) then ((missing, [missing_record c None]), W)
     else if cl_closed cl \<or> \<not> n_is_connected N (w_ext W) then ((missing, []), W)
     else
       let (now, W1) = clock N W; lctx = with_timeout ctx now missingLogInterval in
       (case perform (\<lambda>_. CConsumerInfo (jc_consumer c)) (n_consumer_info N lctx (jc_consumer c)) W1 of
          (None, W2) \<Rightarrow> ((delete_missing c missing, []), W2)
        | (Some e, W2) \<Rightarrow>
            if errors_is e SConsumerNotFound then ((missing, [missing_record c None]), W2)
            else ((missing, [missing_record c (Some e)]), W2)))"

text \<open>One tick of \<open>watchMissing\<close>: every consumer that is missing is checked.\<close>

fun watch_tick ::
    "'w nats \<Rightarrow> client \<Rightarrow> gocontext \<Rightarrow> js_consumer list \<Rightarrow> js_consumer list \<Rightarrow> 'w world
      \<Rightarrow> (js_consumer list \<times> log_record list) \<times> 'w world" where
  "watch_tick N cl ctx [] missing W = ((missing, []), W)"
| "watch_tick N cl ctx (c # cs) missing W =
    (let ((m1, l1), W1) = check_missing N cl ctx c missing W;
         ((m2, l2), W2) = watch_tick N cl ctx cs m1 W1
     in ((m2, l1 @ l2), W2))"

section \<open>Lemmas\<close>

lemma backoff_index_less: "0 < n \<Longrightarrow> backoff_index n delivered < n"
  by (simp add: backoff_index_def)

text \<open>The call that looks up or creates a consumer.\<close>

definition lookup_call :: "string \<Rightarrow> js_settings \<Rightarrow> call" where
  "lookup_call subj s =
    (if js_group s = [] \<and> js_ack s = ackNone then
       COrderedConsumer (js_stream s) \<lparr>oc_FilterSubjects = [subj], oc_DeliverPolicy = DeliverPolicy (js_config s),
         oc_InactiveThreshold = InactiveThreshold (js_config s)\<rparr>
     else if \<not> js_create s then CConsumer (js_stream s) (js_group s)
     else if js_group s = [] then CCreateConsumer (js_stream s) (js_config s)
     else CCreateOrUpdateConsumer (js_stream s) (js_config s))"

lemma lookup_consumer_log:
  "w_log (snd (lookup_consumer N ctx subj s W)) = w_log W @ [lookup_call subj s]"
  by (simp add: lookup_consumer_def lookup_call_def ordered_def ordered_consumer_def Let_def)

lemma sint_pred:
  fixes w :: uint64
  assumes "1 \<le> unat w" "unat w < 2 ^ 63"
  shows "sint (w - 1) = int (unat w) - 1"
proof -
  have "w = of_nat (unat w)" by simp
  then have "w - 1 = of_nat (unat w - 1)" using assms(1) by (simp add: of_nat_diff)
  moreover have "sint (of_nat (unat w - 1) :: int64) = int (unat w - 1)"
    using assms(2) by (intro sint_of_nat_id) simp
  ultimately show ?thesis using assms(1) by (simp add: of_nat_diff)
qed

text \<open>The late starts of a consumer at the given times, in order: those logged, with the
  number each reports, and the consumer after them.\<close>

fun late_starts :: "js_consumer \<Rightarrow> gotime list \<Rightarrow> (gotime \<times> int64) list \<times> js_consumer" where
  "late_starts c [] = ([], c)"
| "late_starts c (t # ts) =
    (let (r, c1) = late_start_logged c t; (ls, c2) = late_starts c1 ts
     in (case r of None \<Rightarrow> ls | Some k \<Rightarrow> (t, k) # ls, c2))"

lemma late_starts_first:
  "fst (late_starts c ts) = (t, k) # ls \<Longrightarrow> 60 * 10 ^ 9 \<le> t - jc_lastLateLog c"
proof (induction ts arbitrary: c)
  case (Cons u us)
  show ?case
  proof (cases "sint (time_sub u (jc_lastLateLog c)) < sint lateStartLogInterval")
    case True
    with Cons.prems have "fst (late_starts (c\<lparr>jc_lateSkipped := jc_lateSkipped c + 1\<rparr>) us) = (t, k) # ls"
      by (simp add: late_start_logged_def Let_def case_prod_beta)
    from Cons.IH [OF this] show ?thesis by simp
  next
    case False
    with Cons.prems have "t = u" by (simp add: late_start_logged_def Let_def case_prod_beta)
    with False show ?thesis by (simp add: sint_time_sub lateStartLogInterval_def)
  qed
qed simp

text \<open>Opening a consumer asks for its stream first and then makes exactly one call: an
  ordered consumer over the subject for a group of none without acks, a lookup when the
  runtime must not create, a fresh consumer for a group of none, and otherwise the
  group's own, created or updated.\<close>

lemma open_consumer_log:
  "w_log (snd (open_consumer N ctx ix b s g W)) = w_log W @ CStream (js_stream s) #
    (if fst (n_stream N ctx (js_stream s) (w_ext W)) = None then [lookup_call (sb_subject b) s] else [])"
proof (cases "perform (\<lambda>_. CStream (js_stream s)) (n_stream N ctx (js_stream s)) W")
  case (Pair r W1)
  have log: "w_log W1 = w_log W @ [CStream (js_stream s)]" using Pair perform_log by fastforce
  have r: "r = fst (n_stream N ctx (js_stream s) (w_ext W))"
    using Pair by (auto simp: perform_def split: prod.splits)
  show ?thesis
  proof (cases r)
    case None
    have "w_log (snd (open_consumer N ctx ix b s g W)) = w_log (snd (lookup_consumer N ctx (sb_subject b) s W1))"
      using Pair None by (simp add: open_consumer_def split: prod.splits sum.splits)
    with log r None show ?thesis by (simp add: lookup_consumer_log)
  next
    case (Some e)
    with Pair log r [symmetric] show ?thesis by (simp add: open_consumer_def)
  qed
qed

section \<open>Properties\<close>

text \<open>A delivery is due when its arrival plus its wait is reached: the server's ack wait
  without a backoff, else the backoff's entry for that delivery, counted from one, with
  the last entry for all deliveries past its end.\<close>

theorem ack_deadline_of_delivery:
  assumes "1 \<le> unat delivered" and "unat delivered < 2 ^ 63" and "length (jc_backoff c) < 2 ^ 63"
  shows "ack_deadline c arrival delivered = arrival +
    (if jc_backoff c = [] then sint (jc_ackWait c)
     else if unat delivered \<le> length (jc_backoff c) then sint (jc_backoff c ! (unat delivered - 1))
     else sint (last (jc_backoff c)))"
proof (cases "jc_backoff c = []")
  case True
  then show ?thesis by (simp add: ack_deadline_def time_add_def)
next
  case False
  let ?n = "length (jc_backoff c)"
  have "backoff_index ?n delivered = min (unat delivered - 1) (?n - 1)"
  proof -
    have "nat (min (max (int u - 1) 0) (int n - 1)) = min (u - 1) (n - 1)" if "1 \<le> u" "1 \<le> n" for u n :: nat
      using that by (auto simp: min_def max_def)
    from this [OF assms(1), of ?n] False show ?thesis
      unfolding backoff_index_def sint_pred [OF assms(1,2)] by (simp only: Suc_le_eq One_nat_def length_greater_0_conv)
  qed
  with False show ?thesis
    by (auto simp: ack_deadline_def time_add_def min_def last_conv_nth Let_def)
qed

text \<open>A limit of deliveries is reached by the delivery of that number and all after it,
  and a limit of minus one, which means none, by no delivery that a server can count to.\<close>

theorem last_delivery_limit:
  "last_delivery c delivered \<longleftrightarrow>
    (if jc_maxDeliver c = -1 then unat delivered = 2 ^ 64 - 1
     else if 0 \<le> sint (jc_maxDeliver c) then sint (jc_maxDeliver c) \<le> int (unat delivered)
     else unat (jc_maxDeliver c) \<le> unat delivered)"
proof -
  have m1: "unat (- 1 :: uint64) = 2 ^ 64 - 1" by (simp add: unsigned_minus_1_eq_mask mask_eq_exp_minus_1)
  have lt: "unat delivered < 2 ^ 64" using unsigned_less [of delivered] by simp
  have cmp: "sint w \<le> int (unat delivered) \<longleftrightarrow> unat w \<le> unat delivered" if "0 \<le> sint w" for w :: int64
  proof -
    have "uint w = sint w"
      using that sint64_bounds(2) [of w] by (simp add: uint_sint take_bit_int_eq_self)
    then have "sint w = int (unat w)" by (simp add: uint_nat [symmetric])
    then show ?thesis by linarith
  qed
  have le: "last_delivery c delivered \<longleftrightarrow> unat (jc_maxDeliver c) \<le> unat delivered"
    by (simp add: last_delivery_def word_le_nat_alt)
  show ?thesis
  proof (cases "jc_maxDeliver c = -1")
    case True
    with le m1 lt show ?thesis by simp linarith
  next
    case False
    with le cmp show ?thesis by (simp only: if_False split: if_split) blast
  qed
qed

text \<open>C31: the late-start warnings of one consumer are at least a minute apart, and none is
  lost: the warnings logged, the numbers they report as skipped and the number still to
  be reported add up to all late starts.\<close>

theorem late_starts_rate_limited:
  "successively (\<lambda>(t, _) (u, _). 60 * 10 ^ 9 \<le> u - t) (fst (late_starts c ts)) \<and>
   of_nat (length ts) + jc_lateSkipped c =
     of_nat (length (fst (late_starts c ts))) + sum_list (map snd (fst (late_starts c ts)))
     + jc_lateSkipped (snd (late_starts c ts))"
proof (induction ts arbitrary: c)
  case (Cons t ts)
  show ?case
  proof (cases "sint (time_sub t (jc_lastLateLog c)) < sint lateStartLogInterval")
    case True
    with Cons.IH [of "c\<lparr>jc_lateSkipped := jc_lateSkipped c + 1\<rparr>"] show ?thesis
      by (simp add: late_start_logged_def Let_def case_prod_beta algebra_simps)
  next
    case False
    let ?c = "c\<lparr>jc_lastLateLog := t, jc_lateSkipped := 0\<rparr>"
    have "fst (late_starts ?c ts) = [] \<or> 60 * 10 ^ 9 \<le> fst (hd (fst (late_starts ?c ts))) - t"
      using late_starts_first [of ?c ts] by (cases "fst (late_starts ?c ts)") auto
    with False Cons.IH [of ?c] show ?thesis
      by (cases "fst (late_starts ?c ts)")
        (auto simp: late_start_logged_def Let_def case_prod_beta algebra_simps)
  qed
qed simp

lemma check_missing_others:
  "consumer_id d \<noteq> consumer_id c \<Longrightarrow> d \<in> set missing \<Longrightarrow>
    d \<in> set (fst (fst (check_missing N cl ctx c missing W)))"
  by (auto simp: check_missing_def Let_def case_prod_beta delete_missing_def split: option.splits prod.splits)

lemma check_missing_closed:
  "n_cc_closed N (jc_cc c) (w_ext W) \<Longrightarrow>
    check_missing N cl ctx c missing W = ((missing, [missing_record c None]), W)"
  by (simp add: check_missing_def)

lemma watch_tick_closed:
  assumes "\<And>w. n_cc_closed N (jc_cc c) w" and "\<And>d. d \<in> set cs \<Longrightarrow> consumer_id d = consumer_id c \<Longrightarrow> d = c"
    and "c \<in> set missing"
  shows "c \<in> set (fst (fst (watch_tick N cl ctx cs missing W))) \<and>
    (c \<in> set cs \<longrightarrow> missing_record c None \<in> set (snd (fst (watch_tick N cl ctx cs missing W))))"
  using assms(2,3)
proof (induction cs arbitrary: missing W)
  case (Cons d cs)
  obtain m1 l1 W1 where d: "check_missing N cl ctx d missing W = ((m1, l1), W1)" by (metis prod.exhaust)
  have "c \<in> set m1 \<and> (d = c \<longrightarrow> missing_record c None \<in> set l1)"
  proof (cases "d = c")
    case True
    with d assms(1) Cons.prems(2) show ?thesis by (auto simp: check_missing_closed)
  next
    case False
    then have "consumer_id c \<noteq> consumer_id d" using Cons.prems(1) by fastforce
    with d check_missing_others [OF this Cons.prems(2), of N cl ctx W] False show ?thesis by simp
  qed
  with d Cons.IH [of m1 W1] Cons.prems(1) show ?case by (auto simp: Let_def case_prod_beta)
qed simp

definition sample_js_sub :: subscription where
  "sample_js_sub = sample_subscriber_sub\<lparr>sb_js := Some sample_js_settings\<rparr>"

definition sample_js_consumer :: js_consumer where
  "sample_js_consumer = (consumer_state 0 sample_js_sub sample_js_settings 1
     (sample_consumer ''orders'' (js_config sample_js_settings)))"

lemma sample_js_consumer_fields:
  "jc_acks sample_js_consumer" "jc_backoff sample_js_consumer = [Second, 5000000000]"
  "jc_maxDeliver sample_js_consumer = 3" "jc_sub sample_js_consumer = sample_js_sub"
  "jc_settings sample_js_consumer = sample_js_settings"
  by (simp_all add: sample_js_consumer_def consumer_state_def Let_def ordered_def ordered_consumer_def
      sample_js_settings_def sample_consumer_def)

theorem ack_deadline_of_delivery_witness:
  "ack_deadline sample_js_consumer 0 1 = 1000000000 \<and> ack_deadline sample_js_consumer 0 7 = 5000000000"
  using ack_deadline_of_delivery [of 1 sample_js_consumer 0] ack_deadline_of_delivery [of 7 sample_js_consumer 0]
  by (simp add: sample_js_consumer_fields)

end
