(* ===== verification/Serve.thy ===== *)
theory Serve
  imports Consumers
begin

text \<open>
  \<open>runtime_serve.go\<close>: calling the application's handlers, recovering from their
  panics, and serving a core message with its reply.
\<close>

section \<open>Calling handlers\<close>

text \<open>\<open>callEndpoint\<close> and \<open>callSubscriber\<close>: a panic becomes an error.\<close>

definition call_endpoint ::
    "endpoint_handler \<Rightarrow> gocontext \<Rightarrow> message \<Rightarrow> message \<times> string option" where
  "call_endpoint h ctx m =
    (case h ctx m of
       Returns out err \<Rightarrow> (out, err)
     | Panics p \<Rightarrow> (zero_message, Some (''panic: '' @ p)))"

definition call_subscriber ::
    "subscriber_handler \<Rightarrow> gocontext \<Rightarrow> message \<Rightarrow> string option \<times> string gomap" where
  "call_subscriber h ctx m =
    (case h ctx m of
       (Returns _ err, md) \<Rightarrow> (err, md)
     | (Panics p, md) \<Rightarrow> (Some (''panic: '' @ p), md))"

section \<open>Core messages\<close>

text \<open>
  The deadline of a request: its arrival plus the timeout it carries, when that
  parses as a non-negative integer.  The product of \<open>time.Duration(ms)\<close> and a
  millisecond wraps as a 64-bit integer.
\<close>

definition request_deadline :: "string gomap \<Rightarrow> gotime \<Rightarrow> gotime option" where
  "request_deadline md arrival =
    (case mget md TimeoutKey of
       None \<Rightarrow> None
     | Some v \<Rightarrow>
         (case parse_int64 v of
            None \<Rightarrow> None
          | Some ms \<Rightarrow> if 0 \<le> sint ms then Some (time_add arrival (ms * Millisecond)) else None))"

definition endpoint_context ::
    "goenv \<Rightarrow> 'w nats \<Rightarrow> gocontext \<Rightarrow> message \<Rightarrow> gotime \<Rightarrow> 'w world
      \<Rightarrow> (gocontext \<times> message) res \<times> 'w world" where
  "endpoint_context env N hctx m arrival W =
    (case request_deadline (M_Metadata m) arrival of
       None \<Rightarrow> (Inr (hctx, m), W)
     | Some d \<Rightarrow>
         (case mput DeadlineKey (rfc3339_nano (env_zone env) d) (M_Metadata m) of
            Inl e \<Rightarrow> (Inl e, W)
          | Inr md \<Rightarrow>
              let (now, W1) = clock N W
              in (Inr (with_deadline hctx now d, m\<lparr>M_Metadata := md\<rparr>), W1)))"

definition make_reply :: "goenv \<Rightarrow> string \<Rightarrow> message \<times> string option \<Rightarrow> natsmsg res" where
  "make_reply env to out =
    (case out of
       (_, Some text) \<Rightarrow>
         andThen (env_header_set env HandlerErrorKey text mmake) (\<lambda>h.
           Inr \<lparr>N_Subject = to, N_Reply = [], N_Header = h, N_Data = []\<rparr>)
     | (msg, None) \<Rightarrow>
         andThen (to_header env (M_Metadata msg)) (\<lambda>h.
           Inr \<lparr>N_Subject = to, N_Reply = [], N_Header = h, N_Data = M_Payload msg\<rparr>))"

definition failure_record :: "string \<Rightarrow> subscription \<Rightarrow> string \<Rightarrow> log_record" where
  "failure_record msg b e =
    log_error msg [(''subject'', AString (sb_subject b)), (''error'', AError e)]"

definition serve_endpoint ::
    "goenv \<Rightarrow> 'w nats \<Rightarrow> gocontext \<Rightarrow> subscription \<Rightarrow> endpoint_handler \<Rightarrow> natsmsg \<Rightarrow> message \<Rightarrow> gotime
      \<Rightarrow> 'w world \<Rightarrow> log_record list res \<times> 'w world" where
  "serve_endpoint env N hctx b h m msg arrival W =
    (case endpoint_context env N hctx msg arrival W of
       (Inl e, W1) \<Rightarrow> (Inl e, W1)
     | (Inr (ctx, msg'), W1) \<Rightarrow>
         let out = call_endpoint h ctx msg'; W2 = note_call (CHandle ctx msg') W1;
             logs = (case snd out of None \<Rightarrow> []
               | Some e \<Rightarrow> [failure_record ''nats: endpoint handler failed'' b e])
         in if N_Reply m = [] then (Inr logs, W2)
            else
              (case make_reply env (N_Reply m) out of
                 Inl e \<Rightarrow> (Inl e, W2)
               | Inr reply \<Rightarrow>
                   (case perform (\<lambda>_. CPublish reply) (n_publish N reply) W2 of
                      (None, W3) \<Rightarrow> (Inr logs, W3)
                    | (Some e, W3) \<Rightarrow>
                        (Inr (logs @ [failure_record ''nats: reply failed'' b (ext_text e)]), W3))))"

text \<open>
  \<open>serve\<close>.  A subscription has one of the two handlers; an endpoint whose handler
  were nil would panic in the call, which \<open>callEndpoint\<close> recovers from.
\<close>

definition nil_handler :: endpoint_handler where
  "nil_handler ctx m =
    Panics ''runtime error: invalid memory address or nil pointer dereference''"

definition serve ::
    "goenv \<Rightarrow> 'w nats \<Rightarrow> gocontext \<Rightarrow> subscription \<Rightarrow> natsmsg \<Rightarrow> gotime \<Rightarrow> 'w world
      \<Rightarrow> log_record list res \<times> 'w world" where
  "serve env N hctx b m arrival W =
    (case incoming_metadata (N_Header m) of
       Inl e \<Rightarrow> (Inl e, W)
     | Inr md \<Rightarrow>
         let msg = \<lparr>M_Target = sb_target b, M_Metadata = md, M_Payload = N_Data m\<rparr>
         in case sb_subscriber b of
              Some h \<Rightarrow>
                (Inr (case fst (call_subscriber h hctx msg) of
                    None \<Rightarrow> []
                  | Some e \<Rightarrow> [failure_record ''nats: subscriber handler failed'' b e]),
                 note_call (CHandle hctx msg) W)
            | None \<Rightarrow>
                serve_endpoint env N hctx b
                  (case sb_endpoint b of Some h \<Rightarrow> h | None \<Rightarrow> nil_handler) m msg arrival W)"

section \<open>Lemmas\<close>

text \<open>The result of a handler as the caller will see it: a panic is an error.\<close>

definition endpoint_result :: "message outcome \<Rightarrow> message \<times> string option" where
  "endpoint_result out = (case out of
      Returns m err \<Rightarrow> (m, err)
    | Panics p \<Rightarrow> (zero_message, Some (''panic: '' @ p)))"

lemma call_endpoint_result: "call_endpoint h ctx m = endpoint_result (h ctx m)"
  by (simp add: call_endpoint_def endpoint_result_def)

lemma endpoint_context_ok:
  assumes "M_Metadata m \<noteq> None"
  obtains ctx m' W1 where "endpoint_context env N hctx m arrival W = (Inr (ctx, m'), W1)"
    "w_log W1 = w_log W" "M_Target m' = M_Target m" "M_Payload m' = M_Payload m"
    "mget (M_Metadata m') = (case request_deadline (M_Metadata m) arrival of
        None \<Rightarrow> mget (M_Metadata m)
      | Some d \<Rightarrow> (mget (M_Metadata m))(DeadlineKey \<mapsto> rfc3339_nano (env_zone env) d))"
    "c_deadline ctx = (case request_deadline (M_Metadata m) arrival of
        None \<Rightarrow> c_deadline hctx
      | Some d \<Rightarrow> Some (case c_deadline hctx of None \<Rightarrow> d | Some c \<Rightarrow> min c d))"
proof (cases "request_deadline (M_Metadata m) arrival")
  case None
  with that [of hctx m W] show ?thesis by (simp add: endpoint_context_def)
next
  case (Some d)
  obtain md where md: "mput DeadlineKey (rfc3339_nano (env_zone env) d) (M_Metadata m) = Inr md"
    using mput_ok [OF assms] by blast
  obtain now W1 where k: "clock N W = (now, W1)" by force
  show ?thesis
  proof (rule that)
    show "endpoint_context env N hctx m arrival W = (Inr (with_deadline hctx now d, m\<lparr>M_Metadata := md\<rparr>), W1)"
      by (simp add: endpoint_context_def Some md k)
    show "w_log W1 = w_log W" using k by (rule clock_log)
  qed (simp_all add: Some with_deadline_def with_deadline_cause_deadline mget_mput [OF md] fun_eq_iff)
qed

lemma make_reply_ok:
  assumes "header_set_law env"
  obtains reply where "make_reply env to out = Inr reply" "N_Subject reply = to" "N_Reply reply = []"
    "N_Data reply = (case snd out of None \<Rightarrow> M_Payload (fst out) | Some _ \<Rightarrow> [])"
    "mget (N_Header reply) = (case snd out of
        None \<Rightarrow> (\<lambda>k. map_option (\<lambda>v. [v]) (mget (M_Metadata (fst out)) k))
      | Some e \<Rightarrow> [HandlerErrorKey \<mapsto> [e]])"
proof (cases "snd out")
  case None
  obtain h where h: "to_header env (M_Metadata (fst out)) = Inr h"
    "\<And>k. mget h k = map_option (\<lambda>v. [v]) (mget (M_Metadata (fst out)) k)"
    using to_header_ok [OF assms] by blast
  show ?thesis
  proof (rule that [of "\<lparr>N_Subject = to, N_Reply = [], N_Header = h, N_Data = M_Payload (fst out)\<rparr>"])
    show "make_reply env to out = Inr \<lparr>N_Subject = to, N_Reply = [], N_Header = h, N_Data = M_Payload (fst out)\<rparr>"
      using None h(1) by (cases out) (simp add: make_reply_def)
  qed (simp_all add: None fun_eq_iff h(2))
next
  case (Some e)
  obtain h where h: "mput HandlerErrorKey [e] (mmake :: header) = Inr h"
    using mput_ok [OF mmake_not_nil, of HandlerErrorKey "[e]"] by (elim exE conjE) (rule that)
  have "mget h = [HandlerErrorKey \<mapsto> [e]]" using mget_mput [OF h] by (simp add: fun_eq_iff)
  with that [of "\<lparr>N_Subject = to, N_Reply = [], N_Header = h, N_Data = []\<rparr>"] Some h show ?thesis
    by (cases out) (simp add: make_reply_def header_set [OF assms])
qed

lemma parse_int64_msec:
  "parse_int64 v = Some ms \<Longrightarrow> mget md TimeoutKey = Some v \<Longrightarrow> 0 \<le> sint ms \<Longrightarrow>
    request_deadline md arrival = Some (time_add arrival (ms * Millisecond))"
  by (simp add: request_deadline_def)

lemma sint_mult_msec:
  assumes "0 \<le> sint (ms :: int64)" "sint ms \<le> 9223372036854"
  shows "sint (ms * Millisecond) = sint ms * 1000000"
proof -
  have "ms * Millisecond = word_of_int (sint ms * 1000000)" by simp
  also have "sint \<dots> = sint ms * 1000000" using assms by (intro sint_word_of_int_id) simp_all
  finally show ?thesis .
qed

lemma clock_same_log: "w_log (snd (clock N W)) = w_log W"
  by simp

section \<open>Properties\<close>

text \<open>C20: a request is answered exactly once, after its handler, on its reply subject: with
  the handler's payload and metadata when it succeeds, and with no payload and the text
  of its error or panic under \<open>Mesh-Handler-Error\<close> otherwise.\<close>

theorem endpoint_replies_once:
  assumes "header_set_law env" and "sb_subscriber b = None" and "sb_endpoint b = Some h"
    and "N_Reply m \<noteq> []"
  shows "\<exists>logs ctx msg reply. fst (serve env N hctx b m arrival W) = Inr logs \<and>
    w_log (snd (serve env N hctx b m arrival W)) = w_log W @ [CHandle ctx msg, CPublish reply] \<and>
    M_Target msg = sb_target b \<and> M_Payload msg = N_Data m \<and> N_Subject reply = N_Reply m \<and>
    (case endpoint_result (h ctx msg) of
       (out, None) \<Rightarrow> N_Data reply = M_Payload out \<and>
         mget (N_Header reply) = (\<lambda>k. map_option (\<lambda>v. [v]) (mget (M_Metadata out) k))
     | (_, Some e) \<Rightarrow> N_Data reply = [] \<and> mget (N_Header reply) = [HandlerErrorKey \<mapsto> [e]])"
proof -
  obtain md where md: "incoming_metadata (N_Header m) = Inr md" "md \<noteq> None"
    using incoming_metadata_ok [of "N_Header m"] by metis
  let ?m = "\<lparr>M_Target = sb_target b, M_Metadata = md, M_Payload = N_Data m\<rparr>"
  obtain ctx msg W1 where e: "endpoint_context env N hctx ?m arrival W = (Inr (ctx, msg), W1)"
    "w_log W1 = w_log W" "M_Target msg = sb_target b" "M_Payload msg = N_Data m"
    using endpoint_context_ok [of ?m env N hctx arrival W] md(2) by (metis message.select_convs)
  obtain reply where r: "make_reply env (N_Reply m) (call_endpoint h ctx msg) = Inr reply"
    "N_Subject reply = N_Reply m"
    "N_Data reply = (case snd (call_endpoint h ctx msg) of None \<Rightarrow> M_Payload (fst (call_endpoint h ctx msg)) | Some _ \<Rightarrow> [])"
    "mget (N_Header reply) = (case snd (call_endpoint h ctx msg) of
        None \<Rightarrow> (\<lambda>k. map_option (\<lambda>v. [v]) (mget (M_Metadata (fst (call_endpoint h ctx msg))) k))
      | Some e \<Rightarrow> [HandlerErrorKey \<mapsto> [e]])"
    using make_reply_ok [OF assms(1)] by metis
  obtain x W3 where p: "perform (\<lambda>_. CPublish reply) (n_publish N reply) (note_call (CHandle ctx msg) W1) = (x, W3)"
    by force
  then have log: "w_log W3 = w_log W @ [CHandle ctx msg, CPublish reply]"
    using perform_log [OF p] e(2) by simp
  have s: "serve env N hctx b m arrival W =
      (case x of
         None \<Rightarrow> (Inr (case snd (call_endpoint h ctx msg) of None \<Rightarrow> []
            | Some e \<Rightarrow> [failure_record ''nats: endpoint handler failed'' b e]), W3)
       | Some y \<Rightarrow> (Inr ((case snd (call_endpoint h ctx msg) of None \<Rightarrow> []
            | Some e \<Rightarrow> [failure_record ''nats: endpoint handler failed'' b e])
            @ [failure_record ''nats: reply failed'' b (ext_text y)]), W3))"
    using assms(2-4) md(1) e(1) r(1) p by (simp add: serve_def serve_endpoint_def Let_def)
  have c: "case endpoint_result (h ctx msg) of
       (out, None) \<Rightarrow> N_Data reply = M_Payload out \<and>
         mget (N_Header reply) = (\<lambda>k. map_option (\<lambda>v. [v]) (mget (M_Metadata out) k))
     | (_, Some e) \<Rightarrow> N_Data reply = [] \<and> mget (N_Header reply) = [HandlerErrorKey \<mapsto> [e]]"
    using r(3,4) unfolding call_endpoint_result
    by (cases "endpoint_result (h ctx msg)"; cases "snd (endpoint_result (h ctx msg))") auto
  show ?thesis
    using s log e(3,4) r(2) c
    by (cases x) (intro exI conjI; auto)+
qed

definition sample_call :: natsmsg where
  "sample_call = \<lparr>N_Subject = ''demo.echo'', N_Reply = ''_INBOX.1'',
     N_Header = mlit [(TimeoutKey, [''1500''])], N_Data = ''hi''\<rparr>"

theorem endpoint_replies_once_witness:
  "\<exists>logs ctx msg reply.
    fst (serve sample_env sample_nats ctx_background sample_endpoint_sub sample_call 0 (init_world 0)) = Inr logs \<and>
    w_log (snd (serve sample_env sample_nats ctx_background sample_endpoint_sub sample_call 0 (init_world 0)))
      = [CHandle ctx msg, CPublish reply] \<and>
    M_Payload msg = ''hi'' \<and> N_Subject reply = ''_INBOX.1'' \<and> N_Data reply = M_Payload msg"
proof -
  have sub: "sb_subscriber sample_endpoint_sub = None" and ep: "sb_endpoint sample_endpoint_sub = Some echo"
    and rep: "N_Reply sample_call \<noteq> []"
    by (simp_all add: sample_endpoint_sub_def sample_call_def)
  obtain logs ctx msg reply where
    "fst (serve sample_env sample_nats ctx_background sample_endpoint_sub sample_call 0 (init_world 0)) = Inr logs"
    "w_log (snd (serve sample_env sample_nats ctx_background sample_endpoint_sub sample_call 0 (init_world 0)))
      = w_log (init_world (0 :: nat)) @ [CHandle ctx msg, CPublish reply]"
    "M_Payload msg = N_Data sample_call" "N_Subject reply = N_Reply sample_call"
    "case endpoint_result (echo ctx msg) of
       (out, None) \<Rightarrow> N_Data reply = M_Payload out \<and>
         mget (N_Header reply) = (\<lambda>k. map_option (\<lambda>v. [v]) (mget (M_Metadata out) k))
     | (_, Some e) \<Rightarrow> N_Data reply = [] \<and> mget (N_Header reply) = [HandlerErrorKey \<mapsto> [e]]"
    using endpoint_replies_once [OF sample_env_laws(1) sub ep rep, where N = sample_nats and hctx = ctx_background
        and arrival = 0 and W = "init_world (0 :: nat)"]
    by (elim exE conjE) (rule that)
  then show ?thesis
    by (intro exI [of _ logs] exI [of _ ctx] exI [of _ msg] exI [of _ reply])
      (simp add: init_world_def sample_call_def echo_def endpoint_result_def)
qed

text \<open>A request that carries a timeout of at most 9223372036854 milliseconds has its
  arrival plus that timeout as deadline: its handler's context ends then or with the
  runtime's, whichever is sooner, and the handler reads the deadline in its metadata.\<close>

theorem request_deadline_given:
  assumes "mget (M_Metadata m) TimeoutKey = Some v" and "parse_int64 v = Some ms"
    and "0 \<le> sint ms" and "sint ms \<le> 9223372036854"
  shows "\<exists>ctx m' W1. endpoint_context env N hctx m arrival W = (Inr (ctx, m'), W1) \<and>
    c_deadline ctx = Some (case c_deadline hctx of
        None \<Rightarrow> arrival + sint ms * 10 ^ 6 | Some c \<Rightarrow> min c (arrival + sint ms * 10 ^ 6)) \<and>
    mget (M_Metadata m') =
      (mget (M_Metadata m))(DeadlineKey \<mapsto> rfc3339_nano (env_zone env) (arrival + sint ms * 10 ^ 6))"
proof -
  have d: "request_deadline (M_Metadata m) arrival = Some (arrival + sint ms * 10 ^ 6)"
    using parse_int64_msec [OF assms(2,1,3)] sint_mult_msec [OF assms(3,4)] by (simp add: time_add_def)
  have "M_Metadata m \<noteq> None" using assms(1) by (cases "M_Metadata m") simp_all
  from endpoint_context_ok [OF this, of env N hctx arrival W] obtain ctx m' W1 where
    "endpoint_context env N hctx m arrival W = (Inr (ctx, m'), W1)"
    "mget (M_Metadata m') = (case request_deadline (M_Metadata m) arrival of
        None \<Rightarrow> mget (M_Metadata m)
      | Some d \<Rightarrow> (mget (M_Metadata m))(DeadlineKey \<mapsto> rfc3339_nano (env_zone env) d))"
    "c_deadline ctx = (case request_deadline (M_Metadata m) arrival of
        None \<Rightarrow> c_deadline hctx
      | Some d \<Rightarrow> Some (case c_deadline hctx of None \<Rightarrow> d | Some c \<Rightarrow> min c d))"
    by blast
  then show ?thesis unfolding d option.case by blast
qed

theorem request_deadline_given_witness:
  "\<exists>ctx m' W1. endpoint_context sample_env sample_nats ctx_background
      \<lparr>M_Target = sample_route, M_Metadata = mlit [(TimeoutKey, ''1500'')], M_Payload = []\<rparr> 7 (init_world 0)
      = (Inr (ctx, m'), W1) \<and> c_deadline ctx = Some 1500000007"
proof -
  have p: "parse_int64 ''1500'' = Some 1500" by (simp add: go_text_eval)
  from request_deadline_given [OF _ p, of "\<lparr>M_Target = sample_route, M_Metadata = mlit [(TimeoutKey, ''1500'')],
      M_Payload = []\<rparr>" sample_env sample_nats ctx_background 7 "init_world 0"]
  show ?thesis by (auto simp: ctx_background_def)
qed

text \<open>
  Beyond that bound the multiplication of the timeout wraps: a request that carries one
  millisecond more has a deadline centuries before its own arrival, whenever it arrives.
\<close>

theorem request_deadline_overflow:
  "request_deadline (mlit [(TimeoutKey, ''9223372036855'')]) arrival = Some (arrival - 9223372036854551616)"
proof -
  have p: "parse_int64 ''9223372036855'' = Some 9223372036855" by (simp add: go_text_eval)
  have "sint (9223372036855 * Millisecond :: int64) = - 9223372036854551616" by simp
  with parse_int64_msec [OF p, of "mlit [(TimeoutKey, ''9223372036855'')]"] show ?thesis
    by (simp add: time_add_def)
qed

lemma sint_msec_wraps: "sint (ms * Millisecond) = (sint ms * 10 ^ 6 + 2 ^ 63) mod 2 ^ 64 - 2 ^ 63" for ms :: int64
  by (simp add: sint_word_ariths signed_take_bit_eq_take_bit_shift take_bit_eq_mod)

text \<open>C35: the deadline of a request with a timeout of \<open>ms\<close> milliseconds is \<open>ms\<close> milliseconds after
  its arrival exactly when \<open>ms\<close> is at most 9223372036854: a larger one wraps, to a deadline less than
  293 years away, which is before the arrival for every \<open>ms\<close> up to 18446744073709.\<close>

theorem request_deadline_exact:
  assumes "mget md TimeoutKey = Some v" and "parse_int64 v = Some ms" and "0 \<le> sint ms"
  shows "\<exists>d. request_deadline md arrival = Some d \<and>
    (d = arrival + sint ms * 10 ^ 6 \<longleftrightarrow> sint ms \<le> 9223372036854) \<and>
    (d - arrival) mod 2 ^ 64 = sint ms * 10 ^ 6 mod 2 ^ 64 \<and> - (2 ^ 63) \<le> d - arrival \<and> d - arrival < 2 ^ 63 \<and>
    (9223372036854 < sint ms \<and> sint ms \<le> 18446744073709 \<longrightarrow> d < arrival)"
proof -
  let ?x = "sint ms * 1000000"
  let ?w = "(?x + 9223372036854775808) mod 18446744073709551616 - 9223372036854775808"
  have "request_deadline md arrival = Some (arrival + ?w)"
    using parse_int64_msec [OF assms(2,1,3)] by (simp add: time_add_def sint_msec_wraps)
  moreover have "?w mod 18446744073709551616 = ?x mod 18446744073709551616" by (simp add: mod_diff_left_eq)
  moreover have range: "- 9223372036854775808 \<le> ?w" "?w < 9223372036854775808" by simp_all
  moreover have "?w = ?x \<longleftrightarrow> sint ms \<le> 9223372036854"
  proof
    assume "?w = ?x"
    with range(2) show "sint ms \<le> 9223372036854" by linarith
  next
    assume "sint ms \<le> 9223372036854"
    with assms(3) show "?w = ?x" by (subst mod_pos_pos_trivial) linarith+
  qed
  moreover have "?w < 0" if "9223372036854 < sint ms" "sint ms \<le> 18446744073709"
  proof -
    have "?x + 9223372036854775808 = ?x - 9223372036854775808 + 1 * 18446744073709551616" by simp
    also have "\<dots> mod 18446744073709551616 = (?x - 9223372036854775808) mod 18446744073709551616"
      by (rule mod_mult_self1)
    also have "\<dots> = ?x - 9223372036854775808" using that by (intro mod_pos_pos_trivial) linarith+
    finally show ?thesis using that by linarith
  qed
  ultimately show ?thesis by (intro exI [of _ "arrival + ?w"]) simp
qed

theorem request_deadline_exact_witness:
  "\<exists>d. request_deadline (mlit [(TimeoutKey, ''9223372036855'')]) 0 = Some d \<and> d < 0"
proof -
  have p: "parse_int64 ''9223372036855'' = Some 9223372036855" by (simp add: go_text_eval)
  from request_deadline_exact [OF _ p, of "mlit [(TimeoutKey, ''9223372036855'')]" 0] show ?thesis by auto
qed

end
