(* ===== verification/Deliveries.thy ===== *)
theory Deliveries
  imports Serve
begin

text \<open>
  The deliveries of \<open>jetstream.go\<close> and \<open>runtime_jetstream.go\<close>: a JetStream message
  from its arrival, through its handler, to its ack or nak.
\<close>

section \<open>The state of a delivery\<close>

datatype deliveryState = deliveryWaiting | deliveryRunning | deliverySettled

text \<open>The order of Go's \<open>iota\<close> constants.\<close>

instantiation deliveryState :: linorder
begin

fun deliveryState_rank :: "deliveryState \<Rightarrow> nat" where
  "deliveryState_rank deliveryWaiting = 0"
| "deliveryState_rank deliveryRunning = 1"
| "deliveryState_rank deliverySettled = 2"

definition less_eq_deliveryState :: "deliveryState \<Rightarrow> deliveryState \<Rightarrow> bool" where
  "less_eq_deliveryState a b \<longleftrightarrow> deliveryState_rank a \<le> deliveryState_rank b"

definition less_deliveryState :: "deliveryState \<Rightarrow> deliveryState \<Rightarrow> bool" where
  "less_deliveryState a b \<longleftrightarrow> deliveryState_rank a < deliveryState_rank b"

instance
proof
  fix a b :: deliveryState
  assume "a \<le> b" "b \<le> a"
  then show "a = b" by (cases a; cases b) (simp_all add: less_eq_deliveryState_def)
qed (auto simp: less_eq_deliveryState_def less_deliveryState_def)

end

definition begin_delivery :: "deliveryState \<Rightarrow> bool \<times> deliveryState" where
  "begin_delivery d =
    (if d = deliverySettled then (False, d) else (True, deliveryRunning))"

text \<open>\<open>settle\<close> returns \<open>running\<close> and \<open>ok\<close>.\<close>

definition settle :: "deliveryState \<Rightarrow> (bool \<times> bool) \<times> deliveryState" where
  "settle d =
    (if d = deliverySettled then ((False, False), d)
     else ((d = deliveryRunning, True), deliverySettled))"

section \<open>Delivery metadata\<close>

datatype delivery_key =
    StreamMetadataKey | ConsumerMetadataKey | StreamSequenceMetadataKey
  | ConsumerSequenceMetadataKey | NumPendingMetadataKey | TimestampMetadataKey

fun metadata_key :: "delivery_key \<Rightarrow> string" where
  "metadata_key StreamMetadataKey = ''Mesh-Nats-Stream''"
| "metadata_key ConsumerMetadataKey = ''Mesh-Nats-Consumer''"
| "metadata_key StreamSequenceMetadataKey = ''Mesh-Nats-Stream-Sequence''"
| "metadata_key ConsumerSequenceMetadataKey = ''Mesh-Nats-Consumer-Sequence''"
| "metadata_key NumPendingMetadataKey = ''Mesh-Nats-Num-Pending''"
| "metadata_key TimestampMetadataKey = ''Mesh-Nats-Timestamp''"

definition delivery_metadata :: "goenv \<Rightarrow> string gomap \<Rightarrow> msg_metadata \<Rightarrow> string gomap res" where
  "delivery_metadata env md meta =
    copy_entries
      [(DeliveryAttemptKey, format_uint64 (mm_NumDelivered meta)),
       (metadata_key StreamMetadataKey, mm_Stream meta),
       (metadata_key ConsumerMetadataKey, mm_Consumer meta),
       (metadata_key StreamSequenceMetadataKey, format_uint64 (mm_StreamSeq meta)),
       (metadata_key ConsumerSequenceMetadataKey, format_uint64 (mm_ConsumerSeq meta)),
       (metadata_key NumPendingMetadataKey, format_uint64 (mm_NumPending meta)),
       (metadata_key TimestampMetadataKey, rfc3339_nano (env_zone env) (mm_Timestamp meta))] md"

section \<open>Log records\<close>

definition late_start_record ::
    "js_consumer \<Rightarrow> msg_metadata \<Rightarrow> string \<Rightarrow> duration \<Rightarrow> int64 \<Rightarrow> log_record" where
  "late_start_record c meta message_id late_by skipped =
    log_warn ''nats: handler started after its ack deadline''
      ([(''subject'', AString (sb_subject (jc_sub c))), (''stream'', AString (js_stream (jc_settings c))),
        (''consumer'', AString (mm_Consumer meta)), (''stream_sequence'', AUint (mm_StreamSeq meta)),
        (''delivery_attempt'', AUint (mm_NumDelivered meta))]
       @ (if message_id \<noteq> [] then [(''message_id'', AString message_id)] else [])
       @ [(''late_by'', ADuration late_by), (''skipped'', AInt skipped)])"

text \<open>\<open>logLateStart\<close>, with the consumer's rate limit.\<close>

definition log_late_start ::
    "js_consumer \<Rightarrow> msg_metadata \<Rightarrow> string \<Rightarrow> gotime \<Rightarrow> duration \<Rightarrow> log_record list \<times> js_consumer" where
  "log_late_start c meta message_id now late_by =
    (case late_start_logged c now of
       (None, c') \<Rightarrow> ([], c')
     | (Some skipped, c') \<Rightarrow> ([late_start_record c' meta message_id late_by skipped], c'))"

definition final_failure_record :: "js_consumer \<Rightarrow> msg_metadata \<Rightarrow> string \<Rightarrow> log_record" where
  "final_failure_record c meta message_id =
    log_error ''nats: message will not be delivered again''
      ([(''subject'', AString (sb_subject (jc_sub c))), (''stream'', AString (js_stream (jc_settings c))),
        (''consumer'', AString (mm_Consumer meta)), (''stream_sequence'', AUint (mm_StreamSeq meta)),
        (''delivery_attempt'', AUint (mm_NumDelivered meta)), (''max_deliver'', AInt (jc_maxDeliver c))]
       @ (if message_id \<noteq> [] then [(''message_id'', AString message_id)] else []))"

definition js_failure_record :: "js_consumer \<Rightarrow> exterr + msg_metadata \<Rightarrow> string \<Rightarrow> log_record" where
  "js_failure_record c meta e =
    log_error ''nats: subscriber handler failed''
      ([(''subject'', AString (sb_subject (jc_sub c))), (''stream'', AString (js_stream (jc_settings c)))]
       @ (case meta of Inl _ \<Rightarrow> [] | Inr mm \<Rightarrow> [(''delivery_attempt'', AUint (mm_NumDelivered mm))])
       @ [(''error'', AError e)])"

definition settle_failure_record :: "string \<Rightarrow> js_consumer \<Rightarrow> exterr \<Rightarrow> log_record" where
  "settle_failure_record what c e =
    log_error what
      [(''subject'', AString (sb_subject (jc_sub c))), (''stream'', AString (js_stream (jc_settings c))),
       (''error'', AError (ext_text e))]"

section \<open>Acks and naks\<close>

definition nak :: "'w nats \<Rightarrow> js_consumer \<Rightarrow> jsmsg \<Rightarrow> 'w world \<Rightarrow> exterr option \<times> 'w world" where
  "nak N c m W =
    (if 0 < sint (js_nakDelay (jc_settings c))
     then perform (\<lambda>_. CNakDelay (js_nakDelay (jc_settings c)) (jm_id m))
       (n_nak_delay N (js_nakDelay (jc_settings c)) (jm_id m)) W
     else perform (\<lambda>_. CNak (jm_id m)) (n_nak N (jm_id m)) W)"

text \<open>A double ack waits under its own timeout, on a context of its own.\<close>

definition ack ::
    "'w nats \<Rightarrow> client \<Rightarrow> js_consumer \<Rightarrow> jsmsg \<Rightarrow> 'w world \<Rightarrow> exterr option \<times> 'w world" where
  "ack N cl c m W =
    (if js_ack (jc_settings c) = ackDouble then
       let (now, W1) = clock N W; actx = with_timeout ctx_background now (cl_requestTimeout cl)
       in perform (\<lambda>_. CDoubleAck (jm_id m)) (n_double_ack N actx (jm_id m)) W1
     else perform (\<lambda>_. CAck (jm_id m)) (n_ack N (jm_id m)) W)"

section \<open>Serving\<close>

text \<open>
  What the runtime keeps of the deliveries: \<open>r.pending\<close> and the state of each
  delivery, by the number of its message.
\<close>

record deliveries =
  ds_pending :: "nat list"
  ds_state :: "nat \<Rightarrow> deliveryState"

definition untrack :: "nat \<Rightarrow> deliveries \<Rightarrow> deliveries" where
  "untrack i D = D\<lparr>ds_pending := remove1 i (ds_pending D)\<rparr>"

definition track :: "nat \<Rightarrow> deliveries \<Rightarrow> deliveries" where
  "track i D = D\<lparr>ds_pending := List.insert i (ds_pending D), ds_state := (ds_state D)(i := deliveryWaiting)\<rparr>"

text \<open>
  The context and the metadata a JetStream handler gets: the delivery's details,
  and the ack deadline when the consumer acks.  A late start is logged.
\<close>

definition js_context ::
    "goenv \<Rightarrow> 'w nats \<Rightarrow> gocontext \<Rightarrow> js_consumer \<Rightarrow> jsmsg \<Rightarrow> gotime \<Rightarrow> string gomap \<Rightarrow> 'w world
      \<Rightarrow> (gocontext \<times> string gomap \<times> log_record list \<times> js_consumer) res \<times> 'w world" where
  "js_context env N hctx c m arrival md W =
    (case jm_Metadata m of
       Inl e \<Rightarrow>
         (Inr (hctx, md, [log_warn ''nats: message has no JetStream metadata''
            [(''subject'', AString (sb_subject (jc_sub c))), (''error'', AError (ext_text e))]], c), W)
     | Inr meta \<Rightarrow>
         (case delivery_metadata env md meta of
            Inl e \<Rightarrow> (Inl e, W)
          | Inr md1 \<Rightarrow>
              if \<not> jc_acks c then (Inr (hctx, md1, [], c), W)
              else
                let d = ack_deadline c arrival (mm_NumDelivered meta) in
                (case mput DeadlineKey (rfc3339_nano (env_zone env) d) md1 of
                   Inl e \<Rightarrow> (Inl e, W)
                 | Inr md2 \<Rightarrow>
                     let (t, W1) = clock N W; ctx = with_deadline hctx t d; (now, W2) = clock N W1
                     in if d < now then
                          let (logs, c') = log_late_start c meta (mget0 md2 MessageIDKey) now (time_sub now d)
                          in (Inr (ctx, md2, logs, c'), W2)
                        else (Inr (ctx, md2, [], c), W2))))"

text \<open>The end of \<open>serveJetStream\<close>, once its delivery is settled: nak or ack.\<close>

definition finish_delivery ::
    "'w nats \<Rightarrow> client \<Rightarrow> js_consumer \<Rightarrow> jsmsg \<Rightarrow> string option \<Rightarrow> string gomap \<Rightarrow> 'w world
      \<Rightarrow> log_record list \<times> 'w world" where
  "finish_delivery N cl c m herr md W =
    (case herr of
       Some _ \<Rightarrow>
         let (e, W1) = nak N c m W in
         ((case e of None \<Rightarrow> [] | Some x \<Rightarrow> [settle_failure_record ''nats: nak failed'' c x])
          @ (case jm_Metadata m of
               Inl _ \<Rightarrow> []
             | Inr meta \<Rightarrow>
                 if last_delivery c (mm_NumDelivered meta)
                 then [final_failure_record c meta (mget0 md MessageIDKey)] else []), W1)
     | None \<Rightarrow>
         let (e, W1) = ack N cl c m W in
         (case e of None \<Rightarrow> [] | Some x \<Rightarrow> [settle_failure_record ''nats: ack failed'' c x], W1))"

text \<open>
  \<open>serveJetStream\<close>.  While its handler runs, \<open>Stop\<close> may settle the delivery: the
  deliveries after the handler are those that \<open>during\<close> leaves, which is arbitrary.
\<close>

definition serve_jetstream ::
    "goenv \<Rightarrow> 'w nats \<Rightarrow> client \<Rightarrow> gocontext \<Rightarrow> js_consumer \<Rightarrow> jsmsg \<Rightarrow> gotime
      \<Rightarrow> (deliveries \<Rightarrow> deliveries) \<Rightarrow> deliveries \<Rightarrow> 'w world
      \<Rightarrow> (log_record list \<times> js_consumer \<times> deliveries) res \<times> 'w world" where
  "serve_jetstream env N cl hctx c m arrival during D W =
    (let i = jm_id m; (begun, st) = begin_delivery (ds_state D i);
         D1 = (if jc_acks c then D\<lparr>ds_state := (ds_state D)(i := st)\<rparr> else D)
     in if jc_acks c \<and> \<not> begun then (Inr ([], c, D1), W)
        else case incoming_metadata (jm_Headers m) of
            Inl e \<Rightarrow> (Inl e, W)
          | Inr md \<Rightarrow>
              (case js_context env N hctx c m arrival md W of
                 (Inl e, W1) \<Rightarrow> (Inl e, W1)
               | (Inr (ctx, md', logs, c'), W1) \<Rightarrow>
                   let msg = \<lparr>M_Target = sb_target (jc_sub c), M_Metadata = md', M_Payload = jm_Data m\<rparr>;
                       h = (case sb_subscriber (jc_sub c) of Some h \<Rightarrow> h
                         | None \<Rightarrow> (\<lambda>_ m. (Panics ''runtime error: invalid memory address or nil pointer dereference'', M_Metadata m)));
                       (herr, md'') = call_subscriber h ctx msg;
                       W2 = note_call (CHandle ctx msg) W1;
                       logs1 = logs @ (case herr of None \<Rightarrow> []
                         | Some e \<Rightarrow> [js_failure_record c' (jm_Metadata m) e]);
                       D2 = during D1
                   in if \<not> jc_acks c then (Inr (logs1, c', D2), W2)
                      else
                        let ((_, ok), st2) = settle (ds_state D2 i);
                            D3 = D2\<lparr>ds_state := (ds_state D2)(i := st2)\<rparr>
                        in if \<not> ok then (Inr (logs1, c', D3), W2)
                           else
                             let (logs2, W3) = finish_delivery N cl c' m herr md'' W2
                             in (Inr (logs1 @ logs2, c', untrack i D3), W3)))"

section \<open>Abandoning\<close>

text \<open>\<open>abandon\<close>: settle, untrack, nak, and log, unless it was settled already.\<close>

definition abandon ::
    "'w nats \<Rightarrow> js_consumer \<Rightarrow> jsmsg \<Rightarrow> deliveries \<Rightarrow> 'w world
      \<Rightarrow> (log_record list \<times> deliveries) res \<times> 'w world" where
  "abandon N c m D W =
    (let i = jm_id m; ((running, ok), st) = settle (ds_state D i);
         D1 = D\<lparr>ds_state := (ds_state D)(i := st)\<rparr>
     in if \<not> ok then (Inr ([], D1), W)
        else case incoming_metadata (jm_Headers m) of
            Inl e \<Rightarrow> (Inl e, W)
          | Inr md \<Rightarrow>
              let attrs =
                [(''subject'', AString (sb_subject (jc_sub c))), (''stream'', AString (js_stream (jc_settings c)))]
                @ (case jm_Metadata m of
                     Inl _ \<Rightarrow> []
                   | Inr meta \<Rightarrow> [(''consumer'', AString (mm_Consumer meta)),
                       (''stream_sequence'', AUint (mm_StreamSeq meta))])
                @ (let ident = mget0 md MessageIDKey in
                   if ident \<noteq> [] then [(''message_id'', AString ident)] else [])
                @ [(''handler_running'', ABool running)];
                (e, W1) = nak N c m W
              in (Inr ([log_warn ''nats: nacked a message at the end of the drain''
                   (attrs @ (case e of None \<Rightarrow> [] | Some x \<Rightarrow> [(''error'', AError (ext_text x))]))],
                 untrack i D1), W1))"

text \<open>\<open>abandonPending\<close>: every delivery that is pending now, in some order.\<close>

fun abandon_all ::
    "'w nats \<Rightarrow> (nat \<Rightarrow> js_consumer \<times> jsmsg) \<Rightarrow> nat list \<Rightarrow> deliveries \<Rightarrow> 'w world
      \<Rightarrow> (log_record list \<times> deliveries) res \<times> 'w world" where
  "abandon_all N info [] D W = (Inr ([], D), W)"
| "abandon_all N info (i # is) D W =
    (case abandon N (fst (info i)) (snd (info i)) D W of
       (Inl e, W1) \<Rightarrow> (Inl e, W1)
     | (Inr (l1, D1), W1) \<Rightarrow>
         (case abandon_all N info is D1 W1 of
            (Inl e, W2) \<Rightarrow> (Inl e, W2)
          | (Inr (l2, D2), W2) \<Rightarrow> (Inr (l1 @ l2, D2), W2)))"

definition abandon_pending ::
    "'w nats \<Rightarrow> (nat \<Rightarrow> js_consumer \<times> jsmsg) \<Rightarrow> deliveries \<Rightarrow> 'w world
      \<Rightarrow> (log_record list \<times> deliveries) res \<times> 'w world" where
  "abandon_pending N info D W = abandon_all N info (ds_pending D) D W"

section \<open>Receiving\<close>

text \<open>
  \<open>receive\<close>, the callback of a consumer: a message of an acking consumer is tracked
  before \<open>dispatch\<close>, whose answer is \<open>accepted\<close>; a refused one is abandoned here.  The
  handler goroutine is the call of \<open>serve_jetstream\<close>.  From the tracking on, \<open>Stop\<close> may
  settle the delivery: \<open>before\<close> is what it does while the message waits in \<open>dispatch\<close> and
  for its goroutine, \<open>during\<close> what it does while the handler runs, and both are arbitrary.
\<close>

definition receive ::
    "goenv \<Rightarrow> 'w nats \<Rightarrow> client \<Rightarrow> gocontext \<Rightarrow> js_consumer \<Rightarrow> jsmsg \<Rightarrow> bool
      \<Rightarrow> (deliveries \<Rightarrow> deliveries) \<Rightarrow> (deliveries \<Rightarrow> deliveries) \<Rightarrow> deliveries \<Rightarrow> 'w world
      \<Rightarrow> (log_record list \<times> js_consumer \<times> deliveries) res \<times> 'w world" where
  "receive env N cl hctx c m accepted before during D W =
    (let (arrival, W1) = clock N W; D1 = before (if jc_acks c then track (jm_id m) D else D)
     in if accepted then serve_jetstream env N cl hctx c m arrival during D1 W1
        else if jc_acks c then
          (case abandon N c m D1 W1 of
             (Inl e, W2) \<Rightarrow> (Inl e, W2)
           | (Inr (logs, D2), W2) \<Rightarrow> (Inr (logs, c, D2), W2))
        else (Inr ([], c, D1), W1))"

section \<open>Lemmas\<close>

lemma settle_once: "snd (settle d) = deliverySettled \<and> (snd (fst (settle d)) \<longleftrightarrow> d \<noteq> deliverySettled)"
  by (simp add: settle_def)

lemma settle_begin_forward: "d \<le> snd (begin_delivery d)" "d \<le> snd (settle d)"
  by (cases d; simp add: begin_delivery_def settle_def less_eq_deliveryState_def)+

text \<open>The call that naks a message of a consumer, and the one that acks it.\<close>

definition nak_call :: "js_consumer \<Rightarrow> jsmsg \<Rightarrow> call" where
  "nak_call c m =
    (if 0 < sint (js_nakDelay (jc_settings c)) then CNakDelay (js_nakDelay (jc_settings c)) (jm_id m)
     else CNak (jm_id m))"

definition ack_call :: "js_consumer \<Rightarrow> jsmsg \<Rightarrow> call" where
  "ack_call c m = (if js_ack (jc_settings c) = ackDouble then CDoubleAck (jm_id m) else CAck (jm_id m))"

lemma nak_log: "w_log (snd (nak N c m W)) = w_log W @ [nak_call c m]"
  by (simp add: nak_def nak_call_def)

lemma ack_log: "w_log (snd (ack N cl c m W)) = w_log W @ [ack_call c m]"
  by (simp add: ack_def ack_call_def Let_def case_prod_beta)

lemma finish_delivery_log:
  "w_log (snd (finish_delivery N cl c m herr md W)) =
    w_log W @ [if herr = None then ack_call c m else nak_call c m]"
  by (cases herr) (simp_all add: finish_delivery_def Let_def case_prod_beta nak_log ack_log)

lemma late_start_logged_keeps:
  "late_start_logged c now = (r, c') \<Longrightarrow> jc_settings c' = jc_settings c \<and> jc_sub c' = jc_sub c \<and> jc_acks c' = jc_acks c"
  by (auto simp: late_start_logged_def split: if_splits)

lemma delivery_metadata_ok:
  assumes "md \<noteq> None"
  obtains md' where "delivery_metadata env md meta = Inr md'" "md' \<noteq> None"
    "mget md' = (mget md)(DeliveryAttemptKey \<mapsto> format_uint64 (mm_NumDelivered meta),
       metadata_key StreamMetadataKey \<mapsto> mm_Stream meta, metadata_key ConsumerMetadataKey \<mapsto> mm_Consumer meta,
       metadata_key StreamSequenceMetadataKey \<mapsto> format_uint64 (mm_StreamSeq meta),
       metadata_key ConsumerSequenceMetadataKey \<mapsto> format_uint64 (mm_ConsumerSeq meta),
       metadata_key NumPendingMetadataKey \<mapsto> format_uint64 (mm_NumPending meta),
       metadata_key TimestampMetadataKey \<mapsto> rfc3339_nano (env_zone env) (mm_Timestamp meta))"
proof -
  obtain md' where md': "delivery_metadata env md meta = Inr md'" "md' \<noteq> None"
    unfolding delivery_metadata_def using copy_entries_ok [OF assms] by blast
  have "mget md' = (mget md)(DeliveryAttemptKey \<mapsto> format_uint64 (mm_NumDelivered meta),
       metadata_key StreamMetadataKey \<mapsto> mm_Stream meta, metadata_key ConsumerMetadataKey \<mapsto> mm_Consumer meta,
       metadata_key StreamSequenceMetadataKey \<mapsto> format_uint64 (mm_StreamSeq meta),
       metadata_key ConsumerSequenceMetadataKey \<mapsto> format_uint64 (mm_ConsumerSeq meta),
       metadata_key NumPendingMetadataKey \<mapsto> format_uint64 (mm_NumPending meta),
       metadata_key TimestampMetadataKey \<mapsto> rfc3339_nano (env_zone env) (mm_Timestamp meta))"
    by (rule ext) (simp add: mget_copy_entries_rev [OF md'(1) [unfolded delivery_metadata_def]])
  with md' that show ?thesis by blast
qed

text \<open>
  What a JetStream handler is given: the message under its subscriber's target, its
  metadata with the details of the delivery, and in both the metadata and the context the
  deadline for its ack, when its consumer acks.
\<close>

definition js_deadline :: "js_consumer \<Rightarrow> jsmsg \<Rightarrow> gotime \<Rightarrow> gotime option" where
  "js_deadline c m arrival =
    (case jm_Metadata m of
       Inl _ \<Rightarrow> None
     | Inr meta \<Rightarrow> if jc_acks c then Some (ack_deadline c arrival (mm_NumDelivered meta)) else None)"

definition js_handler_metadata ::
    "goenv \<Rightarrow> js_consumer \<Rightarrow> jsmsg \<Rightarrow> gotime \<Rightarrow> (string \<Rightarrow> string option) \<Rightarrow> string \<Rightarrow> string option" where
  "js_handler_metadata env c m arrival f =
    (case jm_Metadata m of
       Inl _ \<Rightarrow> f
     | Inr meta \<Rightarrow>
         (let g = f(DeliveryAttemptKey \<mapsto> format_uint64 (mm_NumDelivered meta),
            metadata_key StreamMetadataKey \<mapsto> mm_Stream meta, metadata_key ConsumerMetadataKey \<mapsto> mm_Consumer meta,
            metadata_key StreamSequenceMetadataKey \<mapsto> format_uint64 (mm_StreamSeq meta),
            metadata_key ConsumerSequenceMetadataKey \<mapsto> format_uint64 (mm_ConsumerSeq meta),
            metadata_key NumPendingMetadataKey \<mapsto> format_uint64 (mm_NumPending meta),
            metadata_key TimestampMetadataKey \<mapsto> rfc3339_nano (env_zone env) (mm_Timestamp meta))
          in case js_deadline c m arrival of
               None \<Rightarrow> g | Some d \<Rightarrow> g(DeadlineKey \<mapsto> rfc3339_nano (env_zone env) d)))"

definition handled_with :: "goenv \<Rightarrow> gocontext \<Rightarrow> js_consumer \<Rightarrow> jsmsg \<Rightarrow> gotime \<Rightarrow> gocontext \<Rightarrow> message \<Rightarrow> bool" where
  "handled_with env hctx c m arrival ctx msg \<longleftrightarrow>
    M_Target msg = sb_target (jc_sub c) \<and> M_Payload msg = jm_Data m \<and>
    (\<exists>md. incoming_metadata (jm_Headers m) = Inr md \<and>
      mget (M_Metadata msg) = js_handler_metadata env c m arrival (mget md)) \<and>
    c_deadline ctx = (case js_deadline c m arrival of
        None \<Rightarrow> c_deadline hctx | Some d \<Rightarrow> Some (case c_deadline hctx of None \<Rightarrow> d | Some x \<Rightarrow> min x d))"

lemma with_deadline_deadline:
  "c_deadline (with_deadline hctx t d) = Some (case c_deadline hctx of None \<Rightarrow> d | Some x \<Rightarrow> min x d)"
  by (simp add: with_deadline_def with_deadline_cause_deadline)

lemma js_context_ok:
  assumes "md \<noteq> None"
  obtains ctx md' logs c' W1 where
    "js_context env N hctx c m arrival md W = (Inr (ctx, md', logs, c'), W1)" "w_log W1 = w_log W"
    "jc_settings c' = jc_settings c" "jc_sub c' = jc_sub c"
    "mget md' = js_handler_metadata env c m arrival (mget md)"
    "c_deadline ctx = (case js_deadline c m arrival of
        None \<Rightarrow> c_deadline hctx | Some d \<Rightarrow> Some (case c_deadline hctx of None \<Rightarrow> d | Some x \<Rightarrow> min x d))"
proof (cases "jm_Metadata m")
  case (Inl e)
  then show ?thesis
    by (intro that) (simp_all add: js_context_def js_handler_metadata_def js_deadline_def)
next
  case (Inr meta)
  obtain md1 where md1: "delivery_metadata env md meta = Inr md1" "md1 \<noteq> None"
    and g1: "mget md1 = (mget md)(DeliveryAttemptKey \<mapsto> format_uint64 (mm_NumDelivered meta),
       metadata_key StreamMetadataKey \<mapsto> mm_Stream meta, metadata_key ConsumerMetadataKey \<mapsto> mm_Consumer meta,
       metadata_key StreamSequenceMetadataKey \<mapsto> format_uint64 (mm_StreamSeq meta),
       metadata_key ConsumerSequenceMetadataKey \<mapsto> format_uint64 (mm_ConsumerSeq meta),
       metadata_key NumPendingMetadataKey \<mapsto> format_uint64 (mm_NumPending meta),
       metadata_key TimestampMetadataKey \<mapsto> rfc3339_nano (env_zone env) (mm_Timestamp meta))"
    using delivery_metadata_ok [OF assms] .
  show ?thesis
  proof (cases "jc_acks c")
    case False
    with Inr md1 g1 show ?thesis
      by (intro that) (simp_all add: js_context_def js_handler_metadata_def js_deadline_def Let_def)
  next
    case True
    let ?d = "ack_deadline c arrival (mm_NumDelivered meta)"
    obtain md2 where md2: "mput DeadlineKey (rfc3339_nano (env_zone env) ?d) md1 = Inr md2"
      using mput_ok [OF md1(2), of DeadlineKey "rfc3339_nano (env_zone env) ?d"] by (elim exE conjE) (rule that)
    have dl: "js_deadline c m arrival = Some ?d" using True Inr by (simp add: js_deadline_def)
    have g2: "mget md2 = js_handler_metadata env c m arrival (mget md)"
    proof -
      have "mget md2 = (mget md1)(DeadlineKey \<mapsto> rfc3339_nano (env_zone env) ?d)"
        by (rule ext) (simp add: mget_mput [OF md2])
      then show ?thesis by (simp only: js_handler_metadata_def dl Inr g1 Let_def sum.case option.case)
    qed
    obtain t W1 where k1: "clock N W = (t, W1)" by force
    obtain now W2 where k2: "clock N W1 = (now, W2)" by force
    have log: "w_log W2 = w_log W" using clock_log [OF k1] clock_log [OF k2] by simp
    obtain logs c' where l: "log_late_start c meta (mget0 md2 MessageIDKey) now (time_sub now ?d) = (logs, c')"
      by force
    obtain r c'' where ls: "late_start_logged c now = (r, c'')" by force
    then have "c' = c''" using l by (auto simp: log_late_start_def split: option.splits)
    then have keep: "jc_settings c' = jc_settings c" "jc_sub c' = jc_sub c"
      using late_start_logged_keeps [OF ls] by simp_all
    show ?thesis
    proof (cases "?d < now")
      case True
      with Inr md1 \<open>jc_acks c\<close> md2 k1 k2 l log keep show ?thesis
        by (intro that [of "with_deadline hctx t ?d" md2 logs c' W2, OF _ _ _ _ g2])
          (simp_all add: js_context_def Let_def dl with_deadline_deadline)
    next
      case False
      with Inr md1 \<open>jc_acks c\<close> md2 k1 k2 log show ?thesis
        by (intro that [of "with_deadline hctx t ?d" md2 "[]" c W2, OF _ _ _ _ g2])
          (simp_all add: js_context_def Let_def dl with_deadline_deadline)
    qed
  qed
qed

text \<open>What the subscriber's handler returns, with a panic as an error.\<close>

definition subscriber_result :: "js_consumer \<Rightarrow> gocontext \<Rightarrow> message \<Rightarrow> string option" where
  "subscriber_result c ctx msg =
    (case sb_subscriber (jc_sub c) of
       None \<Rightarrow> Some ''panic: runtime error: invalid memory address or nil pointer dereference''
     | Some h \<Rightarrow> fst (call_subscriber h ctx msg))"

text \<open>The delivery's state once \<open>begin\<close> has marked it.\<close>

definition begun_state :: "js_consumer \<Rightarrow> jsmsg \<Rightarrow> deliveries \<Rightarrow> deliveries" where
  "begun_state c m D =
    (if jc_acks c then D\<lparr>ds_state := (ds_state D)(jm_id m := deliveryRunning)\<rparr> else D)"

section \<open>Properties\<close>

text \<open>
  A JetStream message is handled unless \<open>Stop\<close> had settled it before its handler
  began; then, when its consumer acks and \<open>Stop\<close> has not settled it meanwhile, it is
  settled, forgotten and answered once; in every other case nothing is sent for it.
\<close>

lemma serve_jetstream_effect:
  "\<exists>ctx msg logs c' D'.
    fst (serve_jetstream env N cl hctx c m arrival during D W) = Inr (logs, c', D') \<and>
    handled_with env hctx c m arrival ctx msg \<and>
    w_log (snd (serve_jetstream env N cl hctx c m arrival during D W)) = w_log W @
      (if jc_acks c \<and> ds_state D (jm_id m) = deliverySettled then []
       else CHandle ctx msg #
         (if jc_acks c \<and> ds_state (during (begun_state c m D)) (jm_id m) \<noteq> deliverySettled
          then [if subscriber_result c ctx msg = None then ack_call c m else nak_call c m] else [])) \<and>
    (jc_acks c \<longrightarrow> ds_state D' (jm_id m) = deliverySettled) \<and>
    (jc_acks c \<and> ds_state D (jm_id m) \<noteq> deliverySettled
       \<and> ds_state (during (begun_state c m D)) (jm_id m) \<noteq> deliverySettled \<longrightarrow>
     ds_pending D' = remove1 (jm_id m) (ds_pending (during (begun_state c m D))))"
proof -
  obtain md where md: "incoming_metadata (jm_Headers m) = Inr md" "md \<noteq> None"
    using incoming_metadata_ok [of "jm_Headers m"] by metis
  obtain ctx md' logs c' W1 where j: "js_context env N hctx c m arrival md W = (Inr (ctx, md', logs, c'), W1)"
    "w_log W1 = w_log W" and keep: "jc_settings c' = jc_settings c" "jc_sub c' = jc_sub c"
    and given: "mget md' = js_handler_metadata env c m arrival (mget md)"
    "c_deadline ctx = (case js_deadline c m arrival of
        None \<Rightarrow> c_deadline hctx | Some d \<Rightarrow> Some (case c_deadline hctx of None \<Rightarrow> d | Some x \<Rightarrow> min x d))"
    using js_context_ok [OF md(2)] .
  let ?msg = "\<lparr>M_Target = sb_target (jc_sub c), M_Metadata = md', M_Payload = jm_Data m\<rparr>"
  have handled: "handled_with env hctx c m arrival ctx ?msg" using md(1) given by (simp add: handled_with_def)
  show ?thesis
  proof (cases "jc_acks c \<and> ds_state D (jm_id m) = deliverySettled")
    case True
    with handled show ?thesis by (intro exI [of _ ctx] exI [of _ ?msg]) (simp add: serve_jetstream_def begin_delivery_def)
  next
    case False
    let ?i = "jm_id m" and ?D1 = "begun_state c m D" and ?D2 = "during (begun_state c m D)"
    let ?h = "(case sb_subscriber (jc_sub c) of Some h \<Rightarrow> h
        | None \<Rightarrow> (\<lambda>_ m. (Panics ''runtime error: invalid memory address or nil pointer dereference'', M_Metadata m)))"
    obtain herr md'' where call: "call_subscriber ?h ctx ?msg = (herr, md'')" by force
    have res: "subscriber_result c ctx ?msg = herr"
      using call by (cases "sb_subscriber (jc_sub c)") (simp_all add: subscriber_result_def call_subscriber_def)
    let ?W2 = "note_call (CHandle ctx ?msg) W1"
    let ?logs1 = "logs @ (case herr of None \<Rightarrow> [] | Some e \<Rightarrow> [js_failure_record c' (jm_Metadata m) e])"
    have eq: "serve_jetstream env N cl hctx c m arrival during D W =
        (if \<not> jc_acks c then (Inr (?logs1, c', ?D2), ?W2)
         else if ds_state ?D2 ?i = deliverySettled
           then (Inr (?logs1, c', ?D2\<lparr>ds_state := (ds_state ?D2)(?i := deliverySettled)\<rparr>), ?W2)
           else (case finish_delivery N cl c' m herr md'' ?W2 of (logs2, W3) \<Rightarrow>
             (Inr (?logs1 @ logs2, c', untrack ?i (?D2\<lparr>ds_state := (ds_state ?D2)(?i := deliverySettled)\<rparr>)), W3)))"
    proof (cases "jc_acks c")
      case True
      with False have bd: "begin_delivery (ds_state D ?i) = (True, deliveryRunning)" by (simp add: begin_delivery_def)
      have D1: "D\<lparr>ds_state := (ds_state D)(?i := deliveryRunning)\<rparr> = ?D1" using True by (simp add: begun_state_def)
      show ?thesis
        using True by (simp add: serve_jetstream_def bd D1 md(1) j(1) call settle_def Let_def)
    next
      case False
      then have D1: "?D1 = D" by (simp add: begun_state_def)
      show ?thesis
        using False by (simp add: serve_jetstream_def case_prod_beta D1 md(1) j(1) call Let_def)
    qed
    have same: "ack_call c' m = ack_call c m" "nak_call c' m = nak_call c m"
      using keep by (simp_all add: ack_call_def nak_call_def)
    show ?thesis
      using False finish_delivery_log [of N cl c' m herr md'' ?W2] j(2) handled
      by (intro exI [of _ ctx] exI [of _ ?msg])
        (auto simp: eq same res untrack_def case_prod_beta)
  qed
qed

lemma abandon_ok:
  "\<exists>logs. fst (abandon N c m D W) = Inr (logs,
      if ds_state D (jm_id m) = deliverySettled then D\<lparr>ds_state := (ds_state D)(jm_id m := deliverySettled)\<rparr>
      else untrack (jm_id m) (D\<lparr>ds_state := (ds_state D)(jm_id m := deliverySettled)\<rparr>)) \<and>
    w_log (snd (abandon N c m D W)) = w_log W @
      (if ds_state D (jm_id m) = deliverySettled then [] else [nak_call c m])"
proof -
  obtain md where "incoming_metadata (jm_Headers m) = Inr md"
    using incoming_metadata_ok [of "jm_Headers m"] by metis
  then show ?thesis
    by (auto simp: abandon_def settle_def Let_def case_prod_beta nak_log)
qed

lemma abandon_all_ok:
  assumes "distinct is" and "\<And>i. i \<in> set is \<Longrightarrow> jm_id (snd (info i)) = i"
  shows "\<exists>logs D'. fst (abandon_all N info is D W) = Inr (logs, D') \<and>
    ds_state D' = (\<lambda>i. if i \<in> set is then deliverySettled else ds_state D i) \<and>
    ds_pending D' = fold (\<lambda>i. if ds_state D i = deliverySettled then id else remove1 i) is (ds_pending D) \<and>
    w_log (snd (abandon_all N info is D W)) = w_log W @
      map (\<lambda>i. nak_call (fst (info i)) (snd (info i))) (filter (\<lambda>i. ds_state D i \<noteq> deliverySettled) is)"
  using assms
proof (induction "is" arbitrary: D W)
  case Nil
  then show ?case by auto
next
  case (Cons i "is")
  let ?c = "fst (info i)" and ?m = "snd (info i)"
  have id: "jm_id ?m = i" using Cons.prems(2) by simp
  define D1 where "D1 = (if ds_state D i = deliverySettled then D\<lparr>ds_state := (ds_state D)(i := deliverySettled)\<rparr>
      else untrack i (D\<lparr>ds_state := (ds_state D)(i := deliverySettled)\<rparr>))"
  obtain logs W1 where a: "abandon N ?c ?m D W = (Inr (logs, D1), W1)"
    and log: "w_log W1 = w_log W @ (if ds_state D i = deliverySettled then [] else [nak_call ?c ?m])"
    using abandon_ok [of N ?c ?m D W] unfolding id D1_def by (cases "abandon N ?c ?m D W") auto
  have st: "ds_state D1 = (ds_state D)(i := deliverySettled)"
    and pend: "ds_pending D1 = (if ds_state D i = deliverySettled then ds_pending D else remove1 i (ds_pending D))"
    by (simp_all add: D1_def untrack_def)
  have same: "ds_state D1 j = ds_state D j" if "j \<in> set is" for j
    using that Cons.prems(1) by (auto simp: st)
  obtain logs2 D2 W2 where r: "abandon_all N info is D1 W1 = (Inr (logs2, D2), W2)"
    and st2: "ds_state D2 = (\<lambda>j. if j \<in> set is then deliverySettled else ds_state D1 j)"
    and pend2: "ds_pending D2 = fold (\<lambda>j. if ds_state D1 j = deliverySettled then id else remove1 j) is (ds_pending D1)"
    and log2: "w_log W2 = w_log W1 @
      map (\<lambda>j. nak_call (fst (info j)) (snd (info j))) (filter (\<lambda>j. ds_state D1 j \<noteq> deliverySettled) is)"
    using Cons.IH [of D1 W1] Cons.prems by (cases "abandon_all N info is D1 W1") auto
  have "fold (\<lambda>j. if ds_state D1 j = deliverySettled then id else remove1 j) is P
      = fold (\<lambda>j. if ds_state D j = deliverySettled then id else remove1 j) is P" for P
    using same by (intro fold_cong) auto
  moreover have "filter (\<lambda>j. ds_state D1 j \<noteq> deliverySettled) is = filter (\<lambda>j. ds_state D j \<noteq> deliverySettled) is"
    using same by (intro filter_cong) auto
  ultimately show ?case using a r st2 pend2 log2 st pend log by (auto simp: fun_eq_iff)
qed

lemma fold_remove1_filter:
  assumes "distinct xs" "distinct is"
  shows "fold (\<lambda>i. if P i then id else remove1 i) is xs = filter (\<lambda>x. x \<in> set is \<longrightarrow> P x) xs"
  using assms
proof (induction "is" arbitrary: xs)
  case (Cons i "is")
  show ?case
  proof (cases "P i")
    case True
    with Cons show ?thesis by (auto intro: filter_cong)
  next
    case False
    have "remove1 i xs = filter (\<lambda>x. x \<noteq> i) xs"
      using Cons.prems(1) by (simp add: distinct_remove1_removeAll removeAll_filter_not_eq eq_commute [of i])
    with False Cons show ?thesis by (auto intro: filter_cong)
  qed
qed simp

text \<open>C19: when \<open>Stop\<close> gives up, every pending delivery is settled, exactly those that
  were not settled before are nacked, once each and with their consumer's delay, and only
  those that someone else settled stay to be removed by him.\<close>

theorem abandon_pending_settles_all:
  assumes "distinct (ds_pending D)" and "\<And>i. i \<in> set (ds_pending D) \<Longrightarrow> jm_id (snd (info i)) = i"
  shows "\<exists>logs D'. fst (abandon_pending N info D W) = Inr (logs, D') \<and>
    ds_state D' = (\<lambda>i. if i \<in> set (ds_pending D) then deliverySettled else ds_state D i) \<and>
    ds_pending D' = filter (\<lambda>i. ds_state D i = deliverySettled) (ds_pending D) \<and>
    w_log (snd (abandon_pending N info D W)) = w_log W @
      map (\<lambda>i. nak_call (fst (info i)) (snd (info i)))
        (filter (\<lambda>i. ds_state D i \<noteq> deliverySettled) (ds_pending D))"
proof -
  have "filter (\<lambda>x. x \<in> set (ds_pending D) \<longrightarrow> ds_state D x = deliverySettled) (ds_pending D)
      = filter (\<lambda>i. ds_state D i = deliverySettled) (ds_pending D)"
    by (rule filter_cong) auto
  with abandon_all_ok [OF assms, of N D W]
    fold_remove1_filter [OF assms(1) assms(1), of "\<lambda>i. ds_state D i = deliverySettled"]
  show ?thesis by (simp add: abandon_pending_def)
qed

definition sample_info :: "nat \<Rightarrow> js_consumer \<times> jsmsg" where
  "sample_info i = (sample_js_consumer, \<lparr>jm_id = i, jm_Headers = None, jm_Data = [],
     jm_Metadata = Inl (ExtErr [] ''nats: message was not delivered by JetStream'')\<rparr>)"

definition sample_deliveries :: deliveries where
  "sample_deliveries = \<lparr>ds_pending = [3, 5], ds_state = (\<lambda>_. deliveryWaiting)(5 := deliverySettled)\<rparr>"

theorem abandon_pending_settles_all_witness:
  "\<exists>logs D'. fst (abandon_pending sample_nats sample_info sample_deliveries (init_world 0)) = Inr (logs, D') \<and>
    ds_state D' 3 = deliverySettled \<and> ds_pending D' = [5] \<and>
    w_log (snd (abandon_pending sample_nats sample_info sample_deliveries (init_world 0))) = [CNak 3]"
  using abandon_pending_settles_all [of sample_deliveries sample_info sample_nats "init_world 0"]
  by (auto simp: sample_deliveries_def sample_info_def init_world_def nak_call_def sample_js_consumer_fields
      sample_js_settings_def)

text \<open>A JetStream handler reads the delivery's details in its metadata: the stream and
  consumer as they are and every number in decimal, so that it can be read back.\<close>

theorem delivery_metadata_readable:
  assumes "md \<noteq> None"
  shows "\<exists>md'. delivery_metadata env md meta = Inr md' \<and>
    mget md' (metadata_key StreamMetadataKey) = Some (mm_Stream meta) \<and>
    mget md' (metadata_key ConsumerMetadataKey) = Some (mm_Consumer meta) \<and>
    map_option digits_val (mget md' DeliveryAttemptKey) = Some (unat (mm_NumDelivered meta)) \<and>
    map_option digits_val (mget md' (metadata_key StreamSequenceMetadataKey)) = Some (unat (mm_StreamSeq meta)) \<and>
    map_option digits_val (mget md' (metadata_key ConsumerSequenceMetadataKey)) = Some (unat (mm_ConsumerSeq meta)) \<and>
    map_option digits_val (mget md' (metadata_key NumPendingMetadataKey)) = Some (unat (mm_NumPending meta)) \<and>
    mget md' MessageIDKey = mget md MessageIDKey"
proof -
  obtain md' where "delivery_metadata env md meta = Inr md'"
    "mget md' = (mget md)(DeliveryAttemptKey \<mapsto> format_uint64 (mm_NumDelivered meta),
       metadata_key StreamMetadataKey \<mapsto> mm_Stream meta, metadata_key ConsumerMetadataKey \<mapsto> mm_Consumer meta,
       metadata_key StreamSequenceMetadataKey \<mapsto> format_uint64 (mm_StreamSeq meta),
       metadata_key ConsumerSequenceMetadataKey \<mapsto> format_uint64 (mm_ConsumerSeq meta),
       metadata_key NumPendingMetadataKey \<mapsto> format_uint64 (mm_NumPending meta),
       metadata_key TimestampMetadataKey \<mapsto> rfc3339_nano (env_zone env) (mm_Timestamp meta))"
    using delivery_metadata_ok [OF assms] by metis
  then show ?thesis
    by (intro exI [of _ md']) (simp add: format_uint64_def digits_val_show_nat DeliveryAttemptKey_def MessageIDKey_def)
qed

theorem delivery_metadata_readable_witness:
  "\<exists>md'. delivery_metadata sample_env mmake \<lparr>mm_NumDelivered = 2, mm_Stream = ''ORDERS'', mm_Consumer = ''orders'',
      mm_StreamSeq = 17, mm_ConsumerSeq = 4, mm_NumPending = 0, mm_Timestamp = 0\<rparr> = Inr md' \<and>
    mget md' (metadata_key StreamMetadataKey) = Some ''ORDERS'' \<and>
    map_option digits_val (mget md' (metadata_key StreamSequenceMetadataKey)) = Some 17"
  using delivery_metadata_readable [OF mmake_not_nil, of sample_env "\<lparr>mm_NumDelivered = 2, mm_Stream = ''ORDERS'',
      mm_Consumer = ''orders'', mm_StreamSeq = 17, mm_ConsumerSeq = 4, mm_NumPending = 0, mm_Timestamp = 0\<rparr>"]
  by auto

definition sample_waiting :: deliveries where
  "sample_waiting = \<lparr>ds_pending = [3], ds_state = (\<lambda>_. deliveryWaiting)\<rparr>"

text \<open>
  The deliveries when the handler would begin, whether it begins, and the deliveries when
  this goroutine comes to settle its own.
\<close>

definition tracked_state :: "js_consumer \<Rightarrow> jsmsg \<Rightarrow> (deliveries \<Rightarrow> deliveries) \<Rightarrow> deliveries \<Rightarrow> deliveries" where
  "tracked_state c m before D = before (if jc_acks c then track (jm_id m) D else D)"

definition begins :: "js_consumer \<Rightarrow> jsmsg \<Rightarrow> bool \<Rightarrow> deliveries \<Rightarrow> bool" where
  "begins c m accepted D1 \<longleftrightarrow> accepted \<and> \<not> (jc_acks c \<and> ds_state D1 (jm_id m) = deliverySettled)"

lemma receive_effect:
  "\<exists>ctx msg logs c' D'.
    fst (receive env N cl hctx c m accepted before during D W) = Inr (logs, c', D') \<and>
    (let D1 = tracked_state c m before D; begun = begins c m accepted D1;
         D2 = (if begun then during (begun_state c m D1) else D1);
         mine = (jc_acks c \<and> ds_state D2 (jm_id m) \<noteq> deliverySettled)
     in (begun \<longrightarrow> handled_with env hctx c m (fst (clock N W)) ctx msg) \<and>
        w_log (snd (receive env N cl hctx c m accepted before during D W)) = w_log W @
          (if begun then [CHandle ctx msg] else []) @
          (if \<not> mine then [] else if begun \<and> subscriber_result c ctx msg = None then [ack_call c m] else [nak_call c m]) \<and>
        (jc_acks c \<longrightarrow> ds_state D' (jm_id m) = deliverySettled) \<and>
        (mine \<longrightarrow> ds_pending D' = remove1 (jm_id m) (ds_pending D2)))"
proof -
  obtain arrival W1 where k: "clock N W = (arrival, W1)" by force
  let ?D1 = "tracked_state c m before D"
  note log = clock_log [OF k]
  show ?thesis
  proof (cases accepted)
    case True
    have eq: "receive env N cl hctx c m accepted before during D W = serve_jetstream env N cl hctx c m arrival during ?D1 W1"
      using True k by (simp add: receive_def tracked_state_def)
    obtain ctx msg logs c' D' where s:
      "fst (serve_jetstream env N cl hctx c m arrival during ?D1 W1) = Inr (logs, c', D')"
      "handled_with env hctx c m arrival ctx msg"
      "w_log (snd (serve_jetstream env N cl hctx c m arrival during ?D1 W1)) = w_log W1 @
        (if jc_acks c \<and> ds_state ?D1 (jm_id m) = deliverySettled then []
         else CHandle ctx msg #
           (if jc_acks c \<and> ds_state (during (begun_state c m ?D1)) (jm_id m) \<noteq> deliverySettled
            then [if subscriber_result c ctx msg = None then ack_call c m else nak_call c m] else []))"
      "jc_acks c \<longrightarrow> ds_state D' (jm_id m) = deliverySettled"
      "jc_acks c \<and> ds_state ?D1 (jm_id m) \<noteq> deliverySettled
         \<and> ds_state (during (begun_state c m ?D1)) (jm_id m) \<noteq> deliverySettled \<longrightarrow>
       ds_pending D' = remove1 (jm_id m) (ds_pending (during (begun_state c m ?D1)))"
      using serve_jetstream_effect [of env N cl hctx c m arrival during ?D1 W1] by (elim exE conjE) (rule that)
    show ?thesis
      unfolding eq Let_def begins_def using s True log k
      by (intro exI [of _ ctx] exI [of _ msg] exI [of _ logs] exI [of _ c'] exI [of _ D'])
        (cases "jc_acks c"; cases "ds_state ?D1 (jm_id m) = deliverySettled"; simp)
  next
    case False
    obtain logs W2 where a: "abandon N c m ?D1 W1 = (Inr (logs, if ds_state ?D1 (jm_id m) = deliverySettled
        then ?D1\<lparr>ds_state := (ds_state ?D1)(jm_id m := deliverySettled)\<rparr>
        else untrack (jm_id m) (?D1\<lparr>ds_state := (ds_state ?D1)(jm_id m := deliverySettled)\<rparr>)), W2)"
      "w_log W2 = w_log W1 @ (if ds_state ?D1 (jm_id m) = deliverySettled then [] else [nak_call c m])"
      using abandon_ok [of N c m ?D1 W1] by (metis prod.collapse)
    show ?thesis
    proof (cases "jc_acks c")
      case True
      have eq: "receive env N cl hctx c m False before during D W =
          (case abandon N c m ?D1 W1 of (Inl e, W2) \<Rightarrow> (Inl e, W2) | (Inr (logs, D2), W2) \<Rightarrow> (Inr (logs, c, D2), W2))"
        using True k by (simp add: receive_def tracked_state_def)
      show ?thesis
        using True False log a
        by (cases "ds_state ?D1 (jm_id m) = deliverySettled") (simp_all add: eq begins_def Let_def untrack_def)
    next
      case no_acks: False
      with False k log show ?thesis by (simp add: receive_def begins_def Let_def)
    qed
  qed
qed

text \<open>C18: a message that a consumer delivers is handled once when \<open>dispatch\<close> accepts it, and not
  at all when it is refused or, on an acking consumer, \<open>Stop\<close> has settled it before its handler
  began, whatever \<open>Stop\<close> does in between.  When its consumer acks, it is settled in the end, and
  unless \<open>Stop\<close> settled it first - while it waited or while its handler ran - it is answered here
  exactly once, acked when the handler succeeded and nacked when it failed, panicked or never
  began, and then no longer pending; when \<open>Stop\<close> settled it, or its consumer does not ack, no
  answer is sent here.  The handler is given the payload under the subscriber's target, with the
  details of the delivery in the metadata and the deadline of the ack in both the metadata and
  the context.\<close>

theorem received_message_settled:
  "\<exists>ctx msg logs c' D'.
    fst (receive env N cl hctx c m accepted before during D W) = Inr (logs, c', D') \<and>
    (let D1 = tracked_state c m before D; begun = begins c m accepted D1;
         D2 = (if begun then during (begun_state c m D1) else D1);
         mine = (jc_acks c \<and> ds_state D2 (jm_id m) \<noteq> deliverySettled)
     in (begun \<longrightarrow> handled_with env hctx c m (fst (clock N W)) ctx msg) \<and>
        w_log (snd (receive env N cl hctx c m accepted before during D W)) = w_log W @
          (if begun then [CHandle ctx msg] else []) @
          (if \<not> mine then [] else if begun \<and> subscriber_result c ctx msg = None then [ack_call c m] else [nak_call c m]) \<and>
        (jc_acks c \<longrightarrow> ds_state D' (jm_id m) = deliverySettled) \<and>
        (mine \<longrightarrow> ds_pending D' = remove1 (jm_id m) (ds_pending D2)))"
  by (rule receive_effect)

text \<open>A message whose handler fails, and one that \<open>Stop\<close> naks while it waits for a slot.\<close>

theorem received_message_settled_witness:
  "(\<exists>ctx msg logs c' D'.
    fst (receive sample_env sample_nats sample_client ctx_background sample_js_consumer (snd (sample_info 3)) True id id
      sample_waiting (init_world 0)) = Inr (logs, c', D') \<and>
    w_log (snd (receive sample_env sample_nats sample_client ctx_background sample_js_consumer (snd (sample_info 3)) True id id
      sample_waiting (init_world 0))) = [CHandle ctx msg, CNak 3] \<and>
    ds_state D' 3 = deliverySettled \<and> ds_pending D' = []) \<and>
   w_log (snd (receive sample_env sample_nats sample_client ctx_background sample_js_consumer (snd (sample_info 3)) True
      (\<lambda>D. D\<lparr>ds_state := (ds_state D)(3 := deliverySettled)\<rparr>) id sample_waiting (init_world (0 :: nat)))) = []"
proof -
  let ?T = "tracked_state sample_js_consumer (snd (sample_info 3)) id sample_waiting"
  have acks: "jc_acks sample_js_consumer" and id: "jm_id (snd (sample_info 3)) = 3"
    by (simp_all add: sample_js_consumer_fields sample_info_def)
  have w: "begins sample_js_consumer (snd (sample_info 3)) True ?T"
    "ds_state (begun_state sample_js_consumer (snd (sample_info 3)) ?T) 3 \<noteq> deliverySettled"
    "ds_pending (begun_state sample_js_consumer (snd (sample_info 3)) ?T) = [3]"
    by (simp_all add: sample_waiting_def begun_state_def acks id track_def tracked_state_def begins_def)
  have f: "subscriber_result sample_js_consumer ctx msg = Some ''boom''" for ctx msg
    by (simp add: subscriber_result_def sample_js_consumer_fields sample_js_sub_def sample_subscriber_sub_def
        call_subscriber_def failing_def)
  have n: "nak_call sample_js_consumer (snd (sample_info 3)) = CNak 3"
    by (simp add: nak_call_def id sample_js_consumer_fields sample_js_settings_def)
  let ?s = "\<lambda>D. D\<lparr>ds_state := (ds_state D)(3 := deliverySettled)\<rparr>"
  have settled: "\<not> begins sample_js_consumer (snd (sample_info 3)) True
      (tracked_state sample_js_consumer (snd (sample_info 3)) ?s sample_waiting)"
    "ds_state (tracked_state sample_js_consumer (snd (sample_info 3)) ?s sample_waiting) 3 = deliverySettled"
    by (simp_all add: begins_def tracked_state_def acks id)
  show ?thesis
    using received_message_settled [of sample_env sample_nats sample_client ctx_background sample_js_consumer
        "snd (sample_info 3)" True id id sample_waiting "init_world 0"]
      received_message_settled [of sample_env sample_nats sample_client ctx_background sample_js_consumer
        "snd (sample_info 3)" True ?s id sample_waiting "init_world (0 :: nat)"] acks w settled
    by (auto simp: id f n init_world_def Let_def)
qed

end
