(* ===== verification/Lifecycle.thy ===== *)
theory Lifecycle
  imports Deliveries
begin

text \<open>
  \<open>runtime.go\<close>, \<open>runtime_receivers.go\<close> and \<open>runtime_public.go\<close>: starting and
  stopping a runtime, and reading its receivers.  \<open>Start\<close> and \<open>Stop\<close> hold \<open>r.mu\<close>,
  so each is one transition of the runtime's state, and what is said of the state holds
  between two calls.  What \<open>running\<close> and \<open>accepting\<close>, which are read outside \<open>r.mu\<close>, are
  while a call is under way, and what handlers do meanwhile, is left to \<open>Concurrency\<close>, which
  follows \<open>accepting\<close> and the handler contexts step by step.
\<close>

section \<open>State\<close>

text \<open>The order of Go's \<open>iota\<close> constants.\<close>

instantiation runtime_state :: linorder
begin

fun runtime_state_rank :: "runtime_state \<Rightarrow> nat" where
  "runtime_state_rank StateCreated = 0"
| "runtime_state_rank StateRunning = 1"
| "runtime_state_rank StateStopped = 2"

definition less_eq_runtime_state :: "runtime_state \<Rightarrow> runtime_state \<Rightarrow> bool" where
  "less_eq_runtime_state a b \<longleftrightarrow> runtime_state_rank a \<le> runtime_state_rank b"

definition less_runtime_state :: "runtime_state \<Rightarrow> runtime_state \<Rightarrow> bool" where
  "less_runtime_state a b \<longleftrightarrow> runtime_state_rank a < runtime_state_rank b"

instance
proof
  fix a b :: runtime_state
  assume "a \<le> b" "b \<le> a"
  then show "a = b" by (cases a; cases b) (simp_all add: less_eq_runtime_state_def)
qed (auto simp: less_eq_runtime_state_def less_runtime_state_def)

end

text \<open>
  A handler context is the number of the \<open>Start\<close> that made it; \<open>r_cancelled\<close> holds
  those whose cancel function was called, and \<open>r_watching\<close> those whose \<open>Start\<close>
  began a \<open>watchMissing\<close>.
\<close>

record runtime =
  r_config :: runtime_config
  r_client :: client
  r_state :: runtime_state
  r_subs :: "nat list"
  r_consumers :: "js_consumer list"
  r_running :: bool
  r_accepting :: bool
  r_missing :: "js_consumer list"
  r_handlerCtx :: nat
  r_cancelled :: "nat list"
  r_watching :: "nat list"

definition created :: "runtime_config \<Rightarrow> client \<Rightarrow> runtime" where
  "created rc cl =
    \<lparr>r_config = rc, r_client = cl, r_state = StateCreated, r_subs = [], r_consumers = [],
     r_running = False, r_accepting = False, r_missing = [], r_handlerCtx = 0, r_cancelled = [],
     r_watching = []\<rparr>"

section \<open>Start\<close>

definition flushBudget :: duration where
  "flushBudget = 5 * Second"

definition flush :: "'w nats \<Rightarrow> gocontext \<Rightarrow> 'w world \<Rightarrow> exterr option \<times> 'w world" where
  "flush N ctx W =
    (case c_deadline ctx of
       Some _ \<Rightarrow> perform (\<lambda>_. CFlush) (n_flush N ctx) W
     | None \<Rightarrow>
         let (now, W1) = clock N W
         in perform (\<lambda>_. CFlush) (n_flush N (with_timeout ctx now flushBudget)) W1)"

definition check_startable ::
    "'w nats \<Rightarrow> runtime \<Rightarrow> gocontext \<Rightarrow> 'w world \<Rightarrow> goerr option \<times> 'w world" where
  "check_startable N r ctx W =
    (case r_state r of
       StateRunning \<Rightarrow> (Some ErrAlreadyStarted, W)
     | StateStopped \<Rightarrow> (Some ErrStopped, W)
     | StateCreated \<Rightarrow> let (now, W1) = clock N W in (map_option External (ctx_err ctx now), W1))"

text \<open>The boot check: no stream may cover an endpoint's subject.\<close>

fun check_endpoint_streams ::
    "'w nats \<Rightarrow> gocontext \<Rightarrow> subscription list \<Rightarrow> 'w world \<Rightarrow> goerr option \<times> 'w world" where
  "check_endpoint_streams N ctx [] W = (None, W)"
| "check_endpoint_streams N ctx (b # bs) W =
    (if sb_endpoint b = None then check_endpoint_streams N ctx bs W
     else
       case perform (\<lambda>_. CStreamBySubject (sb_subject b)) (n_stream_by_subject N ctx (sb_subject b)) W of
         (Inr name, W1) \<Rightarrow> (Some (ErrStreamCoversRoute (sb_subject b) name), W1)
       | (Inl e, W1) \<Rightarrow>
           if errors_is e SStreamNotFound then check_endpoint_streams N ctx bs W1
           else if errors_is e SNoResponders \<or> errors_is e SJetStreamNotEnabled
              \<or> errors_is e SJetStreamNotEnabledForAccount then (None, W1)
           else (Some (External e), W1))"

definition subscribe :: "'w nats \<Rightarrow> subscription \<Rightarrow> 'w world \<Rightarrow> (exterr + nat) \<times> 'w world" where
  "subscribe N b W =
    (let q = (if sb_queue b = [] then None else Some (sb_queue b))
     in perform (CSubscribe (sb_subject b) q) (n_subscribe N (sb_subject b) q) W)"

text \<open>
  The loop of \<open>openReceivers\<close>, from subscription number \<open>ix\<close> on: what it opened,
  and the error that stopped it.
\<close>

fun open_loop ::
    "'w nats \<Rightarrow> gocontext \<Rightarrow> nat \<Rightarrow> nat \<Rightarrow> subscription list \<Rightarrow> 'w world
      \<Rightarrow> (nat list \<times> js_consumer list \<times> goerr option) \<times> 'w world" where
  "open_loop N ctx g ix [] W = (([], [], None), W)"
| "open_loop N ctx g ix (b # bs) W =
    (case sb_js b of
       Some s \<Rightarrow>
         (case consume N ctx ix b s g W of
            (Inl e, W1) \<Rightarrow> (([], [], Some e), W1)
          | (Inr c, W1) \<Rightarrow>
              let ((hs, cs, err), W2) = open_loop N ctx g (Suc ix) bs W1 in ((hs, c # cs, err), W2))
     | None \<Rightarrow>
         (case subscribe N b W of
            (Inl e, W1) \<Rightarrow> (([], [], Some (External e)), W1)
          | (Inr h, W1) \<Rightarrow>
              let ((hs, cs, err), W2) = open_loop N ctx g (Suc ix) bs W1 in ((h # hs, cs, err), W2)))"

definition open_receivers ::
    "'w nats \<Rightarrow> gocontext \<Rightarrow> nat \<Rightarrow> subscription list \<Rightarrow> 'w world
      \<Rightarrow> (nat list \<times> js_consumer list \<times> goerr option) \<times> 'w world" where
  "open_receivers N ctx g bs W =
    (case check_endpoint_streams N ctx bs W of
       (Some e, W1) \<Rightarrow> (([], [], Some e), W1)
     | (None, W1) \<Rightarrow> open_loop N ctx g 0 bs W1)"

definition close_handles ::
    "'w nats \<Rightarrow> nat list \<Rightarrow> js_consumer list \<Rightarrow> 'w world \<Rightarrow> 'w world" where
  "close_handles N hs cs W =
    fold (\<lambda>c. perform0 (CCcStop (jc_cc c)) (n_cc_stop N (jc_cc c))) cs
      (fold (\<lambda>h. perform0 (CUnsubscribe h) (n_unsubscribe N h)) hs W)"

definition abort_start ::
    "'w nats \<Rightarrow> nat list \<Rightarrow> js_consumer list \<Rightarrow> runtime \<Rightarrow> 'w world \<Rightarrow> runtime \<times> 'w world" where
  "abort_start N hs cs r W =
    (r\<lparr>r_cancelled := r_handlerCtx r # r_cancelled r, r_accepting := False\<rparr>, close_handles N hs cs W)"

definition start ::
    "'w nats \<Rightarrow> runtime \<Rightarrow> gocontext \<Rightarrow> 'w world \<Rightarrow> goerr option \<times> runtime \<times> 'w world" where
  "start N r ctx W =
    (case check_startable N r ctx W of
       (Some e, W1) \<Rightarrow> (Some e, r, W1)
     | (None, W1) \<Rightarrow>
         (case connections (r_client r) of
            Inl e \<Rightarrow> (Some e, r, W1)
          | Inr _ \<Rightarrow>
              let r1 = r\<lparr>r_handlerCtx := Suc (r_handlerCtx r), r_accepting := True\<rparr>;
                  ((hs, cs, err), W2) =
                    open_receivers N ctx (r_handlerCtx r1) (rc_subscriptions (r_config r)) W1;
                  (err', W3) = (case err of
                      None \<Rightarrow> (case flush N ctx W2 of (e, W3) \<Rightarrow> (map_option External e, W3))
                    | Some e \<Rightarrow> (Some e, W2))
              in case err' of
                   Some e \<Rightarrow> let (r2, W4) = abort_start N hs cs r1 W3 in (Some e, r2, W4)
                 | None \<Rightarrow>
                     (None, r1\<lparr>r_subs := hs, r_consumers := cs,
                        r_watching := (if cs \<noteq> [] then r_handlerCtx r1 # r_watching r1 else r_watching r1),
                        r_state := StateRunning, r_running := True\<rparr>, W3)))"

section \<open>Stop\<close>

definition drain_handles ::
    "'w nats \<Rightarrow> nat list \<Rightarrow> js_consumer list \<Rightarrow> 'w world \<Rightarrow> 'w world" where
  "drain_handles N hs cs W =
    fold (\<lambda>c. perform0 (CCcDrain (jc_cc c)) (n_cc_drain N (jc_cc c))) cs
      (fold (\<lambda>h. perform0 (CDrainSub h) (n_drain_sub N h)) hs W)"

definition flush_on_stop ::
    "'w nats \<Rightarrow> client \<Rightarrow> gocontext \<Rightarrow> 'w world \<Rightarrow> log_record list \<times> 'w world" where
  "flush_on_stop N cl ctx W =
    (case connections cl of
       Inl _ \<Rightarrow> ([], W)
     | Inr _ \<Rightarrow>
         (case flush N ctx W of
            (None, W1) \<Rightarrow> ([], W1)
          | (Some e, W1) \<Rightarrow>
              ([log_warn ''nats: flush during stop failed'' [(''error'', AError (ext_text e))]], W1)))"

text \<open>
  \<open>Stop\<close>.  \<open>drainErr\<close> is what its \<open>select\<close> chose: \<open>None\<close> when the drain was done,
  otherwise the error of \<open>ctx\<close>.  \<open>info\<close> gives each delivery's consumer and message,
  and \<open>D\<close> the deliveries when the wait ended.
\<close>

definition stop ::
    "'w nats \<Rightarrow> (nat \<Rightarrow> js_consumer \<times> jsmsg) \<Rightarrow> runtime \<Rightarrow> gocontext \<Rightarrow> exterr option
      \<Rightarrow> deliveries \<Rightarrow> 'w world
      \<Rightarrow> (exterr option \<times> log_record list \<times> runtime \<times> deliveries) res \<times> 'w world" where
  "stop N info r ctx drainErr D W =
    (if r_state r \<noteq> StateRunning then (Inr (None, [], r, D), W)
     else
       let W1 = drain_handles N (r_subs r) (r_consumers r) W;
           r1 = r\<lparr>r_state := StateStopped, r_running := False, r_accepting := False,
                  r_cancelled := r_handlerCtx r # r_cancelled r\<rparr>;
           finish = (\<lambda>logs D' W'.
             let (cl, W'') = close N (r_client r) W'
             in (Inr (drainErr, logs, r1\<lparr>r_client := cl, r_subs := [], r_consumers := []\<rparr>, D'), W''))
       in case drainErr of
            Some _ \<Rightarrow>
              (case abandon_pending N info D W1 of
                 (Inl e, W2) \<Rightarrow> (Inl e, W2)
               | (Inr (logs, D'), W2) \<Rightarrow> finish logs D' W2)
          | None \<Rightarrow> let (logs, W2) = flush_on_stop N (r_client r) ctx W1 in finish logs D W2)"

definition running :: "runtime \<Rightarrow> bool" where
  "running r = r_running r"

text \<open>\<open>Runtime.ServiceMap\<close> and \<open>Runtime.Client\<close>.\<close>

definition runtime_service_map :: "runtime \<Rightarrow> target list" where
  "runtime_service_map r = service_map (r_client r)"

definition runtime_client :: "runtime \<Rightarrow> client" where
  "runtime_client r = r_client r"

section \<open>Receivers\<close>

record receiver =
  rv_client :: client
  rv_sub :: subscription
  rv_consumer :: "js_consumer option"

text \<open>The last consumer in the list whose subscription is number \<open>ix\<close>.\<close>

definition consumer_for :: "js_consumer list \<Rightarrow> nat \<Rightarrow> js_consumer option" where
  "consumer_for cs ix = fold (\<lambda>c found. if jc_index c = ix then Some c else found) cs None"

fun find_receiver ::
    "goenv \<Rightarrow> client \<Rightarrow> js_consumer list \<Rightarrow> target \<Rightarrow> nat \<Rightarrow> subscription list \<Rightarrow> receiver option" where
  "find_receiver env cl cs t ix [] = None"
| "find_receiver env cl cs t ix (b # bs) =
    (if \<not> env_target_equal env (sb_target b) t then find_receiver env cl cs t (Suc ix) bs
     else Some \<lparr>rv_client = cl, rv_sub = b, rv_consumer = consumer_for cs ix\<rparr>)"

definition get_receiver :: "goenv \<Rightarrow> runtime \<Rightarrow> target \<Rightarrow> receiver option" where
  "get_receiver env r t =
    (if r_state r \<noteq> StateRunning then None
     else find_receiver env (r_client r) (r_consumers r) t 0 (rc_subscriptions (r_config r)))"

definition receiver_target :: "receiver \<Rightarrow> target" where
  "receiver_target rv = sb_target (rv_sub rv)"

definition receiver_group :: "receiver \<Rightarrow> string" where
  "receiver_group rv =
    (if sb_queue (rv_sub rv) = [] then ConsumerGroupNone else sb_queue (rv_sub rv))"

definition receiver_stream ::
    "'w nats \<Rightarrow> receiver \<Rightarrow> gocontext \<Rightarrow> 'w world \<Rightarrow> string option res \<times> 'w world" where
  "receiver_stream N rv ctx W =
    (case sb_js (rv_sub rv) of
       None \<Rightarrow> (Inr None, W)
     | Some s \<Rightarrow>
         (case connections (rv_client rv) of
            Inl e \<Rightarrow> (Inl e, W)
          | Inr _ \<Rightarrow>
              (case perform (\<lambda>_. CStream (js_stream s)) (n_stream N ctx (js_stream s)) W of
                 (Some e, W1) \<Rightarrow> (Inl (External e), W1)
               | (None, W1) \<Rightarrow> (Inr (Some (js_stream s)), W1))))"

definition receiver_consumer :: "receiver \<Rightarrow> consumer option" where
  "receiver_consumer rv = map_option jc_consumer (rv_consumer rv)"

section \<open>Handles in the log\<close>

text \<open>The handles a list of calls opened and released, in its order.\<close>

fun opened_sub :: "call \<Rightarrow> nat option" where
  "opened_sub (CSubscribe _ _ (Inr h)) = Some h"
| "opened_sub _ = None"

fun opened_cc :: "call \<Rightarrow> nat option" where
  "opened_cc (CConsume _ _ (Inr h)) = Some h"
| "opened_cc _ = None"

fun closed_sub :: "call \<Rightarrow> nat option" where
  "closed_sub (CUnsubscribe h) = Some h"
| "closed_sub _ = None"

fun closed_cc :: "call \<Rightarrow> nat option" where
  "closed_cc (CCcStop h) = Some h"
| "closed_cc _ = None"

fun drained_sub :: "call \<Rightarrow> nat option" where
  "drained_sub (CDrainSub h) = Some h"
| "drained_sub _ = None"

fun drained_cc :: "call \<Rightarrow> nat option" where
  "drained_cc (CCcDrain h) = Some h"
| "drained_cc _ = None"

definition handles :: "(call \<Rightarrow> nat option) \<Rightarrow> call list \<Rightarrow> nat list" where
  "handles f cs = List.map_filter f cs"

lemma handles_simps [simp]:
  "handles f [] = []" "handles f (c # cs) = (case f c of None \<Rightarrow> handles f cs | Some h \<Rightarrow> h # handles f cs)"
  "handles f (xs @ ys) = handles f xs @ handles f ys"
  by (simp_all add: handles_def map_filter_def split: option.split)

text \<open>What a step added to the log.\<close>

definition added :: "'w world \<Rightarrow> 'w world \<Rightarrow> call list \<Rightarrow> bool" where
  "added W W' cs \<longleftrightarrow> w_log W' = w_log W @ cs"

lemma added_refl: "added W W []"
  by (simp add: added_def)

lemma added_trans: "added W W1 cs \<Longrightarrow> added W1 W2 ds \<Longrightarrow> added W W2 (cs @ ds)"
  by (simp add: added_def)

lemma added_perform: "perform c f W = (r, W') \<Longrightarrow> added W W' [c r]"
  by (simp add: added_def perform_log)

lemma added_clock: "clock N W = (t, W') \<Longrightarrow> added W W' []"
  by (simp add: added_def clock_log)

lemma flush_added: "flush N ctx W = (e, W') \<Longrightarrow> added W W' [CFlush]"
  by (auto simp: flush_def Let_def added_def split: option.splits prod.splits dest!: perform_log clock_log)

lemma check_startable_added: "check_startable N r ctx W = (e, W') \<Longrightarrow> added W W' []"
  by (auto simp: check_startable_def added_def split: runtime_state.splits prod.splits dest!: clock_log)

text \<open>The boot check makes only stream lookups.\<close>

fun is_lookup :: "call \<Rightarrow> bool" where
  "is_lookup (CStreamBySubject _) = True"
| "is_lookup _ = False"

lemma lookups_no_handles:
  "list_all is_lookup cs \<Longrightarrow> f \<in> {opened_sub, opened_cc, closed_sub, closed_cc} \<Longrightarrow> handles f cs = []"
  by (induction cs) (auto elim!: is_lookup.elims)

lemma check_endpoint_streams_added:
  "\<exists>cs. added W (snd (check_endpoint_streams N ctx bs W)) cs \<and> list_all is_lookup cs"
proof (induction bs arbitrary: W)
  case Nil
  then show ?case by (auto intro: exI [of _ "[]"] simp: added_refl)
next
  case (Cons b bs)
  show ?case
  proof (cases "sb_endpoint b")
    case None
    with Cons.IH show ?thesis by simp
  next
    case (Some h)
    obtain r W1 where p: "perform (\<lambda>_. CStreamBySubject (sb_subject b)) (n_stream_by_subject N ctx (sb_subject b)) W
        = (r, W1)" by force
    note a = added_perform [OF p]
    obtain cs where cs: "added W1 (snd (check_endpoint_streams N ctx bs W1)) cs" "list_all is_lookup cs"
      using Cons.IH by blast
    show ?thesis
    proof (cases r)
      case (Inr name)
      with Some p a show ?thesis by (auto intro!: exI [of _ "[CStreamBySubject (sb_subject b)]"])
    next
      case (Inl e)
      show ?thesis
      proof (cases "errors_is e SStreamNotFound")
        case True
        with Some p Inl added_trans [OF a cs(1)] cs(2) show ?thesis
          by (auto intro!: exI [of _ "CStreamBySubject (sb_subject b) # cs"])
      next
        case False
        with Some p Inl a show ?thesis by (auto intro!: exI [of _ "[CStreamBySubject (sb_subject b)]"])
      qed
    qed
  qed
qed

lemma subscribe_added:
  "subscribe N b W = (r, W') \<Longrightarrow>
    added W W' [CSubscribe (sb_subject b) (if sb_queue b = [] then None else Some (sb_queue b)) r]"
  unfolding subscribe_def Let_def by (rule added_perform)

lemma lookup_call_no_handle:
  "f \<in> {opened_sub, opened_cc, closed_sub, closed_cc} \<Longrightarrow> f (lookup_call subj s) = None"
  by (auto simp: lookup_call_def)

lemma open_consumer_added:
  assumes "open_consumer N ctx ix b s g W = (r, W')"
  shows "\<exists>cs. added W W' cs \<and> (\<forall>f \<in> {opened_sub, opened_cc, closed_sub, closed_cc}. handles f cs = [])"
  using open_consumer_log [of N ctx ix b s g W] assms
  by (intro exI [of _ "CStream (js_stream s) # (if fst (n_stream N ctx (js_stream s) (w_ext W)) = None
      then [lookup_call (sb_subject b) s] else [])"]) (auto simp: added_def lookup_call_def)

lemma consumer_state_fields [simp]:
  "jc_index (consumer_state ix b s g cons) = ix" "jc_sub (consumer_state ix b s g cons) = b"
  "jc_settings (consumer_state ix b s g cons) = s" "jc_gen (consumer_state ix b s g cons) = g"
  by (simp_all add: consumer_state_def Let_def)

text \<open>\<open>consume\<close> opens at most the one consume context it returns.\<close>

lemma consume_added:
  assumes "consume N ctx ix b s g W = (r, W')"
  shows "\<exists>cs. added W W' cs \<and> handles opened_sub cs = [] \<and> handles closed_sub cs = [] \<and> handles closed_cc cs = [] \<and>
    handles opened_cc cs = (case r of Inl _ \<Rightarrow> [] | Inr c \<Rightarrow> [jc_cc c]) \<and>
    (case r of Inl _ \<Rightarrow> True | Inr c \<Rightarrow> jc_index c = ix \<and> jc_sub c = b \<and> jc_settings c = s \<and> jc_gen c = g)"
proof -
  obtain x W1 where o: "open_consumer N ctx ix b s g W = (x, W1)" by force
  obtain cs where cs: "added W W1 cs" "\<forall>f \<in> {opened_sub, opened_cc, closed_sub, closed_cc}. handles f cs = []"
    using open_consumer_added [OF o] by blast
  show ?thesis
  proof (cases x)
    case (Inl e)
    with o assms have "r = Inl e" "W' = W1" by (simp_all add: consume_def)
    with cs show ?thesis by auto
  next
    case (Inr c)
    have c: "jc_index c = ix" "jc_sub c = b" "jc_settings c = s" "jc_gen c = g"
      using o Inr by (auto simp: open_consumer_def split: prod.splits option.splits sum.splits)
    obtain y W2 where p: "perform (CConsume (jc_consumer c) (consume_opts (js_pull s)))
        (n_consume N (jc_consumer c) (consume_opts (js_pull s))) W1 = (y, W2)" by force
    have r: "r = (case y of Inl e \<Rightarrow> Inl (External e) | Inr cc \<Rightarrow> Inr (c\<lparr>jc_cc := cc\<rparr>))" "W' = W2"
      using assms o Inr p by (auto simp: consume_def split: sum.splits)
    show ?thesis
      using added_trans [OF cs(1) added_perform [OF p]] cs(2) c
      by (intro exI [of _ "cs @ [CConsume (jc_consumer c) (consume_opts (js_pull s)) y]"])
        (cases y; simp add: r)
  qed
qed

text \<open>The loop of \<open>openReceivers\<close> opens exactly the handles it returns.\<close>

lemma open_loop_added:
  assumes "open_loop N ctx g ix bs W = ((hs, js, err), W')"
  shows "\<exists>cs. added W W' cs \<and> handles opened_sub cs = hs \<and> handles opened_cc cs = map jc_cc js \<and>
    handles closed_sub cs = [] \<and> handles closed_cc cs = []"
  using assms
proof (induction bs arbitrary: ix W hs js)
  case Nil
  then show ?case by (auto intro: exI [of _ "[]"] simp: added_refl)
next
  case (Cons b bs)
  show ?case
  proof (cases "sb_js b")
    case None
    obtain r W1 where s: "subscribe N b W = (r, W1)" by force
    note a = subscribe_added [OF s]
    show ?thesis
    proof (cases r)
      case (Inl e)
      with Cons.prems None s a show ?thesis by (intro exI) auto
    next
      case (Inr h)
      obtain hs' js' err' W2 where l: "open_loop N ctx g (Suc ix) bs W1 = ((hs', js', err'), W2)"
        by (metis prod.exhaust)
      with Cons.prems None s Inr have e: "hs = h # hs'" "js = js'" "err' = err" "W' = W2" by simp_all
      from Cons.IH l e obtain cs where "added W1 W2 cs" "handles opened_sub cs = hs'"
        "handles opened_cc cs = map jc_cc js'" "handles closed_sub cs = []" "handles closed_cc cs = []" by blast
      with added_trans [OF a] Inr e show ?thesis
        by (intro exI [of _ "[CSubscribe (sb_subject b) (if sb_queue b = [] then None else Some (sb_queue b)) r] @ cs"]) simp
    qed
  next
    case (Some s)
    obtain r W1 where c: "consume N ctx ix b s g W = (r, W1)" by force
    obtain cs0 where a: "added W W1 cs0" "handles opened_sub cs0 = []" "handles closed_sub cs0 = []"
      "handles closed_cc cs0 = []" "handles opened_cc cs0 = (case r of Inl _ \<Rightarrow> [] | Inr c \<Rightarrow> [jc_cc c])"
      using consume_added [OF c] by blast
    show ?thesis
    proof (cases r)
      case (Inl e)
      with Cons.prems Some c a show ?thesis by (intro exI [of _ cs0]) auto
    next
      case (Inr x)
      obtain hs' js' err' W2 where l: "open_loop N ctx g (Suc ix) bs W1 = ((hs', js', err'), W2)"
        by (metis prod.exhaust)
      with Cons.prems Some c Inr have e: "hs = hs'" "js = x # js'" "err' = err" "W' = W2" by simp_all
      from Cons.IH l e obtain cs where "added W1 W2 cs" "handles opened_sub cs = hs'"
        "handles opened_cc cs = map jc_cc js'" "handles closed_sub cs = []" "handles closed_cc cs = []" by blast
      with added_trans [OF a(1)] a Inr e show ?thesis by (intro exI [of _ "cs0 @ cs"]) simp
    qed
  qed
qed

text \<open>
  A loop that meets no error opens one receiver for each subscription: the consumers
  belong to the subscriptions with a stream, by their numbers and in their order.
\<close>

definition js_indices :: "nat \<Rightarrow> subscription list \<Rightarrow> nat list" where
  "js_indices ix bs = map fst (filter (\<lambda>(_, b). sb_js b \<noteq> None) (zip [ix ..< ix + length bs] bs))"

lemma js_indices_Cons:
  "js_indices ix (b # bs) = (if sb_js b \<noteq> None then [ix] else []) @ js_indices (Suc ix) bs"
proof -
  have "[ix ..< ix + length (b # bs)] = ix # [Suc ix ..< Suc ix + length bs]"
    by (simp add: upt_rec)
  then show ?thesis by (simp add: js_indices_def)
qed

lemma open_loop_complete:
  assumes "open_loop N ctx g ix bs W = ((hs, js, None), W')"
  shows "map jc_index js = js_indices ix bs \<and> length hs + length js = length bs
    \<and> (\<forall>c \<in> set js. jc_gen c = g \<and> ix \<le> jc_index c \<and> jc_sub c = bs ! (jc_index c - ix)
        \<and> jc_index c - ix < length bs)"
  using assms
proof (induction bs arbitrary: ix W hs js)
  case Nil
  then show ?case by (simp add: js_indices_def)
next
  case (Cons b bs)
  show ?case
  proof (cases "sb_js b")
    case None
    obtain r W1 where s: "subscribe N b W = (r, W1)" by force
    then obtain h where r: "r = Inr h" using Cons.prems None by (cases r) simp_all
    obtain hs' js' err' W2 where l: "open_loop N ctx g (Suc ix) bs W1 = ((hs', js', err'), W2)"
      by (metis prod.exhaust)
    with Cons.prems None s r have e: "hs = h # hs'" "js = js'" "err' = None" "W2 = W'" by simp_all
    have "\<forall>c \<in> set js. Suc ix \<le> jc_index c \<and> jc_sub c = bs ! (jc_index c - Suc ix)
        \<and> jc_index c - Suc ix < length bs \<and> jc_gen c = g"
      using Cons.IH [of "Suc ix" W1 hs' js'] l e by simp
    then have "\<forall>c \<in> set js. jc_gen c = g \<and> ix \<le> jc_index c \<and> jc_sub c = (b # bs) ! (jc_index c - ix)
        \<and> jc_index c - ix < length (b # bs)"
      by (auto simp: nth_Cons' Suc_diff_le Suc_le_eq)
    with Cons.IH [of "Suc ix" W1 hs' js'] l e None show ?thesis by (simp add: js_indices_Cons)
  next
    case (Some s)
    obtain r W1 where c: "consume N ctx ix b s g W = (r, W1)" by force
    then obtain x where r: "r = Inr x" using Cons.prems Some by (cases r) simp_all
    have x: "jc_index x = ix" "jc_sub x = b" "jc_gen x = g" using consume_added [OF c] r by auto
    obtain hs' js' err' W2 where l: "open_loop N ctx g (Suc ix) bs W1 = ((hs', js', err'), W2)"
      by (metis prod.exhaust)
    with Cons.prems Some c r have e: "hs = hs'" "js = x # js'" "err' = None" "W2 = W'" by simp_all
    have "\<forall>c \<in> set js'. Suc ix \<le> jc_index c \<and> jc_sub c = bs ! (jc_index c - Suc ix)
        \<and> jc_index c - Suc ix < length bs \<and> jc_gen c = g"
      using Cons.IH [of "Suc ix" W1 hs' js'] l e by simp
    then have "\<forall>c \<in> set js. jc_gen c = g \<and> ix \<le> jc_index c \<and> jc_sub c = (b # bs) ! (jc_index c - ix)
        \<and> jc_index c - ix < length (b # bs)"
      using e x by (auto simp: nth_Cons' Suc_diff_le Suc_le_eq)
    with Cons.IH [of "Suc ix" W1 hs' js'] l e x Some show ?thesis by (simp add: js_indices_Cons)
  qed
qed

lemma close_handles_log:
  "w_log (close_handles N hs js W) = w_log W @ map CUnsubscribe hs @ map (\<lambda>c. CCcStop (jc_cc c)) js"
proof -
  have "w_log (fold (\<lambda>h. perform0 (CUnsubscribe h) (n_unsubscribe N h)) hs W) = w_log W @ map CUnsubscribe hs" for W
    by (induction hs arbitrary: W) simp_all
  moreover have "w_log (fold (\<lambda>c. perform0 (CCcStop (jc_cc c)) (n_cc_stop N (jc_cc c))) js W)
      = w_log W @ map (\<lambda>c. CCcStop (jc_cc c)) js" for W
    by (induction js arbitrary: W) simp_all
  ultimately show ?thesis by (simp add: close_handles_def)
qed

lemma drain_handles_log:
  "w_log (drain_handles N hs js W) = w_log W @ map CDrainSub hs @ map (\<lambda>c. CCcDrain (jc_cc c)) js"
proof -
  have "w_log (fold (\<lambda>h. perform0 (CDrainSub h) (n_drain_sub N h)) hs W) = w_log W @ map CDrainSub hs" for W
    by (induction hs arbitrary: W) simp_all
  moreover have "w_log (fold (\<lambda>c. perform0 (CCcDrain (jc_cc c)) (n_cc_drain N (jc_cc c))) js W)
      = w_log W @ map (\<lambda>c. CCcDrain (jc_cc c)) js" for W
    by (induction js arbitrary: W) simp_all
  ultimately show ?thesis by (simp add: drain_handles_def)
qed

lemma handles_map:
  "handles closed_sub (map CUnsubscribe hs) = hs" "handles closed_cc (map CUnsubscribe hs) = []"
  "handles opened_sub (map CUnsubscribe hs) = []" "handles opened_cc (map CUnsubscribe hs) = []"
  "handles closed_cc (map (\<lambda>c. CCcStop (jc_cc c)) js) = map jc_cc js"
  "handles closed_sub (map (\<lambda>c. CCcStop (jc_cc c)) js) = []"
  "handles opened_sub (map (\<lambda>c. CCcStop (jc_cc c)) js) = []"
  "handles opened_cc (map (\<lambda>c. CCcStop (jc_cc c)) js) = []"
  by (induction hs; simp)+ (induction js; simp)+

section \<open>What Start and Stop do\<close>

lemma check_startable_cases:
  "check_startable N r ctx W = (None, W') \<Longrightarrow> r_state r = StateCreated"
  by (auto simp: check_startable_def split: runtime_state.splits)

lemma start_refused:
  "r_state r = StateRunning \<Longrightarrow> start N r ctx W = (Some ErrAlreadyStarted, r, W)"
  "r_state r = StateStopped \<Longrightarrow> start N r ctx W = (Some ErrStopped, r, W)"
  by (simp_all add: start_def check_startable_def)

text \<open>The first handler context of a \<open>Start\<close> and the runtime it opens its receivers in.\<close>

definition begun :: "runtime \<Rightarrow> runtime" where
  "begun r = r\<lparr>r_handlerCtx := Suc (r_handlerCtx r), r_accepting := True\<rparr>"

lemma begun_fields [simp]:
  "r_config (begun r) = r_config r" "r_client (begun r) = r_client r" "r_state (begun r) = r_state r"
  "r_subs (begun r) = r_subs r" "r_consumers (begun r) = r_consumers r" "r_running (begun r) = r_running r"
  "r_accepting (begun r)" "r_missing (begun r) = r_missing r" "r_handlerCtx (begun r) = Suc (r_handlerCtx r)"
  "r_cancelled (begun r) = r_cancelled r" "r_watching (begun r) = r_watching r"
  by (simp_all add: begun_def)

lemma open_receivers_added:
  assumes "open_receivers N ctx g bs W = ((hs, js, err), W')"
  shows "\<exists>cs. added W W' cs \<and> handles opened_sub cs = hs \<and> handles opened_cc cs = map jc_cc js \<and>
    handles closed_sub cs = [] \<and> handles closed_cc cs = []"
proof -
  obtain e W1 where c: "check_endpoint_streams N ctx bs W = (e, W1)" by force
  obtain cs where cs: "added W W1 cs" "list_all is_lookup cs"
    using check_endpoint_streams_added [of W N ctx bs] c by auto
  note none = lookups_no_handles [OF cs(2)]
  show ?thesis
  proof (cases e)
    case (Some x)
    with assms c cs(1) none show ?thesis by (auto simp: open_receivers_def intro!: exI [of _ cs])
  next
    case None
    with assms c have "open_loop N ctx g 0 bs W1 = ((hs, js, err), W')" by (simp add: open_receivers_def)
    from open_loop_added [OF this] obtain ds where ds: "added W1 W' ds" "handles opened_sub ds = hs"
      "handles opened_cc ds = map jc_cc js" "handles closed_sub ds = []" "handles closed_cc ds = []" by blast
    show ?thesis using added_trans [OF cs(1) ds(1)] ds none by (intro exI [of _ "cs @ ds"]) simp
  qed
qed

text \<open>How a \<open>Start\<close> can end: refused, aborted after it opened some receivers, or running.\<close>

lemma start_ends:
  assumes "start N r ctx W = (e, r', W')"
  obtains (refused) x where "e = Some x" "r' = r" "added W W' []"
  | (aborted) x hs and js :: "js_consumer list" and cs where "e = Some x" "r_state r = StateCreated" "\<not> cl_closed (r_client r)"
      "r' = (begun r)\<lparr>r_cancelled := Suc (r_handlerCtx r) # r_cancelled r, r_accepting := False\<rparr>"
      "added W W' (cs @ map CUnsubscribe hs @ map (\<lambda>c. CCcStop (jc_cc c)) js)"
      "handles opened_sub cs = hs" "handles opened_cc cs = map jc_cc js"
      "handles closed_sub cs = []" "handles closed_cc cs = []"
  | (started) hs js cs W1 W2 where "e = None" "r_state r = StateCreated" "\<not> cl_closed (r_client r)"
      "open_receivers N ctx (Suc (r_handlerCtx r)) (rc_subscriptions (r_config r)) W1 = ((hs, js, None), W2)"
      "r' = (begun r)\<lparr>r_subs := hs, r_consumers := js,
        r_watching := (if js \<noteq> [] then Suc (r_handlerCtx r) # r_watching r else r_watching r),
        r_state := StateRunning, r_running := True\<rparr>"
      "added W W' (cs @ [CFlush])"
      "handles opened_sub cs = hs" "handles opened_cc cs = map jc_cc js"
      "handles closed_sub cs = []" "handles closed_cc cs = []" "added W2 W' [CFlush]"
proof -
  let ?g = "Suc (r_handlerCtx r)"
  obtain c W1 where c: "check_startable N r ctx W = (c, W1)" by force
  note a1 = check_startable_added [OF c]
  show ?thesis
  proof (cases c)
    case (Some x)
    with assms c a1 show ?thesis by (intro refused [of x]) (simp_all add: start_def)
  next
    case None
    with c have created: "r_state r = StateCreated" by (simp add: check_startable_cases)
    show ?thesis
    proof (cases "cl_closed (r_client r)")
      case True
      with assms c None a1 show ?thesis by (intro refused [of ErrClosed]) (simp_all add: start_def connections_def)
    next
      case open': False
      obtain hs js err W2 where o: "open_receivers N ctx ?g (rc_subscriptions (r_config r)) W1 = ((hs, js, err), W2)"
        by (metis prod.exhaust)
      from open_receivers_added [OF o] obtain cs where cs: "added W1 W2 cs" "handles opened_sub cs = hs"
        "handles opened_cc cs = map jc_cc js" "handles closed_sub cs = []" "handles closed_cc cs = []" by blast
      note a2 = added_trans [OF a1 cs(1), simplified]
      have close_added: "added V (close_handles N hs js V) (map CUnsubscribe hs @ map (\<lambda>c. CCcStop (jc_cc c)) js)" for V
        by (simp add: added_def close_handles_log)
      show ?thesis
      proof (cases err)
        case (Some x)
        with assms c None open' o have "e = Some x" "r' = (begun r)\<lparr>r_cancelled := ?g # r_cancelled r, r_accepting := False\<rparr>"
          "W' = close_handles N hs js W2"
          by (simp_all add: start_def connections_def abort_start_def begun_def)
        with aborted [of x cs hs js] created open' added_trans [OF a2 close_added] cs show ?thesis by simp
      next
        case nerr: None
        obtain f W3 where f: "flush N ctx W2 = (f, W3)" by force
        note a3 = added_trans [OF a2 flush_added [OF f]]
        show ?thesis
        proof (cases f)
          case (Some x)
          with assms c None nerr open' o f have "e = Some (External x)"
            "r' = (begun r)\<lparr>r_cancelled := ?g # r_cancelled r, r_accepting := False\<rparr>" "W' = close_handles N hs js W3"
            by (simp_all add: start_def connections_def abort_start_def begun_def)
          with aborted [of "External x" "cs @ [CFlush]" hs js] created open' added_trans [OF a3 close_added] cs
          show ?thesis by simp
        next
          case nf: None
          with assms c None nerr open' o f have "e = None" "r' = (begun r)\<lparr>r_subs := hs, r_consumers := js,
              r_watching := (if js \<noteq> [] then ?g # r_watching r else r_watching r),
              r_state := StateRunning, r_running := True\<rparr>" "W' = W3"
            by (simp_all add: start_def connections_def begun_def Let_def split: if_splits)
          with started [of W1 hs js W2 cs] created open' o nerr a3 cs flush_added [OF f] show ?thesis by simp
        qed
      qed
    qed
  qed
qed

text \<open>C15: a \<open>Start\<close> that fails either changes nothing, neither the runtime, which keeps the
  receivers it has when it runs already, nor the connection; or it was on a created runtime, of
  which it has changed only that one more handler context was made and is cancelled and that it
  does not accept, and it has unsubscribed and stopped exactly what it opened.  (An entry of
  \<open>r.missing\<close> that a consumer's error handler makes while \<open>Start\<close> runs is not undone.)\<close>

theorem failed_start:
  assumes "start N r ctx W = (Some e, r', W')"
  shows "(r' = r \<and> added W W' [] \<or>
      r_state r = StateCreated \<and> r' = r\<lparr>r_handlerCtx := Suc (r_handlerCtx r),
        r_cancelled := Suc (r_handlerCtx r) # r_cancelled r, r_accepting := False\<rparr>) \<and>
    (\<exists>cs. added W W' cs \<and> handles opened_sub cs = handles closed_sub cs \<and>
      handles opened_cc cs = handles closed_cc cs)"
  using assms
proof (cases rule: start_ends)
  case (refused x)
  then show ?thesis by (auto intro: exI [of _ "[]"])
next
  case (aborted x hs js cs)
  then show ?thesis by (auto simp: handles_map begun_def intro!: exI)
qed simp

lemma started_receivers:
  assumes "open_receivers N ctx g bs W = ((hs, js, None), W')"
  shows "length hs + length js = length bs \<and> map jc_index js = js_indices 0 bs \<and>
    (\<forall>c \<in> set js. jc_gen c = g \<and> jc_sub c = bs ! jc_index c)"
proof -
  from assms obtain V where "open_loop N ctx g 0 bs V = ((hs, js, None), W')"
    by (auto simp: open_receivers_def split: prod.splits option.splits)
  from open_loop_complete [OF this] show ?thesis by simp
qed

text \<open>C16: a \<open>Start\<close> that succeeds was on a created runtime with an open client, and ends with
  one receiver for each subscription: the consumers belong to the subscriptions with a stream,
  in order and under this \<open>Start\<close>'s context; what was opened is what is kept, nothing was
  released, and the flush came last.\<close>

theorem successful_start:
  assumes "start N r ctx W = (None, r', W')"
  shows "r_state r = StateCreated \<and> \<not> cl_closed (r_client r) \<and> r_state r' = StateRunning \<and> r_running r' \<and>
    r_accepting r' \<and> r_handlerCtx r' = Suc (r_handlerCtx r) \<and>
    length (r_subs r') + length (r_consumers r') = length (rc_subscriptions (r_config r)) \<and>
    map jc_index (r_consumers r') = js_indices 0 (rc_subscriptions (r_config r)) \<and>
    (\<forall>c \<in> set (r_consumers r'). jc_gen c = r_handlerCtx r' \<and>
      jc_sub c = rc_subscriptions (r_config r) ! jc_index c) \<and>
    (\<exists>cs. added W W' (cs @ [CFlush]) \<and> handles opened_sub cs = r_subs r' \<and>
      handles opened_cc cs = map jc_cc (r_consumers r') \<and> handles closed_sub cs = [] \<and> handles closed_cc cs = [])"
  using assms
proof (cases rule: start_ends)
  case (started hs js cs W1 W2)
  with started_receivers [OF started(4)] show ?thesis by auto
qed simp_all

text \<open>The boot check fails at a subject that a stream covers.\<close>

lemma covered_check:
  assumes "b \<in> set bs" and "sb_endpoint b \<noteq> None"
    and covered: "\<And>w. isl (fst (n_stream_by_subject N ctx (sb_subject b) w)) = False"
    and jetstream: "\<And>s w e. fst (n_stream_by_subject N ctx s w) = Inl e \<Longrightarrow>
      \<not> errors_is e SNoResponders \<and> \<not> errors_is e SJetStreamNotEnabled \<and> \<not> errors_is e SJetStreamNotEnabledForAccount"
  shows "fst (check_endpoint_streams N ctx bs W) \<noteq> None"
  using assms(1)
proof (induction bs arbitrary: W)
  case (Cons a bs)
  show ?case
  proof (cases "sb_endpoint a")
    case None
    with Cons assms(2) show ?thesis by auto
  next
    case (Some h)
    obtain r W1 where p: "perform (\<lambda>_. CStreamBySubject (sb_subject a)) (n_stream_by_subject N ctx (sb_subject a)) W
        = (r, W1)" by force
    then have r: "r = fst (n_stream_by_subject N ctx (sb_subject a) (w_ext W))"
      by (auto simp: perform_def split: prod.splits)
    show ?thesis
    proof (cases r)
      case (Inr name)
      with Some p show ?thesis by simp
    next
      case (Inl e)
      with r jetstream [of "sb_subject a" "w_ext W" e] have nj: "\<not> errors_is e SNoResponders"
        "\<not> errors_is e SJetStreamNotEnabled" "\<not> errors_is e SJetStreamNotEnabledForAccount" by simp_all
      from Inl r covered [of "w_ext W"] have "a \<noteq> b" by (metis isl_def)
      with Cons have "fst (check_endpoint_streams N ctx bs W1) \<noteq> None" by simp
      with Some p Inl nj show ?thesis by simp
    qed
  qed
qed simp

text \<open>On a server with JetStream, \<open>Start\<close> fails when a stream covers the subject of one of
  its endpoints, and it fails before it has subscribed to anything or made a consumer.\<close>

theorem covered_route_stops_start:
  assumes "b \<in> set (rc_subscriptions (r_config r))" and "sb_endpoint b \<noteq> None"
    and "\<And>w. isl (fst (n_stream_by_subject N ctx (sb_subject b) w)) = False"
    and "\<And>s w e. fst (n_stream_by_subject N ctx s w) = Inl e \<Longrightarrow>
      \<not> errors_is e SNoResponders \<and> \<not> errors_is e SJetStreamNotEnabled \<and> \<not> errors_is e SJetStreamNotEnabledForAccount"
  shows "fst (start N r ctx W) \<noteq> None \<and>
    (\<exists>cs. added W (snd (snd (start N r ctx W))) cs \<and> list_all is_lookup cs)"
proof -
  obtain c W1 where c: "check_startable N r ctx W = (c, W1)" by force
  note a1 = check_startable_added [OF c]
  obtain e W2 where k: "check_endpoint_streams N ctx (rc_subscriptions (r_config r)) W1 = (e, W2)" by force
  obtain cs where cs: "added W1 W2 cs" "list_all is_lookup cs"
    using check_endpoint_streams_added [of W1 N ctx "rc_subscriptions (r_config r)"] k by auto
  have "e \<noteq> None" using covered_check [OF assms, where W = W1] k by simp
  then obtain x where "e = Some x" by blast
  with c k cs(2) a1 added_trans [OF a1 cs(1)] show ?thesis
    by (cases c; cases "connections (r_client r)")
      (auto simp: start_def open_receivers_def abort_start_def close_handles_def intro: exI [of _ "[]"] exI [of _ cs])
qed

lemma flush_on_stop_added:
  "\<exists>cs. added W (snd (flush_on_stop N cl ctx W)) cs \<and> set cs \<subseteq> {CFlush}"
proof -
  obtain e W1 where f: "flush N ctx W = (e, W1)" by force
  show ?thesis
    using flush_added [OF f] f
    by (cases "connections cl"; cases e) (auto simp: flush_on_stop_def added_refl intro: exI [of _ "[]"] exI [of _ "[CFlush]"])
qed

lemma abandon_added: "\<exists>cs. added W (snd (abandon N c m D W)) cs"
  using abandon_ok [of N c m D W] unfolding added_def by blast

lemma abandon_all_added: "abandon_all N info is D W = (r, W') \<Longrightarrow> \<exists>cs. added W W' cs"
proof (induction "is" arbitrary: D W r W')
  case Nil
  then show ?case by (auto intro: exI [of _ "[]"] simp: added_refl)
next
  case (Cons i "is")
  obtain l1 D1 W1 where a: "abandon N (fst (info i)) (snd (info i)) D W = (Inr (l1, D1), W1)"
    using abandon_ok [of N "fst (info i)" "snd (info i)" D W] by (metis prod.collapse)
  obtain cs where cs: "added W W1 cs" using abandon_added [of W N "fst (info i)" "snd (info i)" D] a by auto
  obtain r2 W2 where b: "abandon_all N info is D1 W1 = (r2, W2)" by force
  obtain ds where "added W1 W2 ds" using Cons.IH [OF b] by blast
  with added_trans [OF cs this] a b Cons.prems show ?case
    by (cases r2) (auto split: prod.splits)
qed

lemma abandon_pending_added: "abandon_pending N info D W = (r, W') \<Longrightarrow> \<exists>cs. added W W' cs"
  unfolding abandon_pending_def by (rule abandon_all_added)

text \<open>The runtime between the drain and the end of a \<open>Stop\<close>, and how the \<open>Stop\<close> ends.\<close>

definition stop_begun :: "runtime \<Rightarrow> runtime" where
  "stop_begun r = r\<lparr>r_state := StateStopped, r_running := False, r_accepting := False,
    r_cancelled := r_handlerCtx r # r_cancelled r\<rparr>"

lemma stop_ends:
  assumes "r_state r = StateRunning"
    and "stop N info r ctx drainErr D W = (Inr (res, logs, r', D'), W')"
  obtains V es where "added (drain_handles N (r_subs r) (r_consumers r) W) V es" "res = drainErr"
    "W' = snd (close N (r_client r) V)"
    "r' = (stop_begun r)\<lparr>r_client := fst (close N (r_client r) V), r_subs := [], r_consumers := []\<rparr>"
proof (cases drainErr)
  case None
  let ?W1 = "drain_handles N (r_subs r) (r_consumers r) W"
  obtain l V where f: "flush_on_stop N (r_client r) ctx ?W1 = (l, V)" by force
  obtain es where "added ?W1 V es" using flush_on_stop_added [of ?W1 N "r_client r" ctx] f by auto
  with assms None f show ?thesis
    by (intro that [of V es]) (auto simp: stop_def stop_begun_def Let_def split: prod.splits)
next
  case (Some x)
  let ?W1 = "drain_handles N (r_subs r) (r_consumers r) W"
  obtain y V where p: "abandon_pending N info D ?W1 = (y, V)" by force
  obtain es where "added ?W1 V es" using abandon_pending_added [OF p] by blast
  with assms Some p show ?thesis
    by (intro that [of V es]) (cases y; auto simp: stop_def stop_begun_def Let_def split: prod.splits)+
qed

lemma close_closes: "cl_closed (fst (close N cl W))"
  by (simp add: close_def)

lemma close_added: "added W (snd (close N cl W)) (if cl_closed cl then [] else [CClose])"
  by (simp add: close_def added_def)

text \<open>C17: \<open>Stop\<close> on a running runtime first drains every subscription and every consumer, and
  once it returns the runtime is stopped, refuses receivers and requests, has no receiver and a
  cancelled handler context; it returns what ended its wait, and a later \<open>Stop\<close> or
  \<open>Start\<close> changes nothing.\<close>

theorem stop_ends_runtime:
  assumes "r_state r = StateRunning"
    and "stop N info r ctx drainErr D W = (Inr (res, logs, r', D'), W')"
  shows "res = drainErr \<and> r_state r' = StateStopped \<and> \<not> r_running r' \<and> \<not> r_accepting r' \<and>
    r_subs r' = [] \<and> r_consumers r' = [] \<and> r_handlerCtx r' \<in> set (r_cancelled r') \<and> cl_closed (r_client r') \<and>
    (\<exists>cs. added W W' (map CDrainSub (r_subs r) @ map (\<lambda>c. CCcDrain (jc_cc c)) (r_consumers r) @ cs) \<and>
      (\<not> cl_closed (r_client r) \<longrightarrow> last cs = CClose)) \<and>
    stop N info r' later why E X = (Inr (None, [], r', E), X) \<and>
    start N r' later X = (Some ErrStopped, r', X) \<and> get_receiver env r' t = None"
proof -
  have d: "added W (drain_handles N (r_subs r) (r_consumers r) W)
      (map CDrainSub (r_subs r) @ map (\<lambda>c. CCcDrain (jc_cc c)) (r_consumers r))"
    by (simp add: added_def drain_handles_log)
  from stop_ends [OF assms] obtain V es where V: "added (drain_handles N (r_subs r) (r_consumers r) W) V es"
    "res = drainErr" "W' = snd (close N (r_client r) V)"
    "r' = (stop_begun r)\<lparr>r_client := fst (close N (r_client r) V), r_subs := [], r_consumers := []\<rparr>" .
  have l: "\<exists>cs. added W W' (map CDrainSub (r_subs r) @ map (\<lambda>c. CCcDrain (jc_cc c)) (r_consumers r) @ cs) \<and>
      (\<not> cl_closed (r_client r) \<longrightarrow> last cs = CClose)"
    using added_trans [OF added_trans [OF d V(1)] close_added] V(3)
    by (intro exI [of _ "es @ (if cl_closed (r_client r) then [] else [CClose])"]) simp
  show ?thesis using V(2,4) close_closes l
    by (simp add: stop_begun_def stop_def start_refused get_receiver_def)
qed

section \<open>The life of a runtime\<close>

text \<open>
  What an application can do to a runtime, in any order: \<open>Start\<close>, \<open>Stop\<close>, and a
  \<open>Close\<close> of the client it was built from; meanwhile \<open>nats.go\<close> reports consumers
  missing and \<open>watchMissing\<close> finds them again, which changes \<open>r_missing\<close>.  The states are
  those between two calls.
\<close>

inductive lifecycle :: "'w nats \<Rightarrow> runtime \<Rightarrow> runtime \<Rightarrow> bool" for N :: "'w nats" where
  life_start: "start N r ctx W = (e, r', W') \<Longrightarrow> lifecycle N r r'"
| life_stop: "stop N info r ctx drainErr D W = (Inr (res, logs, r', D'), W') \<Longrightarrow> lifecycle N r r'"
| life_close: "close N (r_client r) W = (cl, W') \<Longrightarrow> lifecycle N r (r\<lparr>r_client := cl\<rparr>)"
| life_missing: "lifecycle N r (r\<lparr>r_missing := missing\<rparr>)"

inductive_cases lifecycle_elim [elim]: "lifecycle N r r'"

definition fresh :: "runtime_config \<Rightarrow> runtime \<Rightarrow> bool" where
  "fresh rc r \<longleftrightarrow> (\<exists>cl. r = created rc cl)"

text \<open>The invariant: what each state says of the other fields.\<close>

definition runtime_ok :: "runtime_config \<Rightarrow> runtime \<Rightarrow> bool" where
  "runtime_ok rc r \<longleftrightarrow>
    r_config r = rc \<and> r_running r = (r_state r = StateRunning) \<and> r_accepting r = (r_state r = StateRunning) \<and>
    (\<forall>g \<in> set (r_cancelled r). g \<le> r_handlerCtx r) \<and>
    (0 < r_handlerCtx r \<longrightarrow> (r_handlerCtx r \<in> set (r_cancelled r)) = (r_state r \<noteq> StateRunning)) \<and>
    (if r_state r = StateRunning
     then 0 < r_handlerCtx r \<and> length (r_subs r) + length (r_consumers r) = length (rc_subscriptions rc) \<and>
       map jc_index (r_consumers r) = js_indices 0 (rc_subscriptions rc) \<and>
       (\<forall>c \<in> set (r_consumers r). jc_gen c = r_handlerCtx r \<and> jc_sub c = rc_subscriptions rc ! jc_index c)
     else r_subs r = [] \<and> r_consumers r = [])"

lemma runtime_ok_start:
  assumes "runtime_ok rc r" and "start N r ctx W = (e, r', W')"
  shows "runtime_ok rc r'"
  using assms(2)
proof (cases rule: start_ends)
  case refused
  with assms(1) show ?thesis by simp
next
  case aborted
  with assms(1) show ?thesis by (auto simp: runtime_ok_def le_SucI)
next
  case (started hs js cs W1 W2)
  have "Suc (r_handlerCtx r) \<notin> set (r_cancelled r)" using assms(1) by (auto simp: runtime_ok_def)
  with assms(1) started started_receivers [OF started(4)] show ?thesis by (auto simp: runtime_ok_def le_SucI)
qed

lemma runtime_ok_stop:
  assumes "runtime_ok rc r" and "stop N info r ctx drainErr D W = (Inr (res, logs, r', D'), W')"
  shows "runtime_ok rc r'"
proof (cases "r_state r = StateRunning")
  case False
  with assms show ?thesis by (simp add: stop_def)
next
  case True
  obtain V where "r' = (stop_begun r)\<lparr>r_client := fst (close N (r_client r) V), r_subs := [], r_consumers := []\<rparr>"
    using stop_ends [OF True assms(2)] .
  with assms(1) True show ?thesis by (auto simp: runtime_ok_def stop_begun_def)
qed

interpretation runtime_life: transition_invariant "fresh rc" "lifecycle N" "runtime_ok rc" for rc N
proof
  fix r assume "fresh rc r"
  then show "runtime_ok rc r" by (auto simp: fresh_def created_def runtime_ok_def)
next
  fix r r' assume ok: "runtime_ok rc r" and "lifecycle N r r'"
  from this(2) show "runtime_ok rc r'"
  proof cases
    case life_start
    with ok show ?thesis by (simp add: runtime_ok_start)
  next
    case life_stop
    with ok show ?thesis by (simp add: runtime_ok_stop)
  qed (use ok in \<open>simp_all add: runtime_ok_def\<close>)
qed

lemma lifecycle_forward: "lifecycle N r r' \<Longrightarrow> r_state r \<le> r_state r'"
proof (induction rule: lifecycle.induct)
  case (life_start r ctx W e r' W')
  then show ?case by (cases rule: start_ends) (simp_all add: less_eq_runtime_state_def)
next
  case (life_stop info r ctx drainErr D W res logs r' D' W')
  show ?case
  proof (cases "r_state r = StateRunning")
    case True
    obtain V where "r' = (stop_begun r)\<lparr>r_client := fst (close N (r_client r) V), r_subs := [], r_consumers := []\<rparr>"
      using stop_ends [OF True life_stop] .
    with True show ?thesis by (simp add: stop_begun_def less_eq_runtime_state_def)
  qed (use life_stop in \<open>simp add: stop_def\<close>)
qed simp_all

lemma lifecycle_steps_forward: "(lifecycle N)\<^sup>*\<^sup>* r r' \<Longrightarrow> r_state r \<le> r_state r'"
  by (induction rule: rtranclp.induct) (auto dest: lifecycle_forward)

text \<open>C14: whatever is called on a runtime and in whatever order, between two calls of \<open>Start\<close> and
  \<open>Stop\<close>, when none is under way, it is running exactly if it accepts, has a receiver for every
  subscription exactly if it runs, and none otherwise; its handler context, once made, is
  cancelled exactly if it does not run; and its state never goes back.  (While a \<open>Stop\<close> drains,
  the runtime is no longer running but still accepts under a live context, and while a \<open>Start\<close>
  opens its receivers it accepts before it runs; \<open>Concurrency\<close> has these states.)\<close>

theorem runtime_life_invariant:
  assumes "reach (fresh rc) (lifecycle N) r" and "(lifecycle N)\<^sup>*\<^sup>* r r'"
  shows "r_state r \<le> r_state r' \<and> r_running r' = (r_state r' = StateRunning) \<and>
    r_accepting r' = (r_state r' = StateRunning) \<and>
    (0 < r_handlerCtx r' \<longrightarrow> (r_handlerCtx r' \<in> set (r_cancelled r')) = (r_state r' \<noteq> StateRunning)) \<and>
    length (r_subs r') + length (r_consumers r') =
      (if r_state r' = StateRunning then length (rc_subscriptions rc) else 0)"
  using lifecycle_steps_forward [OF assms(2)] runtime_life.steps_inv [OF assms(2) runtime_life.reach_inv [OF assms(1)]]
  by (auto simp: runtime_ok_def split: if_splits)

section \<open>The receiver of a target\<close>

lemma js_indices_mem: "k \<in> set (js_indices ix bs) \<longleftrightarrow> ix \<le> k \<and> k - ix < length bs \<and> sb_js (bs ! (k - ix)) \<noteq> None"
proof (induction bs arbitrary: ix)
  case (Cons b bs)
  show ?case
  proof (cases "k = ix")
    case False
    then have "k - ix < length (b # bs) \<longleftrightarrow> k - Suc ix < length bs" if "ix \<le> k" using that by auto
    moreover have "(b # bs) ! (k - ix) = bs ! (k - Suc ix)" if "ix \<le> k"
      using False that by (simp add: nth_Cons' Suc_diff_Suc)
    ultimately show ?thesis using Cons.IH [of "Suc ix"] False by (auto simp: js_indices_Cons)
  qed (use Cons.IH [of "Suc ix"] in \<open>auto simp: js_indices_Cons\<close>)
qed (simp add: js_indices_def)

lemma consumer_for_snoc: "consumer_for (cs @ [c]) ix = (if jc_index c = ix then Some c else consumer_for cs ix)"
  by (simp add: consumer_for_def)

lemma consumer_for_None: "consumer_for cs ix = None \<longleftrightarrow> ix \<notin> set (map jc_index cs)"
  by (induction cs rule: rev_induct) (auto simp: consumer_for_snoc consumer_for_def)

lemma consumer_for_Some: "consumer_for cs ix = Some c \<Longrightarrow> c \<in> set cs \<and> jc_index c = ix"
proof (induction cs rule: rev_induct)
  case Nil
  then show ?case by (simp add: consumer_for_def)
next
  case (snoc d cs)
  then show ?case by (auto simp: consumer_for_snoc split: if_splits)
qed

lemma find_receiver_Some:
  assumes "find_receiver env cl cs t ix bs = Some rv"
  obtains i where "i < length bs" "env_target_equal env (sb_target (bs ! i)) t"
    "\<forall>j < i. \<not> env_target_equal env (sb_target (bs ! j)) t"
    "rv = \<lparr>rv_client = cl, rv_sub = bs ! i, rv_consumer = consumer_for cs (ix + i)\<rparr>"
  using assms
proof (induction bs arbitrary: ix thesis)
  case (Cons b bs)
  show ?case
  proof (cases "env_target_equal env (sb_target b) t")
    case True
    with Cons.prems show ?thesis by (intro Cons.prems(1) [of 0]) auto
  next
    case False
    with Cons.prems(2) have "find_receiver env cl cs t (Suc ix) bs = Some rv" by simp
    then obtain i where "i < length bs" "env_target_equal env (sb_target (bs ! i)) t"
      "\<forall>j < i. \<not> env_target_equal env (sb_target (bs ! j)) t"
      "rv = \<lparr>rv_client = cl, rv_sub = bs ! i, rv_consumer = consumer_for cs (Suc ix + i)\<rparr>"
      using Cons.IH by blast
    with False show ?thesis by (intro Cons.prems(1) [of "Suc i"]) (auto simp: less_Suc_eq_0_disj)
  qed
qed simp

text \<open>C25: \<open>Receiver\<close> answers only while the runtime runs, with the first subscription whose
  target equals the one asked for, and with the consumer this runtime pulls that subscription
  from exactly when it has a stream.\<close>

theorem receiver_of_target:
  assumes "reach (fresh rc) (lifecycle N) r" and "get_receiver env r t = Some rv"
  shows "r_state r = StateRunning \<and> rv_client rv = r_client r \<and>
    (\<exists>i < length (rc_subscriptions rc). rv_sub rv = rc_subscriptions rc ! i \<and>
      env_target_equal env (receiver_target rv) t \<and>
      (\<forall>j < i. \<not> env_target_equal env (sb_target (rc_subscriptions rc ! j)) t)) \<and>
    (receiver_consumer rv = None \<longleftrightarrow> sb_js (rv_sub rv) = None) \<and>
    (\<forall>c. rv_consumer rv = Some c \<longrightarrow> c \<in> set (r_consumers r) \<and> jc_sub c = rv_sub rv)"
proof -
  have run: "r_state r = StateRunning"
    and f: "find_receiver env (r_client r) (r_consumers r) t 0 (rc_subscriptions (r_config r)) = Some rv"
    using assms(2) by (auto simp: get_receiver_def split: if_splits)
  from runtime_life.reach_inv [OF assms(1)] run have ok: "r_config r = rc"
    "map jc_index (r_consumers r) = js_indices 0 (rc_subscriptions rc)"
    "\<forall>c \<in> set (r_consumers r). jc_sub c = rc_subscriptions rc ! jc_index c"
    by (simp_all add: runtime_ok_def)
  obtain i where i: "i < length (rc_subscriptions rc)"
    "env_target_equal env (sb_target (rc_subscriptions rc ! i)) t"
    "\<forall>j < i. \<not> env_target_equal env (sb_target (rc_subscriptions rc ! j)) t"
    "rv = \<lparr>rv_client = r_client r, rv_sub = rc_subscriptions rc ! i, rv_consumer = consumer_for (r_consumers r) i\<rparr>"
    using find_receiver_Some [OF f [unfolded ok(1)]] by auto
  have "consumer_for (r_consumers r) i = None \<longleftrightarrow> sb_js (rc_subscriptions rc ! i) = None"
    unfolding consumer_for_None ok(2) using i(1) by (simp add: js_indices_mem)
  with run i ok(3) show ?thesis
    by (auto simp: receiver_target_def receiver_consumer_def dest!: consumer_for_Some)
qed


section \<open>Witnesses\<close>

definition sample_life :: runtime where
  "sample_life = created \<lparr>rc_logger = 0, rc_concurrency = 4,
     rc_subscriptions = [sample_endpoint_sub, sample_js_sub]\<rparr> sample_client"

definition sample_running :: runtime where
  "sample_running = (fst (snd (start sample_nats sample_life ctx_background (init_world 0))))"

definition sample_unreachable :: "nat nats" where
  "sample_unreachable = sample_nats\<lparr>n_flush := \<lambda>_ w. (Some (ExtErr [] ''nats: timeout''), w)\<rparr>"

definition sample_covering :: "nat nats" where
  "sample_covering = sample_nats\<lparr>n_stream_by_subject := \<lambda>_ _ w. (Inr ''ORDERS'', w)\<rparr>"

lemmas sample_run_simps = start_def check_startable_def created_def ctx_background_def ctx_err_def clock_def
  connections_def sample_client_def open_receivers_def sample_endpoint_sub_def subscribe_def perform_def
  sample_nats_def flush_def init_world_def errors_is_def abort_start_def close_handles_def perform0_def
  consume_def open_consumer_def sample_js_sub_def sample_subscriber_sub_def sample_life_def
  lookup_consumer_def ordered_def ordered_consumer_def sample_js_settings_def Let_def

lemma sample_started:
  "fst (start sample_nats sample_life ctx_background (init_world 0)) = None"
  "r_state sample_running = StateRunning" "r_subs sample_running = [0]"
  "map jc_cc (r_consumers sample_running) = [1]" "r_client sample_running = sample_client"
  by (simp_all add: sample_running_def sample_run_simps)

lemma sample_aborted:
  "fst (start sample_unreachable sample_life ctx_background (init_world 0)) = Some (External (ExtErr [] ''nats: timeout''))"
  "\<exists>cs. w_log (snd (snd (start sample_unreachable sample_life ctx_background (init_world 0))))
    = cs @ [CFlush, CUnsubscribe 0, CCcStop 1]"
  by (simp_all add: sample_unreachable_def sample_run_simps)

lemma sample_reached: "reach (fresh (r_config sample_life)) (lifecycle sample_nats) sample_running"
proof (rule reach_step)
  show "reach (fresh (r_config sample_life)) (lifecycle sample_nats) sample_life"
    by (rule reach_init) (auto simp: fresh_def sample_life_def created_def)
  show "lifecycle sample_nats sample_life sample_running"
    by (rule life_start [where ctx = ctx_background and W = "init_world 0"]) (simp add: sample_running_def prod_eq_iff)
qed

theorem failed_start_witness:
  "\<exists>e r' W'. start sample_unreachable sample_life ctx_background (init_world 0) = (Some e, r', W') \<and>
    r' = sample_life\<lparr>r_handlerCtx := 1, r_cancelled := [1]\<rparr> \<and> (\<exists>cs. w_log W' = cs @ [CFlush, CUnsubscribe 0, CCcStop 1])"
proof -
  obtain r' W' where s: "start sample_unreachable sample_life ctx_background (init_world 0)
      = (Some (External (ExtErr [] ''nats: timeout'')), r', W')"
    using sample_aborted(1) by (metis prod.collapse)
  from sample_aborted(2) s obtain cs where cs: "w_log W' = cs @ [CFlush, CUnsubscribe 0, CCcStop 1]" by auto
  then have "\<not> added (init_world 0) W' []" by (simp add: added_def init_world_def)
  with failed_start [OF s] have "r' = sample_life\<lparr>r_handlerCtx := 1, r_cancelled := [1]\<rparr>"
    by (auto simp: sample_life_def created_def)
  with s cs show ?thesis by blast
qed

theorem successful_start_witness:
  "\<exists>r' W'. start sample_nats sample_life ctx_background (init_world 0) = (None, r', W') \<and>
    length (r_subs r') + length (r_consumers r') = 2 \<and> map jc_index (r_consumers r') = [1]"
proof -
  obtain r' W' where s: "start sample_nats sample_life ctx_background (init_world 0) = (None, r', W')"
    using sample_started(1) by (metis prod.collapse)
  from successful_start [OF s] s show ?thesis
    by (simp add: sample_life_def created_def js_indices_Cons sample_endpoint_sub_def sample_js_sub_def)
      (simp add: js_indices_def)
qed

theorem covered_route_stops_start_witness:
  "fst (start sample_covering sample_life ctx_background (init_world 0)) \<noteq> None"
proof -
  have "sample_endpoint_sub \<in> set (rc_subscriptions (r_config sample_life))" "sb_endpoint sample_endpoint_sub \<noteq> None"
    by (simp_all add: sample_life_def created_def sample_endpoint_sub_def)
  from covered_route_stops_start [OF this, of sample_covering ctx_background "init_world 0"] show ?thesis
    by (simp add: sample_covering_def sample_nats_def)
qed

theorem stop_ends_runtime_witness:
  "\<exists>logs r' D' W'. stop sample_nats sample_info sample_running ctx_background None sample_deliveries (init_world 0)
      = (Inr (None, logs, r', D'), W') \<and> r_state r' = StateStopped \<and> r_consumers r' = [] \<and> cl_closed (r_client r') \<and>
    (\<exists>cs. w_log W' = CDrainSub 0 # CCcDrain 1 # cs)"
proof -
  obtain logs r' D' W' where s: "stop sample_nats sample_info sample_running ctx_background None sample_deliveries
      (init_world 0) = (Inr (None, logs, r', D'), W')"
    by (simp add: stop_def sample_started(2) Let_def case_prod_beta)
  have "map (\<lambda>c. CCcDrain (jc_cc c)) (r_consumers sample_running) = [CCcDrain 1]"
    using sample_started(4) by auto
  with stop_ends_runtime [OF sample_started(2) s, where later = ctx_background and why = None
      and E = sample_deliveries and X = "init_world 0" and env = sample_env and t = sample_route]
    s sample_started(3) show ?thesis
    by (auto simp: added_def init_world_def)
qed

theorem runtime_life_invariant_witness:
  "\<exists>r r'. reach (fresh (r_config sample_life)) (lifecycle sample_nats) r \<and> (lifecycle sample_nats)\<^sup>*\<^sup>* r r' \<and>
    r_state r' = StateRunning \<and> r_running r' \<and> length (r_subs r') + length (r_consumers r') = 2"
  using runtime_life_invariant [OF sample_reached rtranclp.rtrancl_refl] sample_reached sample_started(2)
  by (intro exI [of _ sample_running] conjI rtranclp.rtrancl_refl) (simp_all add: sample_life_def created_def)

theorem receiver_of_target_witness:
  "\<exists>rv. get_receiver sample_env sample_running sample_topic = Some rv \<and> rv_sub rv = sample_js_sub \<and>
    receiver_consumer rv \<noteq> None"
proof -
  have "get_receiver sample_env sample_running sample_topic \<noteq> None"
    by (simp add: get_receiver_def sample_started(2))
      (simp add: sample_running_def sample_run_simps sample_env_def sample_topic_def sample_route_def)
  then obtain rv where rv: "get_receiver sample_env sample_running sample_topic = Some rv" by blast
  from receiver_of_target [OF sample_reached rv] rv show ?thesis
    by (auto simp: less_Suc_eq sample_life_def created_def sample_env_def receiver_target_def sample_endpoint_sub_def
        sample_js_sub_def sample_subscriber_sub_def sample_route_def sample_topic_def)
qed

end
