(* ===== verification/Programs.thy ===== *)
theory Programs
  imports Error_Texts Lifecycle "HOL-Library.List_Lexorder" "HOL-Library.Char_ord"
begin

text \<open>
  What the programs under \<open>src/examples\<close> and \<open>src/docs/runbooks/cmd\<close> use of Go besides
  the package: \<open>fmt\<close> and \<open>log\<close>, the exit status of a process, deferred calls, and the
  printing of maps and durations.
\<close>

section \<open>Formatting\<close>

abbreviation newline :: string where "newline \<equiv> [CHR 0x0A]"

text \<open>\<open>%v\<close> of a \<open>map[string]string\<close>: its entries in the order of their keys.\<close>

definition sorted_keys :: "string gomap \<Rightarrow> string list" where
  "sorted_keys m = sort (map fst (mrange m))"

definition map_text :: "string gomap \<Rightarrow> string" where
  "map_text m =
    ''map['' @ join_with CHR '' '' (map (\<lambda>k. k @ '':'' @ mget0 m k) (sorted_keys m)) @ '']''"

text \<open>\<open>%v\<close> of a slice of values printed with \<open>f\<close>.\<close>

definition slice_text :: "('a \<Rightarrow> string) \<Rightarrow> 'a list \<Rightarrow> string" where
  "slice_text f xs = ''['' @ join_with CHR '' '' (map f xs) @ '']''"

text \<open>
  \<open>Duration.String\<close>.  \<open>fmt_frac\<close> is the fraction without its trailing zeros, and what
  is before the point.
\<close>

definition fmt_frac :: "nat \<Rightarrow> nat \<Rightarrow> string \<times> nat" where
  "fmt_frac prec v =
    (let f = v mod 10 ^ prec
     in (if f = 0 then []
         else CHR ''.'' # rev (dropWhile (\<lambda>c. c = CHR ''0'') (rev (pad prec (int f)))),
         v div 10 ^ prec))"

definition duration_text :: "duration \<Rightarrow> string" where
  "duration_text d =
    (let u = nat \<bar>sint d\<bar>; sign = (if sint d < 0 then ''-'' else [])
     in if u = 0 then ''0s''
        else if u < 1000 then sign @ show_nat u @ ''ns''
        else if u < 1000000 then
          (case fmt_frac 3 u of (f, i) \<Rightarrow> sign @ show_nat i @ f @ [CHR 0xC2, CHR 0xB5, CHR ''s''])
        else if u < 1000000000 then (case fmt_frac 6 u of (f, i) \<Rightarrow> sign @ show_nat i @ f @ ''ms'')
        else (case fmt_frac 9 u of (f, secs) \<Rightarrow>
          sign @ (if secs div 3600 = 0 then [] else show_nat (secs div 3600) @ ''h'')
            @ (if secs div 60 = 0 then [] else show_nat (secs div 60 mod 60) @ ''m'')
            @ show_nat (secs mod 60) @ f @ ''s''))"

text \<open>\<open>Duration.Round\<close>: halves away from zero, saturating.\<close>

definition duration_round :: "duration \<Rightarrow> duration \<Rightarrow> duration" where
  "duration_round d m =
    (if sint m \<le> 0 then d
     else let r = \<bar>sint d\<bar> mod sint m;
              near = (if 2 * r < sint m then \<bar>sint d\<bar> - r else \<bar>sint d\<bar> + sint m - r)
          in word_of_int (max (- (2 ^ 63)) (min (2 ^ 63 - 1) (sgn (sint d) * near))))"

definition ms_text :: "duration \<Rightarrow> string" where
  "ms_text d = duration_text (duration_round d Millisecond)"

section \<open>Errors as the programs read them\<close>

text \<open>\<open>errors.Is\<close> with an error of \<open>nats.go\<close> or \<open>context\<close>.\<close>

fun goerr_is :: "goerr \<Rightarrow> sentinel \<Rightarrow> bool" where
  "goerr_is (External e) s = errors_is e s"
| "goerr_is _ s = False"

section \<open>Processes\<close>

text \<open>
  What a process writes: to standard output and error as it is, and a line of \<open>log\<close>, which
  has a prefix and a time stamp that is left out, or a record of \<open>slog\<close>.
\<close>

datatype printed = Stdout string | Stderr string | Logged string string | Slogged log_record

text \<open>
  \<open>os.Exit\<close>, which \<open>log.Fatal\<close> calls, ends a process at once with its status.  A panic
  unwinds it through its deferred calls and ends it with status 2.
\<close>

datatype halt = Exited nat | Crashed string

record 'w os =
  o_world :: "'w world"
  o_out :: "printed list"

type_synonym ('a, 'w) prog = "'w os \<Rightarrow> (halt + 'a) \<times> 'w os"

definition give :: "'a \<Rightarrow> ('a, 'w) prog" where
  "give x S = (Inr x, S)"

definition andThenDo :: "('a, 'w) prog \<Rightarrow> ('a \<Rightarrow> ('b, 'w) prog) \<Rightarrow> ('b, 'w) prog" where
  "andThenDo p f S = (case p S of (Inl h, S1) \<Rightarrow> (Inl h, S1) | (Inr x, S1) \<Rightarrow> f x S1)"

definition say :: "printed list \<Rightarrow> (unit, 'w) prog" where
  "say ps S = (Inr (), S\<lparr>o_out := o_out S @ ps\<rparr>)"

definition exit_with :: "nat \<Rightarrow> ('a, 'w) prog" where
  "exit_with n S = (Inl (Exited n), S)"

definition crash :: "string \<Rightarrow> ('a, 'w) prog" where
  "crash p S = (Inl (Crashed p), S)"

text \<open>\<open>log.Fatalf\<close>, with the prefix of the logger.\<close>

definition fatal :: "string \<Rightarrow> string \<Rightarrow> ('a, 'w) prog" where
  "fatal pre t = andThenDo (say [Logged pre t]) (\<lambda>_. exit_with 1)"

text \<open>A call of the package; one that panics makes the process panic.\<close>

definition act :: "('w world \<Rightarrow> 'a \<times> 'w world) \<Rightarrow> ('a, 'w) prog" where
  "act f S = (case f (o_world S) of (r, W) \<Rightarrow> (Inr r, S\<lparr>o_world := W\<rparr>))"

definition try_act :: "('w world \<Rightarrow> 'a res \<times> 'w world) \<Rightarrow> ('a res, 'w) prog" where
  "try_act f =
    andThenDo (act f) (\<lambda>r. case r of Inl (Panicked p) \<Rightarrow> crash p | _ \<Rightarrow> give r)"

text \<open>\<open>defer d()\<close> before \<open>p\<close>.\<close>

definition deferred :: "(unit, 'w) prog \<Rightarrow> ('a, 'w) prog \<Rightarrow> ('a, 'w) prog" where
  "deferred d p S =
    (case p S of
       (Inl (Exited n), S1) \<Rightarrow> (Inl (Exited n), S1)
     | (r, S1) \<Rightarrow> (case d S1 of (Inl h, S2) \<Rightarrow> (Inl h, S2) | (Inr _, S2) \<Rightarrow> (r, S2)))"

definition exit_status :: "halt + 'a \<Rightarrow> nat" where
  "exit_status r = (case r of Inr _ \<Rightarrow> 0 | Inl (Exited n) \<Rightarrow> n | Inl (Crashed _) \<Rightarrow> 2)"

text \<open>\<open>xs[i]\<close> of a slice.\<close>

definition nth_arg :: "string list \<Rightarrow> nat \<Rightarrow> (string, 'w) prog" where
  "nth_arg xs i =
    (if i < length xs then give (xs ! i)
     else crash (''runtime error: index out of range ['' @ show_nat i @ ''] with length '' @ show_nat (length xs)))"

section \<open>What the environment does\<close>

text \<open>
  What a run depends on besides its input: what a handler call observes (the value
  \<open>Add\<close> gave it, the times it read the clock at, and which of two channels ready at once
  its \<open>select\<close> took), the runtime and process when the signal arrives, what the \<open>select\<close> of
  \<open>Stop\<close> chose with the deliveries then, and the first message that NATS hands to a subscriber,
  if any, with the time it arrives at, given the calls made so far.
\<close>

record call_obs =
  co_n :: "32 word"
  co_start :: gotime
  co_until :: gotime
  co_select :: gotime
  co_tie :: bool

record 'w session =
  se_call :: "gocontext \<Rightarrow> message \<Rightarrow> call_obs"
  se_serving :: "runtime \<Rightarrow> 'w os \<Rightarrow> runtime \<times> 'w os"
  se_drain :: "exterr option"
  se_info :: "nat \<Rightarrow> js_consumer \<times> jsmsg"
  se_deliveries :: deliveries
  se_event :: "call list \<Rightarrow> (natsmsg \<times> gotime) option"

text \<open>
  \<open>select\<close> on \<open>time.After(d)\<close> and \<open>ctx.Done()\<close>, entered at time \<open>now\<close>: the time it ends
  at, and the context's error when it took that case.
\<close>

definition select_after :: "gotime \<Rightarrow> duration \<Rightarrow> bool \<Rightarrow> gocontext \<Rightarrow> gotime \<times> exterr option" where
  "select_after now d tie ctx =
    (case c_fire ctx of
       None \<Rightarrow> (time_add now d, None)
     | Some (t, e, _) \<Rightarrow>
         if t < time_add now d \<or> (t = time_add now d \<and> tie) then (max now t, Some e)
         else (time_add now d, None))"

definition wait_for_signal :: "'w session \<Rightarrow> runtime \<Rightarrow> (runtime, 'w) prog" where
  "wait_for_signal s rt S = (case se_serving s rt S of (rt', S') \<Rightarrow> (Inr rt', S'))"

text \<open>\<open>rt.Start(ctx)\<close> and \<open>rt.Stop(ctx)\<close> of a process.\<close>

definition start_runtime :: "'w nats \<Rightarrow> runtime \<Rightarrow> gocontext \<Rightarrow> (goerr option \<times> runtime, 'w) prog" where
  "start_runtime N rt ctx = act (\<lambda>W. case start N rt ctx W of (e, rt', W') \<Rightarrow> ((e, rt'), W'))"

definition stop_runtime :: "'w nats \<Rightarrow> 'w session \<Rightarrow> runtime \<Rightarrow> gocontext \<Rightarrow> (exterr option, 'w) prog" where
  "stop_runtime N s rt ctx =
    andThenDo (try_act (stop N (se_info s) rt ctx (se_drain s) (se_deliveries s))) (\<lambda>r.
      case r of
        Inl e \<Rightarrow> give None
      | Inr (err, logs, _) \<Rightarrow> andThenDo (say (map Slogged logs)) (\<lambda>_. give err))"

definition close_client :: "'w nats \<Rightarrow> client \<Rightarrow> (unit, 'w) prog" where
  "close_client N c = act (\<lambda>W. ((), snd (close N c W)))"

section \<open>Lemmas\<close>

lemma give_run [simp]: "give x S = (Inr x, S)"
  by (simp add: give_def)

lemma say_run [simp]: "say ps S = (Inr (), S\<lparr>o_out := o_out S @ ps\<rparr>)"
  by (simp add: say_def)

lemma exit_with_run [simp]: "exit_with n S = (Inl (Exited n), S)"
  by (simp add: exit_with_def)

lemma crash_run [simp]: "crash p S = (Inl (Crashed p), S)"
  by (simp add: crash_def)

lemma fatal_run [simp]: "fatal pre t S = (Inl (Exited 1), S\<lparr>o_out := o_out S @ [Logged pre t]\<rparr>)"
  by (simp add: fatal_def andThenDo_def)

lemma andThenDo_Inl [simp]: "p S = (Inl h, S1) \<Longrightarrow> andThenDo p f S = (Inl h, S1)"
  by (simp add: andThenDo_def)

lemma andThenDo_Inr [simp]: "p S = (Inr x, S1) \<Longrightarrow> andThenDo p f S = f x S1"
  by (simp add: andThenDo_def)

lemma act_run: "f (o_world S) = (r, W) \<Longrightarrow> act f S = (Inr r, S\<lparr>o_world := W\<rparr>)"
  by (simp add: act_def)

lemma try_act_run:
  "f (o_world S) = (r, W) \<Longrightarrow> try_act f S =
    (case r of Inl (Panicked p) \<Rightarrow> (Inl (Crashed p), S\<lparr>o_world := W\<rparr>) | _ \<Rightarrow> (Inr r, S\<lparr>o_world := W\<rparr>))"
  by (simp add: try_act_def act_run split: sum.split goerr.split)

lemma nth_arg_run [simp]: "i < length xs \<Longrightarrow> nth_arg xs i S = (Inr (xs ! i), S)"
  by (simp add: nth_arg_def)

lemma nth_arg_crash: "length xs \<le> i \<Longrightarrow> \<exists>p. nth_arg xs i S = (Inl (Crashed p), S)"
  by (simp add: nth_arg_def)

lemma exit_status_simps [simp]:
  "exit_status (Inr x) = 0" "exit_status (Inl (Exited n)) = n" "exit_status (Inl (Crashed p)) = 2"
  by (simp_all add: exit_status_def)

text \<open>A map prints the same whatever the order of its entries.\<close>

lemma sorted_keys_set: "set (sorted_keys m) = dom (mget m)"
proof -
  have "mget m = map_of (mrange m)" by (rule ext) (rule mget_mrange)
  then show ?thesis by (simp add: sorted_keys_def dom_map_of_conv_image_fst)
qed

lemma sorted_keys_cong:
  assumes "mget m = mget m'"
  shows "sorted_keys m = sorted_keys m'"
proof (rule sorted_distinct_set_unique)
  show "set (sorted_keys m) = set (sorted_keys m')" using assms by (simp add: sorted_keys_set)
qed (simp_all add: sorted_keys_def distinct_mrange)

lemma map_text_cong:
  assumes "mget m = mget m'"
  shows "map_text m = map_text m'"
  unfolding map_text_def mget0_def assms sorted_keys_cong [OF assms] ..

lemma sorted_keys_sorted: "sorted (sorted_keys m)" "distinct (sorted_keys m)"
  by (simp_all add: sorted_keys_def distinct_mrange)

section \<open>Effects of a process\<close>

text \<open>
  \<open>effects p Q\<close>: wherever \<open>p\<close> runs, it only appends to the log of calls and to what was
  written, and its result with what it appended satisfies \<open>Q\<close>.  There is one rule for each
  construct, read backwards from \<open>Q\<close>.
\<close>

definition effects :: "('a, 'w) prog \<Rightarrow> (halt + 'a \<Rightarrow> call list \<Rightarrow> printed list \<Rightarrow> bool) \<Rightarrow> bool" where
  "effects p Q \<longleftrightarrow> (\<forall>S. \<exists>cs out. w_log (o_world (snd (p S))) = w_log (o_world S) @ cs \<and>
     o_out (snd (p S)) = o_out S @ out \<and> Q (fst (p S)) cs out)"

lemma effectsD:
  assumes "effects p Q" "p S = (r, S')"
  obtains cs out where "w_log (o_world S') = w_log (o_world S) @ cs" "o_out S' = o_out S @ out" "Q r cs out"
  using assms unfolding effects_def by (metis fst_conv snd_conv)

lemma effects_mono:
  assumes "effects p Q" and "\<And>r cs out. Q r cs out \<Longrightarrow> R r cs out"
  shows "effects p R"
  using assms unfolding effects_def by meson

lemma effects_give: "Q (Inr x) [] [] \<Longrightarrow> effects (give x) Q"
  by (simp add: effects_def)

lemma effects_say: "Q (Inr ()) [] ps \<Longrightarrow> effects (say ps) Q"
  by (simp add: effects_def)

lemma effects_exit: "Q (Inl (Exited n)) [] [] \<Longrightarrow> effects (exit_with n) Q"
  by (simp add: effects_def)

lemma effects_crash: "Q (Inl (Crashed p)) [] [] \<Longrightarrow> effects (crash p) Q"
  by (simp add: effects_def)

lemma effects_fatal: "Q (Inl (Exited 1)) [] [Logged pre t] \<Longrightarrow> effects (fatal pre t) Q"
  by (simp add: effects_def)

lemma effects_do:
  assumes "effects p (\<lambda>r cs out. case r of
      Inl h \<Rightarrow> Q (Inl h) cs out
    | Inr x \<Rightarrow> effects (f x) (\<lambda>r cs' out'. Q r (cs @ cs') (out @ out')))"
  shows "effects (andThenDo p f) Q"
  unfolding effects_def
proof
  fix S
  obtain r S1 where p: "p S = (r, S1)" by force
  from assms p obtain cs out where 1: "w_log (o_world S1) = w_log (o_world S) @ cs" "o_out S1 = o_out S @ out"
    "case r of Inl h \<Rightarrow> Q (Inl h) cs out
      | Inr x \<Rightarrow> effects (f x) (\<lambda>r cs' out'. Q r (cs @ cs') (out @ out'))"
    by (rule effectsD)
  show "\<exists>cs out. w_log (o_world (snd (andThenDo p f S))) = w_log (o_world S) @ cs \<and>
      o_out (snd (andThenDo p f S)) = o_out S @ out \<and> Q (fst (andThenDo p f S)) cs out"
  proof (cases r)
    case (Inl h)
    with p 1 show ?thesis by (intro exI [of _ cs] exI [of _ out]) simp
  next
    case (Inr x)
    obtain r' S2 where f: "f x S1 = (r', S2)" by force
    from 1(3) Inr have "effects (f x) (\<lambda>r cs' out'. Q r (cs @ cs') (out @ out'))" by simp
    from this f obtain cs' out' where "w_log (o_world S2) = w_log (o_world S1) @ cs'" "o_out S2 = o_out S1 @ out'"
      "Q r' (cs @ cs') (out @ out')" by (rule effectsD)
    with p 1 Inr f show ?thesis by (intro exI [of _ "cs @ cs'"] exI [of _ "out @ out'"]) simp
  qed
qed

lemma effects_deferred:
  assumes "effects p (\<lambda>r cs out. case r of
      Inl (Exited n) \<Rightarrow> Q r cs out
    | _ \<Rightarrow> effects d (\<lambda>r' cs' out'. Q (case r' of Inl h \<Rightarrow> Inl h | Inr _ \<Rightarrow> r) (cs @ cs') (out @ out')))"
  shows "effects (deferred d p) Q"
  unfolding effects_def
proof
  fix S
  obtain r S1 where p: "p S = (r, S1)" by force
  from assms p obtain cs out where 1: "w_log (o_world S1) = w_log (o_world S) @ cs" "o_out S1 = o_out S @ out"
    "case r of Inl (Exited n) \<Rightarrow> Q r cs out
      | _ \<Rightarrow> effects d (\<lambda>r' cs' out'. Q (case r' of Inl h \<Rightarrow> Inl h | Inr _ \<Rightarrow> r) (cs @ cs') (out @ out'))"
    by (rule effectsD)
  show "\<exists>cs out. w_log (o_world (snd (deferred d p S))) = w_log (o_world S) @ cs \<and>
      o_out (snd (deferred d p S)) = o_out S @ out \<and> Q (fst (deferred d p S)) cs out"
  proof (cases "\<exists>n. r = Inl (Exited n)")
    case True
    with p 1 show ?thesis by (intro exI [of _ cs] exI [of _ out]) (auto simp: deferred_def)
  next
    case False
    obtain r' S2 where d: "d S1 = (r', S2)" by force
    from 1(3) False have "effects d (\<lambda>r' cs' out'. Q (case r' of Inl h \<Rightarrow> Inl h | Inr _ \<Rightarrow> r) (cs @ cs') (out @ out'))"
      by (auto split: sum.splits halt.splits)
    from this d obtain cs' out' where "w_log (o_world S2) = w_log (o_world S1) @ cs'" "o_out S2 = o_out S1 @ out'"
      "Q (case r' of Inl h \<Rightarrow> Inl h | Inr _ \<Rightarrow> r) (cs @ cs') (out @ out')" by (rule effectsD)
    with p 1 False d show ?thesis
      by (intro exI [of _ "cs @ cs'"] exI [of _ "out @ out'"])
        (auto simp: deferred_def split: sum.split halt.split)
  qed
qed

text \<open>A call of the package by its own log.\<close>

lemma effects_act:
  assumes "\<And>W r W'. f W = (r, W') \<Longrightarrow> \<exists>cs. added W W' cs \<and> Q (Inr r) cs []"
  shows "effects (act f) Q"
  unfolding effects_def
proof
  fix S :: "'a os"
  obtain r W' where f: "f (o_world S) = (r, W')" by force
  with assms obtain cs where "added (o_world S) W' cs" "Q (Inr r) cs []" by blast
  with f show "\<exists>cs out. w_log (o_world (snd (act f S))) = w_log (o_world S) @ cs \<and>
      o_out (snd (act f S)) = o_out S @ out \<and> Q (fst (act f S)) cs out"
    by (intro exI [of _ cs] exI [of _ "[]"]) (simp add: act_def added_def)
qed

lemma effects_clock: "(\<And>t. Q (Inr t) [] []) \<Longrightarrow> effects (act (clock N)) Q"
  by (rule effects_act) (auto dest: added_clock)

lemma effects_try:
  assumes "\<And>W r W'. f W = (r, W') \<Longrightarrow> \<exists>cs. added W W' cs \<and>
    (case r of Inl (Panicked p) \<Rightarrow> Q (Inl (Crashed p)) cs [] | _ \<Rightarrow> Q (Inr r) cs [])"
  shows "effects (try_act f) Q"
  unfolding try_act_def
proof (rule effects_do, rule effects_act)
  fix W r W'
  assume "f W = (r, W')"
  with assms obtain cs where cs: "added W W' cs"
    "case r of Inl (Panicked p) \<Rightarrow> Q (Inl (Crashed p)) cs [] | _ \<Rightarrow> Q (Inr r) cs []" by blast
  have "effects (case r of Inl (Panicked p) \<Rightarrow> crash p | _ \<Rightarrow> give r) (\<lambda>r cs' out'. Q r (cs @ cs') ([] @ out'))"
    using cs(2) by (auto intro!: effects_crash effects_give split: sum.splits goerr.splits)
  with cs(1) show "\<exists>cs. added W W' cs \<and> (case Inr r of Inl h \<Rightarrow> Q (Inl h) cs []
      | Inr x \<Rightarrow> effects (case x of Inl (Panicked p) \<Rightarrow> crash p | _ \<Rightarrow> give x) (\<lambda>r cs' out'. Q r (cs @ cs') ([] @ out')))"
    by auto
qed

lemmas effects_rules = effects_do effects_deferred effects_say effects_exit effects_crash effects_fatal effects_give

section \<open>Effects of the client's operations\<close>

text \<open>The calls that send a message.\<close>

fun is_message :: "call \<Rightarrow> bool" where
  "is_message (CRequest _) = True"
| "is_message (CPublish _) = True"
| "is_message (CJsPublish _ _) = True"
| "is_message _ = False"

definition no_panic :: "goerr \<Rightarrow> bool" where
  "no_panic e \<longleftrightarrow> (\<forall>p. e \<noteq> Panicked p)"

lemma no_panic_simps [simp]:
  "no_panic (ErrBadConfig k v r)" "no_panic (ErrKindMismatch u a b)" "no_panic (ErrInvalidTarget p)"
  "no_panic ErrClosed" "no_panic (HandlerError t)" "no_panic (External e)" "\<not> no_panic (Panicked x)"
  by (simp_all add: no_panic_def)

lemma no_panic_readers:
  "fails no_panic (duration_setting md k d)" "fails no_panic (check_kind t want use)"
  "fails no_panic (subject env t)" "fails no_panic (connections c)" "fails no_panic (from_header h)"
proof -
  obtain md where "from_header h = Inr md" using from_header_ok by metis
  then show "fails no_panic (from_header h)" by simp
qed (auto simp: duration_setting_def check_kind_def subject_def connections_def split: option.split)

lemma no_panic_checks:
  "fails no_panic (request_checks env c msg opts)" "fails no_panic (publish_checks env c msg opts)"
  "fails no_panic (parse_client_settings cfg)"
  unfolding request_checks_def publish_checks_def parse_client_settings_def Let_def
  by (auto intro!: fails_andThen no_panic_readers)

lemma no_panic_reply: "fails no_panic (read_reply tgt reply)"
  unfolding read_reply_def by (auto intro!: fails_andThen no_panic_readers split: option.split)

lemma new_client_effects:
  assumes "new_client N cfg sm W = (r, W')"
  shows "fails no_panic r \<and> (\<exists>cs. added W W' cs \<and> (case r of
      Inr c \<Rightarrow> \<not> cl_closed c \<and> (\<exists>u os. cs = [CConnect u os])
    | Inl _ \<Rightarrow> cs = [] \<or> (\<exists>u os. cs = [CConnect u os] \<or> cs = [CConnect u os, CClose])))"
  using assms no_panic_checks(3) [of cfg]
  by (auto simp: new_client_def added_def split: sum.splits option.splits prod.splits dest!: perform_log)

lemma request_effects:
  assumes "header_set_law env" and "request env N c ctx msg opts W = (r, W')"
  shows "fails no_panic r \<and> (\<exists>cs. added W W' cs \<and> (cs = [] \<and> (\<exists>e. r = Inl e) \<or>
    (\<exists>subj h. subject env (M_Target msg) = Inr subj \<and>
      cs = [CRequest \<lparr>N_Subject = subj, N_Reply = [], N_Header = h, N_Data = M_Payload msg\<rparr>])))"
proof (cases "request_checks env c msg opts")
  case (Inl e)
  with assms(2) failsD [OF no_panic_checks(1) Inl] show ?thesis by (auto simp: request_def added_def)
next
  case (Inr st)
  obtain subj timeout where st: "st = (subj, timeout)" by force
  obtain bctx wait W1 where b: "bound_context N ctx timeout W = ((bctx, wait), W1)" by (metis prod.exhaust)
  have log: "w_log W1 = w_log W" using bound_context_log [of N ctx timeout W] b by simp
  obtain h where h: "request_header env (M_Metadata msg) wait = Inr h" using request_header_ok [OF assms(1)] by metis
  let ?m = "\<lparr>N_Subject = subj, N_Reply = [], N_Header = h, N_Data = M_Payload msg\<rparr>"
  have "subject env (M_Target msg) = Inr subj" using Inr st by (simp add: request_checks_Inr)
  moreover have "fails no_panic r \<and> added W W' [CRequest ?m]"
    using assms(2) Inr st b h log no_panic_reply
    by (auto simp: request_def Let_def added_def split: prod.splits sum.splits dest!: perform_log clock_log)
  ultimately show ?thesis by blast
qed

lemma publish_effects:
  assumes "header_set_law env" and "publish env N c ctx msg opts W = (r, W')"
  shows "fails no_panic r \<and> (\<exists>cs. added W W' cs \<and> (cs = [] \<and> (\<exists>e. r = Inl e) \<or>
    (\<exists>subj h m. subject env (M_Target msg) = Inr subj \<and> outgoing_header env (M_Metadata msg) = Inr h \<and>
      m = \<lparr>N_Subject = subj, N_Reply = [], N_Header = h, N_Data = M_Payload msg\<rparr> \<and>
      (cs = [CPublish m] \<or> (\<exists>stream. cs = [CJsPublish m stream])))))"
proof (cases "publish_checks env c msg opts")
  case (Inl e)
  with assms(2) failsD [OF no_panic_checks(2) Inl] show ?thesis by (auto simp: publish_def added_def)
next
  case (Inr st)
  obtain subj stream timeout where st: "st = (subj, stream, timeout)" by (metis prod.exhaust)
  obtain now W0 where k: "clock N W = (now, W0)" by force
  have log0: "w_log W0 = w_log W" using k by (rule clock_log)
  obtain h where h: "outgoing_header env (M_Metadata msg) = Inr h" using outgoing_header_ok [OF assms(1)] by metis
  obtain bctx wait W1 where b: "bound_context N ctx timeout W0 = ((bctx, wait), W1)" by (metis prod.exhaust)
  have log: "w_log W1 = w_log W" using bound_context_log [of N ctx timeout W0] b log0 by simp
  let ?m = "\<lparr>N_Subject = subj, N_Reply = [], N_Header = h, N_Data = M_Payload msg\<rparr>"
  have s: "subject env (M_Target msg) = Inr subj" using Inr st by (simp add: publish_checks_Inr)
  show ?thesis
  proof (cases "ctx_err ctx now")
    case (Some e)
    with assms(2) Inr st k log0 show ?thesis by (auto simp: publish_def added_def)
  next
    case None
    have "fails no_panic r \<and> added W W' [if stream = [] then CPublish ?m else CJsPublish ?m stream]"
      using assms(2) Inr st k None h b log log0
      by (auto simp: publish_def Let_def added_def split: prod.splits option.splits if_splits dest!: perform_log clock_log)
    with s h show ?thesis by (auto split: if_splits)
  qed
qed

text \<open>The message that \<open>Publish\<close> hands to the connection.\<close>

lemma publish_hands_over:
  assumes "header_set_law env"
    and "CPublish m \<in> set (drop (length (w_log W)) (w_log (snd (publish env N c ctx msg opts W)))) \<or>
      CJsPublish m stream \<in> set (drop (length (w_log W)) (w_log (snd (publish env N c ctx msg opts W))))"
  shows "subject env (M_Target msg) = Inr (N_Subject m) \<and> outgoing_header env (M_Metadata msg) = Inr (N_Header m) \<and>
    N_Data m = M_Payload msg"
  using publish_effects [OF assms(1), of N c ctx msg opts W "fst (publish env N c ctx msg opts W)"
      "snd (publish env N c ctx msg opts W)"] assms(2)
  by (auto simp: added_def)

lemma client_stream_effects:
  assumes "client_stream N c ctx t W = (r, W')"
  shows "fails no_panic r \<and> (\<exists>cs. added W W' cs \<and> (cs = [] \<or> (\<exists>name. cs = [CStream name])))"
  using assms no_panic_readers(4) [of c]
  by (auto simp: client_stream_def Let_def added_def split: if_splits sum.splits option.splits prod.splits dest!: perform_log)

text \<open>Calls of the client in a process.\<close>

lemma effects_try_no_panic:
  assumes "\<And>W r W'. f W = (r, W') \<Longrightarrow> fails no_panic r \<and> (\<exists>cs. added W W' cs \<and> Q (Inr r) cs [])"
  shows "effects (try_act f) Q"
proof (rule effects_try)
  fix W r W'
  assume "f W = (r, W')"
  from assms [OF this] obtain cs where "fails no_panic r" "added W W' cs" "Q (Inr r) cs []" by blast
  then show "\<exists>cs. added W W' cs \<and>
      (case r of Inl (Panicked p) \<Rightarrow> Q (Inl (Crashed p)) cs [] | _ \<Rightarrow> Q (Inr r) cs [])"
    by (intro exI [of _ cs]) (auto split: sum.split goerr.split)
qed

lemma effects_new_client:
  assumes "\<And>c u os. \<not> cl_closed c \<Longrightarrow> Q (Inr (Inr c)) [CConnect u os] []"
    and "\<And>e cs u os. cs = [] \<or> cs = [CConnect u os] \<or> cs = [CConnect u os, CClose] \<Longrightarrow> Q (Inr (Inl e)) cs []"
  shows "effects (try_act (new_client N cfg sm)) Q"
proof (rule effects_try_no_panic)
  fix W W' and r :: "client res"
  assume "new_client N cfg sm W = (r, W')"
  from new_client_effects [OF this] obtain cs where "fails no_panic r" "added W W' cs"
    "case r of Inr c \<Rightarrow> \<not> cl_closed c \<and> (\<exists>u os. cs = [CConnect u os])
      | Inl _ \<Rightarrow> cs = [] \<or> (\<exists>u os. cs = [CConnect u os] \<or> cs = [CConnect u os, CClose])" by blast
  with assms show "fails no_panic r \<and> (\<exists>cs. added W W' cs \<and> Q (Inr r) cs [])"
    by (intro conjI exI [of _ cs]) (auto split: sum.splits)
qed

lemma effects_close: "\<not> cl_closed c \<Longrightarrow> Q (Inr ()) [CClose] [] \<Longrightarrow> effects (close_client N c) Q"
  unfolding close_client_def by (rule effects_act) (auto simp: close_def added_def)

lemma effects_request:
  assumes "header_set_law env"
    and "\<And>e. Q (Inr (Inl e)) [] []"
    and "\<And>r subj h. subject env (M_Target msg) = Inr subj \<Longrightarrow>
      Q (Inr r) [CRequest \<lparr>N_Subject = subj, N_Reply = [], N_Header = h, N_Data = M_Payload msg\<rparr>] []"
  shows "effects (try_act (request env N c ctx msg opts)) Q"
proof (rule effects_try_no_panic)
  fix W W' and r :: "message res"
  assume "request env N c ctx msg opts W = (r, W')"
  from request_effects [OF assms(1) this] obtain cs where cs: "fails no_panic r" "added W W' cs"
    "cs = [] \<and> (\<exists>e. r = Inl e) \<or> (\<exists>subj h. subject env (M_Target msg) = Inr subj \<and>
      cs = [CRequest \<lparr>N_Subject = subj, N_Reply = [], N_Header = h, N_Data = M_Payload msg\<rparr>])" by blast
  from cs(3) have "Q (Inr r) cs []" using assms(2,3) by blast
  with cs show "fails no_panic r \<and> (\<exists>cs. added W W' cs \<and> Q (Inr r) cs [])" by blast
qed

lemma effects_publish:
  assumes "header_set_law env"
    and "\<And>e. Q (Inr (Inl e)) [] []"
    and "\<And>r subj h m stream. subject env (M_Target msg) = Inr subj \<Longrightarrow>
      m = \<lparr>N_Subject = subj, N_Reply = [], N_Header = h, N_Data = M_Payload msg\<rparr> \<Longrightarrow>
      Q (Inr r) [CPublish m] [] \<and> Q (Inr r) [CJsPublish m stream] []"
  shows "effects (try_act (publish env N c ctx msg opts)) Q"
proof (rule effects_try_no_panic)
  fix W W' and r :: "unit res"
  assume "publish env N c ctx msg opts W = (r, W')"
  from publish_effects [OF assms(1) this] obtain cs where cs: "fails no_panic r" "added W W' cs"
    "cs = [] \<and> (\<exists>e. r = Inl e) \<or> (\<exists>subj h m. subject env (M_Target msg) = Inr subj \<and>
      m = \<lparr>N_Subject = subj, N_Reply = [], N_Header = h, N_Data = M_Payload msg\<rparr> \<and>
      (cs = [CPublish m] \<or> (\<exists>stream. cs = [CJsPublish m stream])))" by blast
  from cs(3) have "Q (Inr r) cs []" using assms(2,3) by blast
  with cs show "fails no_panic r \<and> (\<exists>cs. added W W' cs \<and> Q (Inr r) cs [])" by blast
qed

definition sample_os :: "nat os" where
  "sample_os = \<lparr>o_world = init_world 0, o_out = []\<rparr>"

end
