(* ===== verification/Rpc.thy ===== *)
theory Rpc
  imports Serve
begin

text \<open>
  A request over the wire: \<open>Client.Request\<close> on one side and the runtime's \<open>serve\<close>
  on the other, composed.  NATS itself is not modelled; what it does for a request that
  returns is the named hypothesis \<open>request_delivered\<close>.  The lemmas say what the metadata,
  the payload, the timeout and the reply become on the way.
\<close>

section \<open>What travels unchanged\<close>

text \<open>
  The NATS connection writes a header as HTTP does: a name that is not a token is left out,
  and so is one without values; line breaks in a value become spaces, and blanks around it
  are trimmed.  A header is plain when none of this changes it.
\<close>

definition token_char :: "char \<Rightarrow> bool" where
  "token_char c \<longleftrightarrow> is_digit c \<or> 65 \<le> byte c \<and> byte c \<le> 90 \<or> 97 \<le> byte c \<and> byte c \<le> 122
     \<or> byte c \<in> {33, 35, 36, 37, 38, 39, 42, 43, 45, 46, 94, 95, 96, 124, 126}"

definition plain_key :: "string \<Rightarrow> bool" where
  "plain_key k \<longleftrightarrow> k \<noteq> [] \<and> list_all token_char k"

definition plain_text :: "string \<Rightarrow> bool" where
  "plain_text v \<longleftrightarrow> list_all (\<lambda>c. byte c \<notin> {10, 13}) v \<and>
     (v = [] \<or> byte (hd v) \<notin> {9, 32} \<and> byte (last v) \<notin> {9, 32})"

definition plain_header :: "header \<Rightarrow> bool" where
  "plain_header h \<longleftrightarrow> list_all (\<lambda>(k, vs). plain_key k \<and> vs \<noteq> [] \<and> list_all plain_text vs) (mrange h)"

definition plain_metadata :: "string gomap \<Rightarrow> bool" where
  "plain_metadata md \<longleftrightarrow> list_all (\<lambda>(k, v). plain_key k \<and> plain_text v) (mrange md)"

definition arrives :: "header \<Rightarrow> header \<Rightarrow> bool" where
  "arrives h h' \<longleftrightarrow> (plain_header h \<longrightarrow> mget h' = mget h)"

text \<open>A handler's result that the caller can read back: plain, and not taken for an error.\<close>

definition plain_result :: "message \<times> string option \<Rightarrow> bool" where
  "plain_result res =
    (case res of
       (out, None) \<Rightarrow> plain_metadata (M_Metadata out) \<and> mget (M_Metadata out) HandlerErrorKey = None
     | (_, Some e) \<Rightarrow> plain_text e)"

section \<open>The transport\<close>

text \<open>
  The documented behaviour of a NATS request: when it returns a reply, its message has
  reached a subscription of its subject with an inbox as its reply subject, and the reply is
  a message that was published to that inbox.  Whether it returns one is not said: the
  caller's context may end, or nobody may respond.  Here \<open>b\<close> is the subscription, which is
  served with the handler context \<open>hctx\<close> on the connection \<open>S\<close>.
\<close>

definition answered ::
    "goenv \<Rightarrow> 'w nats \<Rightarrow> gocontext \<Rightarrow> subscription \<Rightarrow> natsmsg \<Rightarrow> natsmsg \<Rightarrow> bool" where
  "answered env S hctx b m reply \<longleftrightarrow>
    (\<exists>m' arrival W logs W' p. N_Reply m' \<noteq> [] \<and> N_Data m' = N_Data m \<and> arrives (N_Header m) (N_Header m') \<and>
      serve env S hctx b m' arrival W = (Inr logs, W') \<and>
      CPublish p \<in> set (drop (length (w_log W)) (w_log W')) \<and> N_Subject p = N_Reply m' \<and>
      N_Data reply = N_Data p \<and> arrives (N_Header p) (N_Header reply))"

definition request_delivered ::
    "goenv \<Rightarrow> 'w nats \<Rightarrow> 'v nats \<Rightarrow> gocontext \<Rightarrow> subscription \<Rightarrow> bool" where
  "request_delivered env N S hctx b \<longleftrightarrow>
    (\<forall>ctx m w reply. N_Subject m = sb_subject b \<longrightarrow> fst (n_request N ctx m w) = Inr reply \<longrightarrow>
      answered env S hctx b m reply)"

text \<open>
  The documented behaviour of a published message: a delivery of it, from a subscription or
  from a stream, has its payload and its header, to which a publish that expects a stream has
  added that stream's name.  This is a delivery whose header arrives as it was sent.
\<close>

definition ExpectedStreamHeader :: string where
  "ExpectedStreamHeader = ''Nats-Expected-Stream''"

definition carried :: "call \<Rightarrow> header \<Rightarrow> string \<Rightarrow> bool" where
  "carried sent h d \<longleftrightarrow>
    (case sent of
       CPublish m \<Rightarrow> d = N_Data m \<and> mget h = mget (N_Header m)
     | CJsPublish m stream \<Rightarrow> d = N_Data m \<and> mget h = (mget (N_Header m))(ExpectedStreamHeader \<mapsto> [stream])
     | _ \<Rightarrow> False)"

section \<open>What each side does\<close>

lemma serve_endpoint_result:
  assumes "header_set_law env" and "sb_subscriber b = None" and "sb_endpoint b = Some h" and "N_Reply m \<noteq> []"
    and "incoming_metadata (N_Header m) = Inr md" and "md \<noteq> None"
  obtains logs W' ctx msg reply where "serve env N hctx b m arrival W = (Inr logs, W')"
    "w_log W' = w_log W @ [CHandle ctx msg, CPublish reply]"
    "M_Target msg = sb_target b" "M_Payload msg = N_Data m" "N_Subject reply = N_Reply m"
    "mget (M_Metadata msg) = (case request_deadline md arrival of
        None \<Rightarrow> mget md | Some d \<Rightarrow> (mget md)(DeadlineKey \<mapsto> rfc3339_nano (env_zone env) d))"
    "c_deadline ctx = (case request_deadline md arrival of
        None \<Rightarrow> c_deadline hctx | Some d \<Rightarrow> Some (case c_deadline hctx of None \<Rightarrow> d | Some c \<Rightarrow> min c d))"
    "N_Data reply = (case snd (endpoint_result (h ctx msg)) of
        None \<Rightarrow> M_Payload (fst (endpoint_result (h ctx msg))) | Some _ \<Rightarrow> [])"
    "mget (N_Header reply) = (case snd (endpoint_result (h ctx msg)) of
        None \<Rightarrow> (\<lambda>k. map_option (\<lambda>v. [v]) (mget (M_Metadata (fst (endpoint_result (h ctx msg)))) k))
      | Some e \<Rightarrow> [HandlerErrorKey \<mapsto> [e]])"
proof -
  let ?m = "\<lparr>M_Target = sb_target b, M_Metadata = md, M_Payload = N_Data m\<rparr>"
  obtain ctx msg W1 where e: "endpoint_context env N hctx ?m arrival W = (Inr (ctx, msg), W1)"
    "w_log W1 = w_log W" "M_Target msg = sb_target b" "M_Payload msg = N_Data m"
    "mget (M_Metadata msg) = (case request_deadline md arrival of
        None \<Rightarrow> mget md | Some d \<Rightarrow> (mget md)(DeadlineKey \<mapsto> rfc3339_nano (env_zone env) d))"
    "c_deadline ctx = (case request_deadline md arrival of
        None \<Rightarrow> c_deadline hctx | Some d \<Rightarrow> Some (case c_deadline hctx of None \<Rightarrow> d | Some c \<Rightarrow> min c d))"
    using endpoint_context_ok [of ?m env N hctx arrival W] assms(6) unfolding message.select_convs by blast
  let ?out = "endpoint_result (h ctx msg)"
  obtain reply where r: "make_reply env (N_Reply m) ?out = Inr reply" "N_Subject reply = N_Reply m"
    "N_Data reply = (case snd ?out of None \<Rightarrow> M_Payload (fst ?out) | Some _ \<Rightarrow> [])"
    "mget (N_Header reply) = (case snd ?out of
        None \<Rightarrow> (\<lambda>k. map_option (\<lambda>v. [v]) (mget (M_Metadata (fst ?out)) k))
      | Some e \<Rightarrow> [HandlerErrorKey \<mapsto> [e]])"
    using make_reply_ok [OF assms(1), of "N_Reply m" ?out] by blast
  obtain x W3 where p: "perform (\<lambda>_. CPublish reply) (n_publish N reply) (note_call (CHandle ctx msg) W1) = (x, W3)"
    by force
  have log: "w_log W3 = w_log W @ [CHandle ctx msg, CPublish reply]" using perform_log [OF p] e(2) by simp
  obtain logs where "serve env N hctx b m arrival W = (Inr logs, W3)"
    using assms(2-5) e(1) r(1) p
    by (cases x) (simp_all add: serve_def serve_endpoint_def call_endpoint_result Let_def)
  from that [OF this log e(3,4) r(2) e(5,6) r(3,4)] show ?thesis .
qed

lemma first_value_single: "first_value (map_option (\<lambda>v. [v]) x) = x" "first_value (Some (v # vs)) = Some v"
    "first_value None = None"
  by (cases x; simp add: first_value_def) (simp_all add: first_value_def)

lemma handler_error_key: "HandlerErrorKey \<notin> {TimeoutKey, DeadlineKey, MessageIDKey, MsgIDHeader}"
  by (simp add: mesh_key_defs)

text \<open>How a reply reads at the caller.\<close>

lemma read_reply_message:
  assumes "mget (N_Header reply) = (\<lambda>k. map_option (\<lambda>v. [v]) (mget md k))" and "mget md HandlerErrorKey = None"
  shows "\<exists>md'. read_reply tgt reply = Inr \<lparr>M_Target = tgt, M_Metadata = md', M_Payload = N_Data reply\<rparr> \<and>
    mget md' = mget md"
proof -
  obtain md' where md': "from_header (N_Header reply) = Inr md'" "\<And>k. mget md' k = first_value (mget (N_Header reply) k)"
    using from_header_ok [of "N_Header reply"] by blast
  have "mget md' = mget md"
    using md'(2) assms(1) by (auto simp: fun_eq_iff first_value_def split: option.split)
  with md'(1) assms show ?thesis by (simp add: read_reply_def)
qed

lemma read_reply_error:
  "mget (N_Header reply) = [HandlerErrorKey \<mapsto> [e]] \<Longrightarrow> read_reply tgt reply = Inl (HandlerError e)"
  by (simp add: read_reply_def)

lemma incoming_metadata_cong:
  assumes "mget h = mget h'" and "incoming_metadata h' = Inr md'"
  shows "\<exists>md. incoming_metadata h = Inr md \<and> md \<noteq> None \<and> mget md = mget md'"
proof -
  obtain md where md: "incoming_metadata h = Inr md" "md \<noteq> None"
    "\<And>k. mget md k = (if k = MessageIDKey \<and> first_value (mget h MsgIDHeader) \<noteq> None
        then first_value (mget h MsgIDHeader) else first_value (mget h k))"
    using incoming_metadata_ok [of h] by blast
  obtain md1 where md1: "incoming_metadata h' = Inr md1"
    "\<And>k. mget md1 k = (if k = MessageIDKey \<and> first_value (mget h' MsgIDHeader) \<noteq> None
        then first_value (mget h' MsgIDHeader) else first_value (mget h' k))"
    using incoming_metadata_ok [of h'] by blast
  have "mget md = mget md'" using md(3) md1 assms by (auto simp: fun_eq_iff)
  with md show ?thesis by blast
qed

text \<open>
  The metadata a handler gets from a message: what was sent, with the message ID under both
  of its names.  A request's also has the timeout.
\<close>

definition sent_metadata :: "string gomap \<Rightarrow> string \<Rightarrow> string option" where
  "sent_metadata md =
    (case mget md MessageIDKey of
       Some ident \<Rightarrow> (mget md)(MessageIDKey \<mapsto> ident, MsgIDHeader \<mapsto> ident)
     | None \<Rightarrow> (case mget md MsgIDHeader of
         Some ident \<Rightarrow> (mget md)(MessageIDKey \<mapsto> ident)
       | None \<Rightarrow> mget md))"

definition request_metadata :: "string gomap \<Rightarrow> duration \<Rightarrow> string \<Rightarrow> string option" where
  "request_metadata md wait = (sent_metadata md)(TimeoutKey \<mapsto> format_int64 (duration_ms wait))"

lemma header_received:
  assumes "header_set_law env"
  obtains h md' where "outgoing_header env md = Inr h" "incoming_metadata h = Inr md'" "md' \<noteq> None"
    "mget md' = sent_metadata md"
  using message_id_one_field [OF assms, of md] that unfolding sent_metadata_def
  by (cases "mget md MessageIDKey"; cases "mget md MsgIDHeader") auto

text \<open>The metadata of a delivery of a published message.\<close>

definition delivered_metadata :: "call \<Rightarrow> string gomap \<Rightarrow> string \<Rightarrow> string option" where
  "delivered_metadata sent md =
    (case sent of CJsPublish _ stream \<Rightarrow> (sent_metadata md)(ExpectedStreamHeader \<mapsto> stream) | _ \<Rightarrow> sent_metadata md)"

lemma incoming_metadata_extra:
  assumes "mget h = (mget h')(k \<mapsto> [v])" and "k \<notin> {MessageIDKey, MsgIDHeader}" and "incoming_metadata h' = Inr md'"
  shows "\<exists>md. incoming_metadata h = Inr md \<and> md \<noteq> None \<and> mget md = (mget md')(k \<mapsto> v)"
proof -
  obtain md where md: "incoming_metadata h = Inr md" "md \<noteq> None"
    "\<And>k. mget md k = (if k = MessageIDKey \<and> first_value (mget h MsgIDHeader) \<noteq> None
        then first_value (mget h MsgIDHeader) else first_value (mget h k))"
    using incoming_metadata_ok [of h] by blast
  obtain md1 where md1: "incoming_metadata h' = Inr md1"
    "\<And>k. mget md1 k = (if k = MessageIDKey \<and> first_value (mget h' MsgIDHeader) \<noteq> None
        then first_value (mget h' MsgIDHeader) else first_value (mget h' k))"
    using incoming_metadata_ok [of h'] by blast
  have "mget md = (mget md')(k \<mapsto> v)"
    using md(3) md1 assms by (auto simp: fun_eq_iff first_value_def)
  with md show ?thesis by blast
qed

lemma delivery_received:
  assumes "header_set_law env" and "sent = CPublish m \<or> (\<exists>stream. sent = CJsPublish m stream)"
    and "outgoing_header env md = Inr (N_Header m)" and "carried sent h d"
  obtains md' where "incoming_metadata h = Inr md'" "md' \<noteq> None" "mget md' = delivered_metadata sent md" "d = N_Data m"
proof -
  obtain h0 md0 where h0: "outgoing_header env md = Inr h0" "incoming_metadata h0 = Inr md0" "mget md0 = sent_metadata md"
    using header_received [OF assms(1)] .
  then have m: "incoming_metadata (N_Header m) = Inr md0" using assms(3) by simp
  have k: "ExpectedStreamHeader \<notin> {MessageIDKey, MsgIDHeader}" by (simp add: ExpectedStreamHeader_def mesh_key_defs)
  from assms(2) show thesis
  proof (elim disjE exE)
    assume "sent = CPublish m"
    with assms(4) incoming_metadata_cong [OF _ m, of h] h0(3) that show thesis
      by (auto simp: carried_def delivered_metadata_def)
  next
    fix stream assume "sent = CJsPublish m stream"
    with assms(4) incoming_metadata_extra [OF _ k m, of h stream] h0(3) that show thesis
      by (auto simp: carried_def delivered_metadata_def)
  qed
qed

lemma request_header_received:
  assumes "header_set_law env"
  obtains h md' where "request_header env md wait = Inr h" "incoming_metadata h = Inr md'" "md' \<noteq> None"
    "mget md' = request_metadata md wait"
proof -
  obtain h where h: "request_header env md wait = Inr h"
    "mget h = (\<lambda>k. if k = TimeoutKey then Some [format_int64 (duration_ms wait)]
        else if k = MsgIDHeader \<and> mget md MessageIDKey \<noteq> None then map_option (\<lambda>v. [v]) (mget md MessageIDKey)
        else map_option (\<lambda>v. [v]) (mget md k))"
    using request_header_ok [OF assms] by blast
  obtain md' where md': "incoming_metadata h = Inr md'" "md' \<noteq> None"
    "\<And>k. mget md' k = (if k = MessageIDKey \<and> first_value (mget h MsgIDHeader) \<noteq> None
        then first_value (mget h MsgIDHeader) else first_value (mget h k))"
    using incoming_metadata_ok [of h] by blast
  have ht: "first_value (mget h TimeoutKey) = Some (format_int64 (duration_ms wait))"
    by (simp add: h(2) first_value_def)
  have hv: "first_value (mget h k) =
      (if k = MsgIDHeader \<and> mget md MessageIDKey \<noteq> None then mget md MessageIDKey else mget md k)"
    if "k \<noteq> TimeoutKey" for k
    using that by (cases "mget md MessageIDKey") (auto simp: h(2) first_value_single)
  have "mget md' = request_metadata md wait"
  proof
    fix k
    show "mget md' k = request_metadata md wait k"
      using ht hv [of k] hv [of MsgIDHeader] md'(3) [of k]
      by (cases "k = TimeoutKey"; cases "mget md MessageIDKey"; cases "mget md MsgIDHeader")
        (simp_all add: request_metadata_def sent_metadata_def)
  qed
  with h(1) md'(1,2) show ?thesis by (rule that)
qed

text \<open>The timeout of a request, in milliseconds, never overflows on the way back.\<close>

lemma sint_duration_ms:
  assumes "0 \<le> sint d"
  shows "sint (duration_ms d) = sint d div 1000000" "sint (duration_ms d) \<le> 9223372036854"
proof -
  have b: "0 \<le> sint d div 1000000" "sint d div 1000000 \<le> 9223372036854"
    using assms sint64_bounds(2) [of d] by (simp_all add: zdiv_mono1 [of "sint d" "2 ^ 63 - 1" 1000000, simplified])
  have "duration_ms d = word_of_int (sint d div 1000000)"
    using assms by (cases "sint d = 0") (simp_all add: duration_ms_def sgn_if)
  then show s: "sint (duration_ms d) = sint d div 1000000"
    using b by (simp only:) (intro sint_word_of_int_id; simp)
  show "sint (duration_ms d) \<le> 9223372036854" using b s by simp
qed

lemma request_deadline_received:
  assumes "mget md = request_metadata md0 wait" and "0 \<le> sint wait"
  shows "request_deadline md arrival = Some (arrival + sint wait div 1000000 * 1000000)"
proof -
  have "mget md TimeoutKey = Some (format_int64 (duration_ms wait))"
    using assms(1) by (simp add: request_metadata_def)
  from parse_int64_msec [OF parse_format_int64 this] sint_duration_ms [OF assms(2)] assms(2)
    sint_mult_msec [of "duration_ms wait"]
  show ?thesis by (simp add: time_add_def pos_imp_zdiv_nonneg_iff)
qed

text \<open>What is plain.\<close>

lemma plain_metadataD: "plain_metadata md \<Longrightarrow> mget md k = Some v \<Longrightarrow> plain_key k \<and> plain_text v"
  by (auto simp: plain_metadata_def list_all_iff mget_mrange dest!: map_of_SomeD)

lemma plain_headerI:
  assumes "\<And>k vs. mget h k = Some vs \<Longrightarrow> plain_key k \<and> vs \<noteq> [] \<and> list_all plain_text vs"
  shows "plain_header h"
  using assms by (auto simp: plain_header_def list_all_iff mget_mrange distinct_mrange)

lemma plain_format_int64: "plain_text (format_int64 w)"
proof -
  have d: "is_digit c \<Longrightarrow> byte c \<notin> {9, 10, 13, 32}" for c by (auto simp: is_digit_def)
  have n: "list_all (\<lambda>c. byte c \<notin> {9, 10, 13, 32}) (format_int64 w)"
    using show_nat_digits d by (auto simp: format_int64_def list_all_iff byte_def)
  then show ?thesis
    unfolding plain_text_def by (cases "format_int64 w = []") (auto simp: list_all_iff)
qed

lemma plain_keys [simp]: "plain_key TimeoutKey" "plain_key MsgIDHeader" "plain_key HandlerErrorKey"
  by (simp_all add: mesh_key_defs plain_key_def token_char_def is_digit_def byte_def)

lemma request_header_plain:
  assumes "header_set_law env" and "request_header env md wait = Inr h" and "plain_metadata md"
  shows "plain_header h"
proof (rule plain_headerI)
  fix k vs assume k: "mget h k = Some vs"
  obtain h' where "request_header env md wait = Inr h'"
    "mget h' = (\<lambda>k. if k = TimeoutKey then Some [format_int64 (duration_ms wait)]
        else if k = MsgIDHeader \<and> mget md MessageIDKey \<noteq> None then map_option (\<lambda>v. [v]) (mget md MessageIDKey)
        else map_option (\<lambda>v. [v]) (mget md k))"
    using request_header_ok [OF assms(1)] by blast
  with assms(2) k show "plain_key k \<and> vs \<noteq> [] \<and> list_all plain_text vs"
    using plain_metadataD [OF assms(3)] by (auto simp: plain_format_int64 split: if_splits)
qed

lemma result_header_plain:
  assumes "plain_result res"
    and "mget h = (case snd res of
        None \<Rightarrow> (\<lambda>k. map_option (\<lambda>v. [v]) (mget (M_Metadata (fst res)) k)) | Some e \<Rightarrow> [HandlerErrorKey \<mapsto> [e]])"
  shows "plain_header h"
proof (rule plain_headerI)
  fix k vs assume "mget h k = Some vs"
  with assms show "plain_key k \<and> vs \<noteq> [] \<and> list_all plain_text vs"
    by (cases res; cases "snd res") (auto simp: plain_result_def dest: plain_metadataD split: if_splits)
qed

text \<open>A subscriber answers nothing.\<close>

lemma answered_by_endpoint:
  assumes "answered env S hctx b m reply"
  shows "sb_subscriber b = None"
proof (cases "sb_subscriber b")
  case (Some h)
  from assms obtain m' arrival W logs W' p where "serve env S hctx b m' arrival W = (Inr logs, W')"
    "CPublish p \<in> set (drop (length (w_log W)) (w_log W'))"
    unfolding answered_def by blast
  with Some show ?thesis by (auto simp: serve_def Let_def split: sum.splits)
qed simp

text \<open>
  What a request is to its handler and what its caller gets: the handler is given the payload
  under its own target, and all metadata but what the transport sets; and a result that
  travels unchanged is what the caller gets.
\<close>

definition reply_read :: "target \<Rightarrow> message \<times> string option \<Rightarrow> message res \<Rightarrow> bool" where
  "reply_read tgt res r \<longleftrightarrow>
    (case res of
       (out, None) \<Rightarrow> \<exists>md. r = Inr \<lparr>M_Target = tgt, M_Metadata = md, M_Payload = M_Payload out\<rparr> \<and>
         mget md = mget (M_Metadata out)
     | (_, Some e) \<Rightarrow> r = Inl (HandlerError e))"

definition handled_request :: "target \<Rightarrow> endpoint_handler \<Rightarrow> message \<Rightarrow> message res \<Rightarrow> bool" where
  "handled_request tgt h msg r \<longleftrightarrow>
    (\<exists>hc hm. M_Target hm = tgt \<and> M_Payload hm = M_Payload msg \<and>
      (\<forall>k. k \<notin> {TimeoutKey, DeadlineKey, MessageIDKey, MsgIDHeader} \<longrightarrow>
        mget (M_Metadata hm) k = mget (M_Metadata msg) k) \<and>
      (plain_result (endpoint_result (h hc hm)) \<longrightarrow> reply_read (M_Target msg) (endpoint_result (h hc hm)) r))"

text \<open>
  The two sides together.  A request makes one call.  If that returns an error, so does the
  request; if it returns a reply, one of the subscriptions that \<open>P\<close> holds of has served it.
\<close>

lemma request_answered:
  assumes "header_set_law env" and "request_checks env c msg opts = Inr (subj, t)" and "plain_metadata (M_Metadata msg)"
    and routed: "\<forall>bctx m w reply. N_Subject m = subj \<longrightarrow> fst (n_request N bctx m w) = Inr reply \<longrightarrow>
      (\<exists>b h. P b h \<and> sb_subscriber b = None \<and> sb_endpoint b = Some h \<and> answered env S hctx b m reply)"
  obtains bctx m w where "bctx = fst (fst (bound_context N ctx t W))"
    "w_log (snd (request env N c ctx msg opts W)) = w_log W @ [CRequest m]" "N_Subject m = subj"
    "\<forall>x. fst (n_request N bctx m w) = Inl x \<longrightarrow>
      (\<exists>now. fst (request env N c ctx msg opts W) = Inl (External (timeout_error bctx now x)))"
    "\<forall>reply. fst (n_request N bctx m w) = Inr reply \<longrightarrow>
      (\<exists>b h. P b h \<and> handled_request (sb_target b) h msg (fst (request env N c ctx msg opts W)))"
proof -
  obtain bctx wait W1 where bc: "bound_context N ctx t W = ((bctx, wait), W1)" by (metis prod.exhaust)
  obtain h0 md0 where h0: "request_header env (M_Metadata msg) wait = Inr h0" "incoming_metadata h0 = Inr md0"
    "md0 \<noteq> None" "mget md0 = request_metadata (M_Metadata msg) wait"
    using request_header_received [OF assms(1)] .
  let ?m = "\<lparr>N_Subject = subj, N_Reply = [], N_Header = h0, N_Data = M_Payload msg\<rparr>"
  obtain r X where n: "n_request N bctx ?m (w_ext W1) = (r, X)" by force
  have log1: "w_log W1 = w_log W"
    using bc by (auto simp: bound_context_def Let_def split: option.splits prod.splits dest!: clock_log)
  show thesis
  proof (rule that [of bctx ?m "w_ext W1"])
    show "bctx = fst (fst (bound_context N ctx t W))" using bc by simp
    show "w_log (snd (request env N c ctx msg opts W)) = w_log W @ [CRequest ?m]"
      using assms(2) bc h0(1) n log1
      by (cases r) (simp_all add: request_def Let_def perform_def split_beta)
    show "N_Subject ?m = subj" by simp
    show "\<forall>x. fst (n_request N bctx ?m (w_ext W1)) = Inl x \<longrightarrow>
        (\<exists>now. fst (request env N c ctx msg opts W) = Inl (External (timeout_error bctx now x)))"
      using assms(2) bc h0(1) n by (auto simp: request_def Let_def perform_def split_beta)
  next
    show "\<forall>reply. fst (n_request N bctx ?m (w_ext W1)) = Inr reply \<longrightarrow>
        (\<exists>b h. P b h \<and> handled_request (sb_target b) h msg (fst (request env N c ctx msg opts W)))"
    proof (intro allI impI)
      fix reply assume reply: "fst (n_request N bctx ?m (w_ext W1)) = Inr reply"
      have req: "fst (request env N c ctx msg opts W) = read_reply (M_Target msg) reply"
        using reply assms(2) bc h0(1) n by (simp add: request_def Let_def perform_def)
      have "N_Subject ?m = subj" by simp
      from routed [rule_format, OF this reply] obtain b h where b: "P b h" "sb_subscriber b = None" "sb_endpoint b = Some h"
        "answered env S hctx b ?m reply" by blast
      from b(4) obtain m' arrival V logs V' p where d: "N_Reply m' \<noteq> []" "N_Data m' = M_Payload msg"
        "arrives h0 (N_Header m')" "serve env S hctx b m' arrival V = (Inr logs, V')"
        "CPublish p \<in> set (drop (length (w_log V)) (w_log V'))" "N_Data reply = N_Data p" "arrives (N_Header p) (N_Header reply)"
        unfolding answered_def by auto
      have same: "mget (N_Header m') = mget h0"
        using d(3) request_header_plain [OF assms(1) h0(1) assms(3)] by (simp add: arrives_def)
      obtain md1 where md1: "incoming_metadata (N_Header m') = Inr md1" "md1 \<noteq> None" "mget md1 = mget md0"
        using incoming_metadata_cong [OF same] h0(2) by blast
      obtain hc hm reply' where s: "w_log V' = w_log V @ [CHandle hc hm, CPublish reply']"
        "M_Target hm = sb_target b" "M_Payload hm = M_Payload msg"
        "mget (M_Metadata hm) = (case request_deadline md1 arrival of
            None \<Rightarrow> mget md1 | Some d \<Rightarrow> (mget md1)(DeadlineKey \<mapsto> rfc3339_nano (env_zone env) d))"
        "N_Data reply' = (case snd (endpoint_result (h hc hm)) of
            None \<Rightarrow> M_Payload (fst (endpoint_result (h hc hm))) | Some _ \<Rightarrow> [])"
        "mget (N_Header reply') = (case snd (endpoint_result (h hc hm)) of
            None \<Rightarrow> (\<lambda>k. map_option (\<lambda>v. [v]) (mget (M_Metadata (fst (endpoint_result (h hc hm)))) k))
          | Some e \<Rightarrow> [HandlerErrorKey \<mapsto> [e]])"
        by (rule serve_endpoint_result [OF assms(1) b(2,3) d(1) md1(1,2), of S hctx arrival V]) (use d(2,4) in auto)
      have p: "p = reply'" using d(5) s(1) by simp
      have meta: "\<forall>k. k \<notin> {TimeoutKey, DeadlineKey, MessageIDKey, MsgIDHeader} \<longrightarrow>
          mget (M_Metadata hm) k = mget (M_Metadata msg) k"
        using s(4) md1(3) h0(4) by (auto simp: request_metadata_def sent_metadata_def split: option.splits)
      have res: "reply_read (M_Target msg) (endpoint_result (h hc hm)) (read_reply (M_Target msg) reply)"
        if plain: "plain_result (endpoint_result (h hc hm))"
      proof -
        have g: "mget (N_Header reply) = mget (N_Header reply')"
          using d(7) result_header_plain [OF plain s(6)] p by (simp add: arrives_def)
        show ?thesis
        proof (cases "endpoint_result (h hc hm)")
          case (Pair out err)
          with plain g s(5,6) d(6) p read_reply_message [of reply "M_Metadata out" "M_Target msg"]
            read_reply_error [of reply _ "M_Target msg"]
          show ?thesis by (cases err) (auto simp: plain_result_def reply_read_def)
        qed
      qed
      have "handled_request (sb_target b) h msg (fst (request env N c ctx msg opts W))"
        unfolding handled_request_def req using s(2,3) meta res
        by (intro exI [of _ hc] exI [of _ hm] conjI impI)
      with b(1) show "\<exists>b h. P b h \<and> handled_request (sb_target b) h msg (fst (request env N c ctx msg opts W))"
        by blast
    qed
  qed
qed

lemma request_handled:
  assumes "header_set_law env" and "request_checks env c msg opts = Inr (sb_subject b, t)"
    and "plain_metadata (M_Metadata msg)" and "sb_endpoint b = Some h" and "request_delivered env N S hctx b"
  obtains bctx m w where "bctx = fst (fst (bound_context N ctx t W))"
    "w_log (snd (request env N c ctx msg opts W)) = w_log W @ [CRequest m]" "N_Subject m = sb_subject b"
    "\<forall>x. fst (n_request N bctx m w) = Inl x \<longrightarrow>
      (\<exists>now. fst (request env N c ctx msg opts W) = Inl (External (timeout_error bctx now x)))"
    "\<forall>reply. fst (n_request N bctx m w) = Inr reply \<longrightarrow>
      handled_request (sb_target b) h msg (fst (request env N c ctx msg opts W))"
proof -
  have r: "\<forall>bctx m w reply. N_Subject m = sb_subject b \<longrightarrow> fst (n_request N bctx m w) = Inr reply \<longrightarrow>
      (\<exists>b' h'. (b' = b \<and> h' = h) \<and> sb_subscriber b' = None \<and> sb_endpoint b' = Some h' \<and> answered env S hctx b' m reply)"
  proof (intro allI impI)
    fix bctx m w reply
    assume "N_Subject m = sb_subject b" "fst (n_request N bctx m w) = Inr reply"
    then have "answered env S hctx b m reply" using assms(5) unfolding request_delivered_def by blast
    with assms(4) answered_by_endpoint [OF this]
    show "\<exists>b' h'. (b' = b \<and> h' = h) \<and> sb_subscriber b' = None \<and> sb_endpoint b' = Some h' \<and> answered env S hctx b' m reply"
      by simp
  qed
  show thesis
    by (rule request_answered [OF assms(1-3) r, where ctx = ctx and W = W]) (rule that; simp)
qed

section \<open>Sample values for the witnesses\<close>

text \<open>A connection that hands a request to the endpoint of a subscription and returns its reply.\<close>

definition sample_wire :: "subscription \<Rightarrow> nat nats" where
  "sample_wire b = sample_nats\<lparr>n_request := \<lambda>ctx m w.
     let W' = snd (serve sample_env sample_nats ctx_background b (m\<lparr>N_Reply := ''_INBOX.1''\<rparr>) 0 (init_world w))
     in (case last (w_log W') of CPublish r \<Rightarrow> Inr r | _ \<Rightarrow> Inl ErrTimeout, w_ext W')\<rparr>"

text \<open>Serving makes no request of its own.\<close>

lemma serve_no_request: "serve env (N\<lparr>n_request := f\<rparr>) hctx b m arrival W = serve env N hctx b m arrival W"
proof -
  have "n_now (N\<lparr>n_request := f\<rparr>) = n_now N" "n_publish (N\<lparr>n_request := f\<rparr>) = n_publish N" by simp_all
  then show ?thesis unfolding serve_def serve_endpoint_def endpoint_context_def clock_def by (simp only:)
qed

lemma sample_wire_answers:
  assumes b: "sb_subscriber b = None" "sb_endpoint b = Some h"
  obtains reply where "fst (n_request (sample_wire b) ctx m w) = Inr reply"
    "answered sample_env sample_nats ctx_background b m reply"
proof -
  let ?m = "m\<lparr>N_Reply := ''_INBOX.1''\<rparr>"
  have n: "N_Reply ?m \<noteq> []" by simp
  obtain md where md: "incoming_metadata (N_Header ?m) = Inr md" "md \<noteq> None"
    by (rule incoming_metadata_ok [of "N_Header ?m"]) (rule that)
  obtain logs W' hc hm reply where s: "serve sample_env sample_nats ctx_background b ?m 0 (init_world w) = (Inr logs, W')"
    "w_log W' = w_log (init_world w) @ [CHandle hc hm, CPublish reply]" "N_Subject reply = N_Reply ?m"
    using serve_endpoint_result [OF sample_env_laws(1) b n md] .
  show ?thesis
  proof (rule that)
    show "fst (n_request (sample_wire b) ctx m w) = Inr reply" using s by (simp add: sample_wire_def Let_def)
    show "answered sample_env sample_nats ctx_background b m reply"
      unfolding answered_def using s
      by (intro exI [of _ ?m] exI [of _ 0] exI [of _ "init_world w"] exI [of _ logs] exI [of _ W'] exI [of _ reply])
        (simp add: arrives_def)
  qed
qed

lemma sample_wire_delivers:
  assumes b: "sb_subscriber b = None" "sb_endpoint b = Some h"
  shows "request_delivered sample_env (sample_wire b) sample_nats ctx_background b"
    and "request_delivered sample_env (sample_wire b) (sample_wire b) ctx_background b"
proof -
  show 1: "request_delivered sample_env (sample_wire b) sample_nats ctx_background b"
    unfolding request_delivered_def
  proof (intro allI impI)
    fix ctx :: gocontext and m reply :: natsmsg and w :: nat
    assume "fst (n_request (sample_wire b) ctx m w) = Inr reply"
    with sample_wire_answers [OF b, of ctx m w] show "answered sample_env sample_nats ctx_background b m reply"
      by (metis sum.inject(2))
  qed
  have "serve sample_env (sample_wire b) = serve sample_env sample_nats"
    by (intro ext) (simp add: sample_wire_def serve_no_request)
  with 1 show "request_delivered sample_env (sample_wire b) (sample_wire b) ctx_background b"
    by (simp add: request_delivered_def answered_def)
qed

end
