(* ===== verification/Examples.thy ===== *)
theory Examples
  imports Programs Rpc Deliveries
begin

text \<open>
  The example programs: \<open>examples/server\<close>, which serves until a signal, \<open>examples/client\<close>,
  which sends one message, and \<open>examples/echo\<close>, which does both in one process.
\<close>

section \<open>Shared values\<close>

text \<open>The three programs declare the same targets.\<close>

definition echoTarget :: target where
  "echoTarget = \<lparr>T_Segments = [''demo'', ''echo''], T_Kind = KindRoute, T_Metadata = None\<rparr>"

definition createdTarget :: target where
  "createdTarget = \<lparr>T_Segments = [''demo'', ''created''], T_Kind = KindTopic, T_Metadata = None\<rparr>"

definition serviceMap :: "target list" where
  "serviceMap = [echoTarget, createdTarget]"

section \<open>The server\<close>

text \<open>
  The handlers of \<open>examples/server\<close>: what a call logs, and what it returns.  The text of
  \<open>os.ErrInvalid\<close> is \<open>invalid argument\<close>.
\<close>

definition server_echo ::
    "goenv \<Rightarrow> string \<Rightarrow> call_obs \<Rightarrow> gocontext \<Rightarrow> message \<Rightarrow> printed list \<times> message outcome" where
  "server_echo env inst ob ctx m =
    ([Logged (''['' @ inst @ ''] '')
       (''echo request '' @ go_quote env (M_Payload m) @ '' metadata '' @ map_text (M_Metadata m))],
     if M_Payload m = ''fail'' then Returns zero_message (Some ''invalid argument'')
     else
       let reply = zero_message\<lparr>M_Metadata := mlit [(''Echoed-By'', inst)], M_Payload := ''echo: '' @ M_Payload m\<rparr>
       in if M_Payload m = ''slow'' then
            (case snd (select_after (co_select ob) (5 * Second) (co_tie ob) ctx) of
               None \<Rightarrow> Returns reply None
             | Some e \<Rightarrow> Returns zero_message (Some (ext_text e)))
          else Returns reply None)"

definition server_created ::
    "goenv \<Rightarrow> string \<Rightarrow> gocontext \<Rightarrow> message \<Rightarrow> printed list \<times> unit outcome" where
  "server_created env inst ctx m =
    ([Logged (''['' @ inst @ ''] '')
       (''created event '' @ go_quote env (M_Payload m) @ '' metadata '' @ map_text (M_Metadata m))],
     Returns () None)"

definition server_endpoint :: "goenv \<Rightarrow> 'w session \<Rightarrow> string \<Rightarrow> endpoint" where
  "server_endpoint env s inst =
    \<lparr>E_Target = echoTarget, E_Handler = Some (\<lambda>ctx m. snd (server_echo env inst (se_call s ctx m) ctx m)),
     E_ConsumerGroup = [], E_Metadata = None\<rparr>"

definition server_subscriber :: "goenv \<Rightarrow> string \<Rightarrow> subscriber" where
  "server_subscriber env inst =
    \<lparr>S_Target = createdTarget, S_Handler = Some (\<lambda>ctx m. (snd (server_created env inst ctx m), M_Metadata m)),
     S_ConsumerGroup = [], S_Metadata = None\<rparr>"

definition server_main ::
    "goenv \<Rightarrow> mesh_texts \<Rightarrow> 'w nats \<Rightarrow> (string \<Rightarrow> string) \<Rightarrow> 'w session \<Rightarrow> (unit, 'w) prog" where
  "server_main env mt N getenv s =
    (let inst = (if getenv ''INSTANCE'' = [] then ''server'' else getenv ''INSTANCE'');
         deployment = (if getenv ''DEPLOYMENT'' = [] then ''demo'' else getenv ''DEPLOYMENT'');
         pre = ''['' @ inst @ ''] '';
         cfg = mlit [(key URLKey, getenv ''NATS_URL''), (key NameKey, inst), (DeploymentGroupKey, deployment)]
     in andThenDo (try_act (new_client N cfg serviceMap)) (\<lambda>r. case r of
          Inl e \<Rightarrow> fatal pre (''connect: '' @ error_text env mt e)
        | Inr c \<Rightarrow>
            (case new_runtime env (Some c) cfg [server_endpoint env s inst] [server_subscriber env inst] [] of
               Inl e \<Rightarrow> fatal pre (error_text env mt e)
             | Inr rc \<Rightarrow>
                 andThenDo (start_runtime N (created rc c) ctx_background) (\<lambda>(err, rt). case err of
                   Some e \<Rightarrow> fatal pre (''start: '' @ error_text env mt e)
                 | None \<Rightarrow>
                     andThenDo (say [Logged pre ''serving demo.echo and demo.created; Ctrl-C to stop'']) (\<lambda>_.
                     andThenDo (wait_for_signal s rt) (\<lambda>rt.
                     andThenDo (say [Logged pre ''stopping, draining up to 10s'']) (\<lambda>_.
                     andThenDo (act (clock N)) (\<lambda>now.
                     andThenDo (stop_runtime N s rt (with_timeout ctx_background now (10 * Second))) (\<lambda>err.
                     andThenDo (case err of None \<Rightarrow> give ()
                       | Some e \<Rightarrow> say [Logged pre (''stop: '' @ ext_text e)]) (\<lambda>_.
                     say [Logged pre ''stopped'']))))))))))"

section \<open>The client\<close>

definition client_usage :: string where
  "client_usage = ''usage: client request|publish <payload>''"

definition report_text :: "goenv \<Rightarrow> mesh_texts \<Rightarrow> goerr \<Rightarrow> string" where
  "report_text env mt e =
    (case e of
       HandlerError t \<Rightarrow> ''handler failed on the server: '' @ t
     | _ \<Rightarrow>
         if goerr_is e SNoResponders then ''no server is serving demo.echo''
         else if goerr_is e STimeout then ''request timed out''
         else case e of
             ErrKindMismatch _ _ _ \<Rightarrow> ''contract misuse: '' @ error_text env mt e
           | ErrInvalidTarget _ \<Rightarrow> ''contract misuse: '' @ error_text env mt e
           | ErrBadConfig _ _ _ \<Rightarrow> ''contract misuse: '' @ error_text env mt e
           | _ \<Rightarrow> ''transport error: '' @ error_text env mt e)"

definition report :: "goenv \<Rightarrow> mesh_texts \<Rightarrow> goerr \<Rightarrow> (unit, 'w) prog" where
  "report env mt e = say [Stdout (report_text env mt e @ newline)]"

text \<open>The \<open>switch\<close> of \<open>main\<close> on the verb.\<close>

definition client_call ::
    "goenv \<Rightarrow> mesh_texts \<Rightarrow> 'w nats \<Rightarrow> client \<Rightarrow> string \<Rightarrow> message \<Rightarrow> string gomap \<Rightarrow> (unit, 'w) prog" where
  "client_call env mt N c verb msg opts =
    (if verb = ''request'' then
       andThenDo (act (clock N)) (\<lambda>start.
       andThenDo (try_act (request env N c ctx_background (msg\<lparr>M_Target := echoTarget\<rparr>) opts)) (\<lambda>r. case r of
           Inl e \<Rightarrow> andThenDo (report env mt e) (\<lambda>_. exit_with 1)
         | Inr reply \<Rightarrow>
             andThenDo (act (clock N)) (\<lambda>end.
             say [Stdout (''reply after '' @ ms_text (time_sub end start) @ '': '' @
               go_quote env (M_Payload reply) @ '' metadata '' @ map_text (M_Metadata reply) @ newline)])))
     else if verb = ''publish'' then
       andThenDo (try_act (publish env N c ctx_background (msg\<lparr>M_Target := createdTarget\<rparr>) opts)) (\<lambda>r. case r of
           Inl e \<Rightarrow> andThenDo (report env mt e) (\<lambda>_. exit_with 1)
         | Inr _ \<Rightarrow> say [Stdout (''published'' @ newline)])
     else andThenDo (say [Stderr (client_usage @ newline)]) (\<lambda>_. exit_with 2))"

definition client_main ::
    "goenv \<Rightarrow> mesh_texts \<Rightarrow> 'w nats \<Rightarrow> (string \<Rightarrow> string) \<Rightarrow> string list \<Rightarrow> (unit, 'w) prog" where
  "client_main env mt N getenv args =
    (if length args \<noteq> 3 then andThenDo (say [Stderr (client_usage @ newline)]) (\<lambda>_. exit_with 2)
     else
       let verb = args ! 1; payload = args ! 2;
           cfg = mlit [(key URLKey, getenv ''NATS_URL''), (key NameKey, ''client'')];
           opts = (if getenv ''TIMEOUT'' = [] then mmake else mlit [(key RequestTimeoutKey, getenv ''TIMEOUT'')])
       in andThenDo (try_act (new_client N cfg serviceMap)) (\<lambda>r. case r of
            Inl e \<Rightarrow> fatal [] (''connect: '' @ error_text env mt e)
          | Inr c \<Rightarrow> deferred (close_client N c)
              (andThenDo (act (clock N)) (\<lambda>now.
               client_call env mt N c verb
                 \<lparr>M_Target = zero_target, M_Metadata = mlit [(''Sent-At'', rfc3339_nano (env_zone env) now)],
                  M_Payload = payload\<rparr> opts))))"

section \<open>Both in one process\<close>

text \<open>
  The handlers of \<open>examples/echo\<close>.  The subscriber's puts the message it is called with into
  the channel \<open>received\<close>.
\<close>

definition demo_echo :: endpoint_handler where
  "demo_echo ctx m =
    Returns (zero_message\<lparr>M_Metadata := mlit [(''Echoed-By'', ''demo'')], M_Payload := ''echo: '' @ M_Payload m\<rparr>) None"

definition demo_created :: subscriber_handler where
  "demo_created ctx m = (Returns () None, M_Metadata m)"

definition echo_endpoint :: endpoint where
  "echo_endpoint = \<lparr>E_Target = echoTarget, E_Handler = Some demo_echo, E_ConsumerGroup = [], E_Metadata = None\<rparr>"

definition echo_subscriber :: subscriber where
  "echo_subscriber = \<lparr>S_Target = createdTarget, S_Handler = Some demo_created, S_ConsumerGroup = [], S_Metadata = None\<rparr>"

definition echo_config :: "(string \<Rightarrow> string) \<Rightarrow> config" where
  "echo_config getenv = mlit [(key URLKey, getenv ''NATS_URL''), (DeploymentGroupKey, ''demo'')]"

text \<open>
  The \<open>select\<close> on the channel: the first message that NATS hands to a subscriber of the
  process goes through its subscription to the handler, and the message of that call is the one
  received.  When there is none, the context ends first.
\<close>

fun first_handled :: "call list \<Rightarrow> message option" where
  "first_handled [] = None"
| "first_handled (CHandle _ m # _) = Some m"
| "first_handled (_ # cs) = first_handled cs"

definition receive_event ::
    "goenv \<Rightarrow> 'w nats \<Rightarrow> 'w session \<Rightarrow> subscription list \<Rightarrow> 'w world \<Rightarrow> message option \<times> 'w world" where
  "receive_event env N s bs W =
    (case se_event s (w_log W) of
       None \<Rightarrow> (None, W)
     | Some (m, arrival) \<Rightarrow>
         (case find (\<lambda>b. sb_subject b = N_Subject m \<and> sb_subscriber b \<noteq> None) bs of
            None \<Rightarrow> (None, W)
          | Some b \<Rightarrow>
              let W' = snd (serve env N ctx_background b m arrival W)
              in (first_handled (drop (length (w_log W)) (w_log W')), W')))"

text \<open>
  What \<open>main\<close> does with a running runtime, whose subscriptions are \<open>bs\<close>, before its
  deferred \<open>Stop\<close>.
\<close>

definition echo_calls ::
    "goenv \<Rightarrow> mesh_texts \<Rightarrow> 'w nats \<Rightarrow> 'w session \<Rightarrow> subscription list \<Rightarrow> client \<Rightarrow> gocontext \<Rightarrow> (unit, 'w) prog" where
  "echo_calls env mt N s bs c ctx =
    andThenDo (try_act (request env N c ctx \<lparr>M_Target = echoTarget, M_Metadata = mlit [(''Request-Id'', ''1'')],
      M_Payload = ''hello''\<rparr> None)) (\<lambda>r. case r of
      Inl e \<Rightarrow> fatal [] (''request: '' @ error_text env mt e)
    | Inr reply \<Rightarrow>
        andThenDo (say [Stdout (''reply: '' @ M_Payload reply @ '' (metadata '' @ map_text (M_Metadata reply) @ '')'' @ newline)]) (\<lambda>_.
        andThenDo (try_act (publish env N c ctx \<lparr>M_Target = createdTarget, M_Metadata = None, M_Payload = ''order 42''\<rparr> None)) (\<lambda>r.
        case r of
          Inl e \<Rightarrow> fatal [] (''publish: '' @ error_text env mt e)
        | Inr _ \<Rightarrow>
            andThenDo (act (receive_event env N s bs)) (\<lambda>got.
            andThenDo (case got of
                None \<Rightarrow> fatal [] ''subscriber did not receive the event''
              | Some m \<Rightarrow> say [Stdout (''subscriber got: '' @ M_Payload m @ newline)]) (\<lambda>_.
            andThenDo (try_act (publish env N c ctx \<lparr>M_Target = echoTarget, M_Metadata = None, M_Payload = []\<rparr> None)) (\<lambda>r.
            case r of
              Inl e \<Rightarrow> say [Stdout (''publish to a route target: '' @ error_text env mt e @ newline)]
            | Inr _ \<Rightarrow> give ()))))))"

definition echo_main ::
    "goenv \<Rightarrow> mesh_texts \<Rightarrow> 'w nats \<Rightarrow> (string \<Rightarrow> string) \<Rightarrow> 'w session \<Rightarrow> (unit, 'w) prog" where
  "echo_main env mt N getenv s =
    (let cfg = echo_config getenv
     in andThenDo (act (clock N)) (\<lambda>now.
        let ctx = with_timeout ctx_background now (10 * Second)
        in andThenDo (try_act (new_client N cfg serviceMap)) (\<lambda>r. case r of
             Inl e \<Rightarrow> fatal [] (''connect: '' @ error_text env mt e)
           | Inr c \<Rightarrow>
               (case new_runtime env (Some c) cfg [echo_endpoint] [echo_subscriber] [] of
                  Inl e \<Rightarrow> fatal [] (error_text env mt e)
                | Inr rc \<Rightarrow>
                    andThenDo (start_runtime N (created rc c) ctx) (\<lambda>(err, rt). case err of
                      Some e \<Rightarrow> fatal [] (''start: '' @ error_text env mt e)
                    | None \<Rightarrow> deferred
                        (andThenDo (stop_runtime N s rt ctx) (\<lambda>err.
                           case err of None \<Rightarrow> give () | Some e \<Rightarrow> say [Logged [] (''stop: '' @ ext_text e)]))
                        (echo_calls env mt N s (rc_subscriptions rc) c ctx))))))"

section \<open>Lemmas\<close>

lemma demo_subjects: "subject env echoTarget = Inr ''demo.echo''" "subject env createdTarget = Inr ''demo.created''"
  by (simp_all add: subject_def echoTarget_def createdTarget_def check_segment_def go_text_eval)

lemma demo_target_fields [simp]:
  "T_Kind echoTarget = KindRoute" "T_Metadata echoTarget = None"
  "T_Kind createdTarget = KindTopic" "T_Metadata createdTarget = None"
  by (simp_all add: echoTarget_def createdTarget_def)

text \<open>What a run of \<open>examples/client\<close> may amount to.\<close>

definition client_sent :: "string \<Rightarrow> string \<Rightarrow> call \<Rightarrow> bool" where
  "client_sent verb payload c \<longleftrightarrow> (\<exists>m. N_Data m = payload \<and>
    (verb = ''request'' \<and> N_Subject m = ''demo.echo'' \<and> c = CRequest m \<or>
     verb = ''publish'' \<and> N_Subject m = ''demo.created'' \<and> (c = CPublish m \<or> (\<exists>stream. c = CJsPublish m stream))))"

definition client_outcome :: "string list \<Rightarrow> halt + unit \<Rightarrow> call list \<Rightarrow> bool" where
  "client_outcome args r cs \<longleftrightarrow>
    (case r of
       Inr _ \<Rightarrow> length args = 3 \<and> (\<exists>u os c. client_sent (args ! 1) (args ! 2) c \<and> cs = [CConnect u os, c, CClose])
     | Inl h \<Rightarrow> (h = Exited 1 \<or> h = Exited 2) \<and> length (filter is_message cs) \<le> 1 \<and>
         (length args \<noteq> 3 \<longrightarrow> cs = [] \<and> h = Exited 2))"

lemma effects_report: "(\<And>line. Q (Inr ()) [] [line]) \<Longrightarrow> effects (report env mt e) Q"
  unfolding report_def by (rule effects_say)

lemma client_call_effects:
  assumes "header_set_law env"
  shows "effects (client_call env mt N c verb msg opts) (\<lambda>r cs out. (\<exists>line. out = [line]) \<and>
    (r = Inr () \<and> (\<exists>c. client_sent verb (M_Payload msg) c \<and> cs = [c]) \<or>
     (r = Inl (Exited 1) \<or> r = Inl (Exited 2)) \<and> length (filter is_message cs) \<le> 1))"
  unfolding client_call_def
  by (auto intro!: effects_rules effects_clock effects_request [OF assms] effects_publish [OF assms] effects_report
      simp: client_sent_def demo_subjects split: sum.split)

lemma client_main_effects:
  assumes "header_set_law env"
  shows "effects (client_main env mt N getenv args) (\<lambda>r cs out. client_outcome args r cs \<and> (\<exists>line. out = [line]))"
proof (cases "length args = 3")
  case False
  then show ?thesis
    unfolding client_main_def by (auto intro!: effects_rules simp: client_outcome_def)
next
  case True
  then show ?thesis
    unfolding client_main_def Let_def
    by (auto intro!: effects_rules effects_new_client effects_clock effects_close
        effects_mono [OF client_call_effects [OF assms]] simp: client_outcome_def)
qed

text \<open>C38: a run of \<open>examples/client\<close> writes exactly one line and sends at most one message, and
  none when it is called with other than two arguments.  It ends with status 0 only after it
  sent its payload once, by a request to \<open>demo.echo\<close> or a publish to \<open>demo.created\<close> as its verb
  says, and closed its connection; otherwise with status 1 or 2, and it never panics.\<close>

theorem client_sends_one_message:
  assumes "header_set_law env" and "client_main env mt N getenv args S = (r, S')"
  shows "\<exists>cs line. w_log (o_world S') = w_log (o_world S) @ cs \<and> o_out S' = o_out S @ [line] \<and>
    (case r of
       Inr _ \<Rightarrow> length args = 3 \<and> (\<exists>u os c. client_sent (args ! 1) (args ! 2) c \<and> cs = [CConnect u os, c, CClose])
     | Inl h \<Rightarrow> (h = Exited 1 \<or> h = Exited 2) \<and> length (filter is_message cs) \<le> 1 \<and>
         (length args \<noteq> 3 \<longrightarrow> cs = [] \<and> h = Exited 2))"
proof -
  obtain cs out where "w_log (o_world S') = w_log (o_world S) @ cs" "o_out S' = o_out S @ out"
    "client_outcome args r cs \<and> (\<exists>line. out = [line])"
    using effectsD [OF client_main_effects [OF assms(1)] assms(2)] .
  then show ?thesis unfolding client_outcome_def by blast
qed

lemma sample_publish_run:
  "fst (client_main sample_env sample_mesh_texts sample_nats (\<lambda>_. []) [''client'', ''publish'', ''order 42''] sample_os) = Inr ()"
proof -
  let ?cfg = "mlit [(key URLKey, []), (key NameKey, ''client'')]"
  let ?msg = "\<lambda>t. \<lparr>M_Target = createdTarget, M_Metadata = mlit [(''Sent-At'', rfc3339_nano (env_zone sample_env) t)],
    M_Payload = ''order 42''\<rparr>"
  obtain c W1 where c: "new_client sample_nats ?cfg serviceMap (init_world 0) = (Inr c, W1)" "\<not> cl_closed c"
    using that [of "\<lparr>cl_requestTimeout = defaultRequestTimeout, cl_serviceMap = serviceMap, cl_closed = False\<rparr>"]
    by (simp add: new_client_def parse_client_settings_def duration_setting_def sample_nats_def
        perform_def init_world_def Let_def)
  have checks: "publish_checks sample_env c (?msg t) mmake = Inr (''demo.created'', [], cl_requestTimeout c)" for t
    using c(2) unfolding publish_checks_Inr
    by (simp add: demo_subjects merge_settings_def mget0_def)
  have pub: "fst (publish sample_env sample_nats c ctx_background (?msg t) mmake W) = Inr ()" for t W
  proof -
    obtain h where "outgoing_header sample_env (M_Metadata (?msg t)) = Inr h"
      using outgoing_header_ok [OF sample_env_laws(1), of "M_Metadata (?msg t)"] .
    with checks [of t] show ?thesis
      by (simp add: publish_def Let_def clock_def ctx_err_def ctx_background_def sample_nats_def perform_def)
  qed
  have P: "publish sample_env sample_nats c ctx_background (?msg t) mmake W =
      (Inr (), snd (publish sample_env sample_nats c ctx_background (?msg t) mmake W))" for t W
    using pub [of t W] by (simp only: prod_eq_iff fst_conv snd_conv)
  let ?run = "client_main sample_env sample_mesh_texts sample_nats (\<lambda>_. []) [''client'', ''publish'', ''order 42''] sample_os"
  obtain t W2 where t: "clock sample_nats W1 = (t, W2)" by force
  have call: "client_call sample_env sample_mesh_texts sample_nats c ''publish''
      \<lparr>M_Target = zero_target, M_Metadata = mlit [(''Sent-At'', rfc3339_nano (env_zone sample_env) t)], M_Payload = ''order 42''\<rparr>
      mmake S = (Inr (), S\<lparr>o_world := snd (publish sample_env sample_nats c ctx_background (?msg t) mmake (o_world S)), o_out := o_out S @ [Stdout (''published'' @ newline)]\<rparr>)" for S
    unfolding client_call_def by (simp add: andThenDo_def try_act_run [OF P])
  have "fst ?run = fst (deferred (close_client sample_nats c) (andThenDo (act (clock sample_nats)) (\<lambda>now.
      client_call sample_env sample_mesh_texts sample_nats c ''publish''
        \<lparr>M_Target = zero_target, M_Metadata = mlit [(''Sent-At'', rfc3339_nano (env_zone sample_env) now)],
         M_Payload = ''order 42''\<rparr> mmake)) (sample_os\<lparr>o_world := W1\<rparr>))"
    using c(1) by (simp add: client_main_def andThenDo_def try_act_run sample_os_def del: key.simps)
  also have "\<dots> = Inr ()"
    by (simp add: deferred_def andThenDo_def act_def t call close_client_def split_beta)
  finally show ?thesis .
qed

theorem client_sends_one_message_witness:
  "\<exists>S' cs line u os c. client_main sample_env sample_mesh_texts sample_nats (\<lambda>_. []) [''client'', ''publish'', ''order 42''] sample_os
      = (Inr (), S') \<and>
    w_log (o_world S') = [CConnect u os, c, CClose] \<and> client_sent ''publish'' ''order 42'' c \<and> o_out S' = [line]"
proof -
  let ?args = "[''client'', ''publish'', ''order 42'']"
  obtain S' where S': "client_main sample_env sample_mesh_texts sample_nats (\<lambda>_. []) ?args sample_os = (Inr (), S')"
    using sample_publish_run by (metis prod.collapse)
  from client_sends_one_message [OF sample_env_laws(1) S'] S' show ?thesis
    by (auto simp: sample_os_def init_world_def)
qed

section \<open>The echo program on a server that delivers\<close>

text \<open>
  The documented behaviour of a reachable NATS server that has no stream on the demo's
  subjects, with a clock on which the whole run takes less than the ten seconds of the
  program's context.
\<close>

definition demo_server :: "'w nats \<Rightarrow> bool" where
  "demo_server N \<longleftrightarrow>
    (\<forall>u os w. fst (n_connect N u os w) = None) \<and> (\<forall>w. fst (n_jetstream N w) = None) \<and>
    (\<forall>ctx subj w. \<exists>e. fst (n_stream_by_subject N ctx subj w) = Inl e \<and> errors_is e SStreamNotFound) \<and>
    (\<forall>subj q w. \<exists>h. fst (n_subscribe N subj q w) = Inr h) \<and> (\<forall>ctx w. fst (n_flush N ctx w) = None) \<and>
    (\<forall>m w. fst (n_publish N m w) = None) \<and> (\<forall>w w'. fst (n_now N w) < fst (n_now N w') + 10000000000)"

text \<open>
  The server answers the request in time: one that is made with a context that outlives the run
  returns a reply.  It delivers the event in time: after a publish to the subscriber's subject,
  the first message the subscriber gets is the one published.
\<close>

definition demo_responds :: "'w nats \<Rightarrow> bool" where
  "demo_responds N \<longleftrightarrow>
    (\<forall>ctx m w. (\<forall>w'. ctx_err ctx (fst (n_now N w')) = None) \<longrightarrow> N_Subject m = ''demo.echo'' \<longrightarrow>
      (\<exists>reply. fst (n_request N ctx m w) = Inr reply))"

definition demo_delivers :: "'w session \<Rightarrow> bool" where
  "demo_delivers s \<longleftrightarrow>
    (\<forall>calls m. N_Subject m = ''demo.created'' \<longrightarrow>
      (\<exists>m' arrival. se_event s (calls @ [CPublish m]) = Some (m', arrival) \<and> N_Subject m' = N_Subject m \<and>
        carried (CPublish m) (N_Header m') (N_Data m')))"

definition echo_sub :: subscription where
  "echo_sub = \<lparr>sb_subject = ''demo.echo'', sb_queue = ''demo'', sb_target = echoTarget,
     sb_endpoint = Some demo_echo, sb_subscriber = None, sb_js = None\<rparr>"

definition created_sub :: subscription where
  "created_sub = \<lparr>sb_subject = ''demo.created'', sb_queue = ''demo'', sb_target = createdTarget,
     sb_endpoint = None, sb_subscriber = Some demo_created, sb_js = None\<rparr>"

lemma demo_client:
  assumes "demo_server N"
  obtains c u os W' where "new_client N (echo_config getenv) serviceMap W = (Inr c, W')" "\<not> cl_closed c"
    "added W W' [CConnect u os]" "cl_requestTimeout c = 30 * Second"
proof -
  obtain st where st: "parse_client_settings (echo_config getenv) = Inr st" "cs_requestTimeout st = 30 * Second"
    by (simp add: parse_client_settings_def echo_config_def duration_setting_def defaultRequestTimeout_def Let_def)
  let ?u = "fst (connect_args st)" and ?os = "snd (connect_args st)"
  obtain w where w: "n_connect N ?u ?os (w_ext W) = (None, w)" using assms by (metis demo_server_def prod.collapse)
  obtain w' where w': "n_jetstream N w = (None, w')" using assms by (metis demo_server_def prod.collapse)
  show ?thesis
  proof (rule that)
    show "new_client N (echo_config getenv) serviceMap W =
        (Inr \<lparr>cl_requestTimeout = cs_requestTimeout st, cl_serviceMap = serviceMap, cl_closed = False\<rparr>,
         W\<lparr>w_ext := w', w_log := w_log W @ [CConnect ?u ?os]\<rparr>)"
      using st(1) w w' by (simp add: new_client_def perform_def)
  qed (simp_all add: added_def st(2))
qed

lemma demo_start:
  assumes "demo_server N" and "\<not> cl_closed c" and "rc_subscriptions rc = [echo_sub, created_sub]"
    and "ctx_err ctx (fst (clock N W)) = None"
  obtains rt cs W' where "start N (created rc c) ctx W = (None, rt, W')" "r_client rt = c" "r_state rt = StateRunning"
    "added W W' cs" "filter is_message cs = []"
proof -
  obtain now W0 where k: "clock N W = (now, W0)" by force
  obtain e w1 where 1: "n_stream_by_subject N ctx ''demo.echo'' (w_ext W0) = (Inl e, w1)" "errors_is e SStreamNotFound"
    using assms(1) by (metis demo_server_def prod.collapse)
  obtain h2 w2 where 2: "n_subscribe N ''demo.echo'' (Some ''demo'') w1 = (Inr h2, w2)"
    using assms(1) by (metis demo_server_def prod.collapse)
  obtain h3 w3 where 3: "n_subscribe N ''demo.created'' (Some ''demo'') w2 = (Inr h3, w3)"
    using assms(1) by (metis demo_server_def prod.collapse)
  let ?cs = "[CStreamBySubject ''demo.echo'', CSubscribe ''demo.echo'' (Some ''demo'') (Inr h2),
    CSubscribe ''demo.created'' (Some ''demo'') (Inr h3)]"
  let ?W3 = "W0\<lparr>w_ext := w3, w_log := w_log W0 @ ?cs\<rparr>"
  have rcv: "open_receivers N ctx g (rc_subscriptions rc) W0 = (([h2, h3], [], None), ?W3)" for g
    using 1 2 3 by (simp add: open_receivers_def assms(3) echo_sub_def created_sub_def perform_def subscribe_def Let_def)
  obtain x W4 where f: "flush N ctx ?W3 = (x, W4)" by force
  have x: "x = None"
  proof -
    have "fst (n_flush N c w) = None" for c w using assms(1) by (simp add: demo_server_def)
    with f show ?thesis
      by (auto simp: flush_def perform_def Let_def split: option.splits prod.splits) (metis fst_conv)+
  qed
  obtain rt where rt: "start N (created rc c) ctx W = (None, rt, W4)" "r_client rt = c" "r_state rt = StateRunning"
    using k assms(2,4) rcv f x by (simp add: start_def check_startable_def created_def connections_def)
  show ?thesis
  proof (rule that [OF rt])
    show "added W W4 (?cs @ [CFlush])" using flush_added [OF f] k by (simp add: added_def clock_log)
  qed simp
qed

lemma demo_stop:
  assumes "demo_server N" and "\<not> cl_closed (r_client rt)" and "r_state rt = StateRunning"
  obtains rt' D' cs W' where "stop N info rt ctx None D W = (Inr (None, [], rt', D'), W')"
    "added W W' (cs @ [CClose])" "filter is_message cs = []"
proof -
  let ?W1 = "drain_handles N (r_subs rt) (r_consumers rt) W"
  obtain x W2 where f: "flush N ctx ?W1 = (x, W2)" by force
  have x: "x = None"
  proof -
    have "fst (n_flush N c w) = None" for c w using assms(1) by (simp add: demo_server_def)
    with f show ?thesis
      by (auto simp: flush_def perform_def Let_def split: option.splits prod.splits) (metis fst_conv)+
  qed
  let ?cs = "map CDrainSub (r_subs rt) @ map (\<lambda>c. CCcDrain (jc_cc c)) (r_consumers rt) @ [CFlush]"
  have st: "flush_on_stop N (r_client rt) ctx ?W1 = ([], W2)"
    using f x assms(2) by (simp add: flush_on_stop_def connections_def)
  obtain rt' D' where r: "stop N info rt ctx None D W = (Inr (None, [], rt', D'), snd (close N (r_client rt) W2))"
    using assms(3) st by (simp add: stop_def Let_def split_beta)
  show ?thesis
  proof (rule that [OF r])
    show "added W (snd (close N (r_client rt) W2)) (?cs @ [CClose])"
      using flush_added [OF f] assms(2) by (simp add: added_def close_def drain_handles_log)
  qed (simp add: filter_empty_conv)
qed

lemma demo_runtime:
  obtains rc where "new_runtime env (Some c) (echo_config getenv) [echo_endpoint] [echo_subscriber] [] = Inr rc"
    "rc_subscriptions rc = [echo_sub, created_sub]"
proof -
  let ?cfg = "echo_config getenv"
  obtain st where st: "parse_runtime_settings env ?cfg [] = Inr st" "rs_deploymentGroup st = ''demo''"
    by (simp add: parse_runtime_settings_def echo_config_def positive_int_setting_def read_pull_settings_def
        duration_setting_def mget0_def Let_def)
  have "new_endpoint env st echo_endpoint = Inr echo_sub"
    by (simp add: new_endpoint_def prepare_subscription_def echo_endpoint_def check_kind_def demo_subjects st(2)
        consumer_group_def merge_settings_def mget0_def echo_sub_def)
  moreover have "new_subscriber env st echo_subscriber = Inr created_sub"
    by (simp add: new_subscriber_def prepare_subscription_def echo_subscriber_def check_kind_def demo_subjects st(2)
        consumer_group_def merge_settings_def mget0_def created_sub_def parse_jetstream_def)
  ultimately show ?thesis
    using that st(1) by (simp add: new_runtime_def)
qed

lemma demo_publish:
  assumes "demo_server N" and "header_set_law env" and "\<not> cl_closed c" and "ctx_err ctx (fst (clock N W)) = None"
  obtains W' h where "publish env N c ctx \<lparr>M_Target = createdTarget, M_Metadata = None, M_Payload = p\<rparr> None W = (Inr (), W')"
    "added W W' [CPublish \<lparr>N_Subject = ''demo.created'', N_Reply = [], N_Header = h, N_Data = p\<rparr>]"
proof -
  let ?msg = "\<lparr>M_Target = createdTarget, M_Metadata = None, M_Payload = p\<rparr>"
  obtain h where h: "outgoing_header env (M_Metadata ?msg) = Inr h"
    using outgoing_header_ok [OF assms(2), of "M_Metadata ?msg"] .
  let ?m = "\<lparr>N_Subject = ''demo.created'', N_Reply = [], N_Header = h, N_Data = p\<rparr>"
  have c: "publish_checks env c ?msg None = Inr (''demo.created'', [], cl_requestTimeout c)"
    using assms(3) unfolding publish_checks_Inr by (simp add: demo_subjects merge_settings_def mget0_def)
  obtain now W0 where k: "clock N W = (now, W0)" by force
  obtain w where w: "n_publish N ?m (w_ext W0) = (None, w)" using assms(1) by (metis demo_server_def prod.collapse)
  show ?thesis
  proof (rule that)
    show "publish env N c ctx ?msg None W = (Inr (), W0\<lparr>w_ext := w, w_log := w_log W0 @ [CPublish ?m]\<rparr>)"
      using c h k w assms(4) by (simp add: publish_def Let_def perform_def)
  qed (use k in \<open>simp add: added_def clock_log\<close>)
qed

lemma publish_to_route:
  "publish env N c ctx \<lparr>M_Target = echoTarget, M_Metadata = md, M_Payload = p\<rparr> opts W =
    (Inl (ErrKindMismatch ''Publish'' KindTopic KindRoute), W)"
  by (simp add: publish_def publish_checks_def check_kind_def)

lemma demo_clock:
  assumes "demo_server N"
  shows "ctx_err (with_timeout ctx_background (fst (clock N W)) (10 * Second)) (fst (clock N W')) = None"
proof -
  have "fst (n_now N (w_ext W')) < fst (n_now N (w_ext W)) + 10000000000" using assms by (simp add: demo_server_def)
  then show ?thesis
    by (simp add: with_timeout_def with_deadline_def with_deadline_cause_def ctx_background_def ctx_err_def
        clock_def time_add_def split_beta)
qed

lemma mrange_mlit1: "mrange (mlit [(k, v)]) = [(k, v)]"
  by (simp add: mrange_def mlit_def DAList.update.rep_eq DAList.empty.rep_eq)

lemma map_text_echoed:
  "mget md = mget (mlit [(''Echoed-By'', ''demo'')]) \<Longrightarrow> map_text md = ''map[Echoed-By:demo]''"
  unfolding map_text_cong [of md "mlit [(''Echoed-By'', ''demo'')]"]
  by (simp add: map_text_def sorted_keys_def mrange_mlit1 mget0_def)

lemma demo_bound:
  assumes "demo_server N"
  shows "fst (fst (bound_context N (with_timeout ctx_background (fst (clock N W0)) (10 * Second)) (30 * Second) W)) =
    with_timeout ctx_background (fst (clock N W0)) (10 * Second)"
proof -
  have "fst (n_now N w') < fst (n_now N w) + 10000000000" for w w' using assms by (simp add: demo_server_def)
  from this [of "w_ext W0"] show ?thesis
    by (simp add: bound_context_def with_timeout_cause_def with_timeout_def with_deadline_def with_deadline_cause_def
        ctx_background_def clock_def time_add_def split_beta Let_def)
      (smt (verit) prod.collapse)
qed

lemma demo_echo_plain: "plain_result (endpoint_result (demo_echo hc hm))"
  by (simp add: demo_echo_def endpoint_result_def plain_result_def plain_metadata_def mrange_mlit1 mget_mrange
      plain_key_def plain_text_def token_char_def is_digit_def byte_def mesh_key_defs)

lemma demo_request:
  assumes "demo_server N" and "header_set_law env" and "request_delivered env N N hctx echo_sub" and "demo_responds N"
    and "\<not> cl_closed c" and "cl_requestTimeout c = 30 * Second"
    and ctx: "ctx = with_timeout ctx_background (fst (clock N W0)) (10 * Second)"
  obtains md W' where "request env N c ctx \<lparr>M_Target = echoTarget, M_Metadata = mlit [(''Request-Id'', ''1'')],
      M_Payload = ''hello''\<rparr> None W = (Inr \<lparr>M_Target = echoTarget, M_Metadata = md, M_Payload = ''echo: hello''\<rparr>, W')"
    "map_text md = ''map[Echoed-By:demo]''"
proof -
  let ?msg = "\<lparr>M_Target = echoTarget, M_Metadata = mlit [(''Request-Id'', ''1'')], M_Payload = ''hello''\<rparr>"
  have c: "request_checks env c ?msg None = Inr (sb_subject echo_sub, 30 * Second)"
    using assms(5,6) unfolding request_checks_Inr
    by (simp add: demo_subjects merge_settings_def duration_setting_def mget0_def echo_sub_def)
  have b: "sb_endpoint echo_sub = Some demo_echo" by (simp add: echo_sub_def)
  have plain: "plain_metadata (M_Metadata ?msg)"
    by (simp add: plain_metadata_def mrange_mlit1 plain_key_def plain_text_def token_char_def is_digit_def byte_def)
  obtain bctx m w where q: "bctx = fst (fst (bound_context N ctx (30 * Second) W))" "N_Subject m = sb_subject echo_sub"
    "\<forall>reply. fst (n_request N bctx m w) = Inr reply \<longrightarrow>
      handled_request (sb_target echo_sub) demo_echo ?msg (fst (request env N c ctx ?msg None W))"
    by (rule request_handled [OF assms(2) c plain b assms(3), where ctx = ctx and W = W]) (rule that)
  have "bctx = ctx" using q(1) demo_bound [OF assms(1)] ctx by simp
  then have live: "ctx_err bctx (fst (n_now N w')) = None" for w'
    using demo_clock [OF assms(1), of W0 "W0\<lparr>w_ext := w'\<rparr>"] ctx by (simp add: clock_def split_beta)
  have "N_Subject m = ''demo.echo''" using q(2) by (simp add: echo_sub_def)
  then obtain reply where "fst (n_request N bctx m w) = Inr reply"
    using assms(4) live unfolding demo_responds_def by meson
  with q(3) have "handled_request (sb_target echo_sub) demo_echo ?msg (fst (request env N c ctx ?msg None W))" by blast
  then obtain hc hm where "M_Payload hm = ''hello''"
    "reply_read echoTarget (endpoint_result (demo_echo hc hm)) (fst (request env N c ctx ?msg None W))"
    using demo_echo_plain by (auto simp: handled_request_def)
  then obtain md where md: "fst (request env N c ctx ?msg None W) =
      Inr \<lparr>M_Target = echoTarget, M_Metadata = md, M_Payload = ''echo: hello''\<rparr>"
    "mget md = mget (mlit [(''Echoed-By'', ''demo'')])"
    by (auto simp: demo_echo_def endpoint_result_def reply_read_def)
  show ?thesis
  proof (rule that)
    show "request env N c ctx ?msg None W =
        (Inr \<lparr>M_Target = echoTarget, M_Metadata = md, M_Payload = ''echo: hello''\<rparr>, snd (request env N c ctx ?msg None W))"
      using md(1) by (simp only: prod_eq_iff fst_conv snd_conv)
  qed (rule map_text_echoed [OF md(2)])
qed

text \<open>The event goes through the subscription to the handler, with its payload.\<close>

lemma demo_event:
  assumes "demo_delivers s" and "w_log W = calls @ [CPublish m]" and "N_Subject m = ''demo.created''"
  obtains hm W' where "receive_event env N s [echo_sub, created_sub] W = (Some hm, W')" "M_Payload hm = N_Data m"
    "added W W' [CHandle ctx_background hm]"
proof -
  obtain m' arrival where e: "se_event s (w_log W) = Some (m', arrival)" "N_Subject m' = ''demo.created''"
    "N_Data m' = N_Data m"
    using assms unfolding demo_delivers_def carried_def by fastforce
  obtain md where md: "incoming_metadata (N_Header m') = Inr md" using incoming_metadata_ok [of "N_Header m'"] by metis
  let ?hm = "\<lparr>M_Target = createdTarget, M_Metadata = md, M_Payload = N_Data m'\<rparr>"
  have "find (\<lambda>b. sb_subject b = N_Subject m' \<and> sb_subscriber b \<noteq> None) [echo_sub, created_sub] = Some created_sub"
    using e(2) by (simp add: echo_sub_def created_sub_def)
  moreover have "snd (serve env N ctx_background created_sub m' arrival W) = note_call (CHandle ctx_background ?hm) W"
    using md by (simp add: serve_def created_sub_def Let_def)
  ultimately have "receive_event env N s [echo_sub, created_sub] W = (Some ?hm, note_call (CHandle ctx_background ?hm) W)"
    using e(1) by (simp add: receive_event_def Let_def)
  then show ?thesis by (rule that) (simp_all add: added_def e(3))
qed

lemma demo_calls:
  assumes "demo_server N" and "header_set_law env" and "request_delivered env N N hctx echo_sub" and "demo_responds N"
    and "demo_delivers s" and "\<not> cl_closed c" and "cl_requestTimeout c = 30 * Second"
    and ctx: "ctx = with_timeout ctx_background (fst (clock N W0)) (10 * Second)"
  obtains S' req h hm where "echo_calls env mt N s [echo_sub, created_sub] c ctx S = (Inr (), S')"
    "w_log (o_world S') = w_log (o_world S) @ [CRequest req,
       CPublish \<lparr>N_Subject = ''demo.created'', N_Reply = [], N_Header = h, N_Data = ''order 42''\<rparr>,
       CHandle ctx_background hm]" "M_Payload hm = ''order 42''"
    "o_out S' = o_out S @ [Stdout (''reply: echo: hello (metadata map[Echoed-By:demo])'' @ newline),
       Stdout (''subscriber got: order 42'' @ newline),
       Stdout (''publish to a route target: '' @ error_text env mt (ErrKindMismatch ''Publish'' KindTopic KindRoute) @ newline)]"
proof -
  let ?msg = "\<lparr>M_Target = echoTarget, M_Metadata = mlit [(''Request-Id'', ''1'')], M_Payload = ''hello''\<rparr>"
  obtain md W1 where 1: "request env N c ctx ?msg None (o_world S) =
      (Inr \<lparr>M_Target = echoTarget, M_Metadata = md, M_Payload = ''echo: hello''\<rparr>, W1)" "map_text md = ''map[Echoed-By:demo]''"
    by (rule demo_request [OF assms(1-4,6,7) ctx]) (rule that)
  obtain req where r: "added (o_world S) W1 [CRequest req]"
    using request_effects [OF assms(2) 1(1)] by auto
  have live: "ctx_err ctx (fst (clock N W)) = None" for W using demo_clock [OF assms(1)] ctx by simp
  obtain W2 h where 2: "publish env N c ctx \<lparr>M_Target = createdTarget, M_Metadata = None, M_Payload = ''order 42''\<rparr> None W1 = (Inr (), W2)"
    "added W1 W2 [CPublish \<lparr>N_Subject = ''demo.created'', N_Reply = [], N_Header = h, N_Data = ''order 42''\<rparr>]"
    by (rule demo_publish [OF assms(1,2,6) live]) (rule that)
  obtain hm W3 where 3: "receive_event env N s [echo_sub, created_sub] W2 = (Some hm, W3)" "M_Payload hm = ''order 42''"
    "added W2 W3 [CHandle ctx_background hm]"
    by (rule demo_event [OF assms(5) 2(2) [unfolded added_def], of env N]) (auto intro: that)
  show ?thesis
  proof (rule that)
    show "echo_calls env mt N s [echo_sub, created_sub] c ctx S = (Inr (), S\<lparr>o_world := W3, o_out := o_out S @
       [Stdout (''reply: echo: hello (metadata map[Echoed-By:demo])'' @ newline),
        Stdout (''subscriber got: order 42'' @ newline),
        Stdout (''publish to a route target: '' @ error_text env mt (ErrKindMismatch ''Publish'' KindTopic KindRoute) @ newline)]\<rparr>)"
      using 1 2(1) 3(1,2) by (simp add: echo_calls_def andThenDo_def try_act_run act_run publish_to_route)
  qed (use r 2(2) 3(2,3) in \<open>simp_all add: added_def\<close>)
qed


text \<open>A session in which the last message published is the next one delivered.\<close>

definition sample_session :: "nat session" where
  "sample_session = \<lparr>se_call = (\<lambda>_ _. \<lparr>co_n = 1, co_start = 0, co_until = 0, co_select = 0, co_tie = False\<rparr>),
     se_serving = (\<lambda>rt S. (rt, S)), se_drain = None, se_info = sample_info, se_deliveries = sample_deliveries,
     se_event = (\<lambda>calls. case last calls of CPublish m \<Rightarrow> Some (m, 0) | _ \<Rightarrow> None)\<rparr>"


end
