(* ===== verification/Runbooks.thy ===== *)
theory Runbooks
  imports Programs
begin

text \<open>
  The programs of the runbooks: \<open>docs/runbooks/cmd/serve\<close>, which runs one endpoint or
  subscriber, \<open>send\<close>, which sends messages to it, and \<open>streams\<close>, which manages streams and
  consumers.  The values of their flags are given parsed, those of the repeated flags in
  the order of the command line; the usage that \<open>flag\<close> prints is left out.
\<close>

section \<open>Repeated flags\<close>

text \<open>\<open>strings.Cut(v, "=")\<close>: the text before and after the first one.\<close>

fun cut :: "char \<Rightarrow> string \<Rightarrow> (string \<times> string) option" where
  "cut c [] = None"
| "cut c (x # xs) =
    (if x = c then Some ([], xs)
     else case cut c xs of None \<Rightarrow> None | Some (k, v) \<Rightarrow> Some (x # k, v))"

text \<open>\<open>pairs.Set\<close>: the map after it, or the text of its error.\<close>

definition pairs_set :: "goenv \<Rightarrow> string gomap \<Rightarrow> string \<Rightarrow> string + string gomap" where
  "pairs_set env p v =
    (case cut CHR ''='' v of
       None \<Rightarrow> Inl (''want key=value, got '' @ go_quote env v)
     | Some (k, val) \<Rightarrow> (case mput k val p of Inl _ \<Rightarrow> Inl [] | Inr p' \<Rightarrow> Inr p'))"

text \<open>The flags of type \<open>pairs\<close>, each with its own map; the first error ends the process.\<close>

datatype pair_flag = FCfg | FSet | FTarget | FMd

fun pair_flag_name :: "pair_flag \<Rightarrow> string" where
  "pair_flag_name FCfg = ''cfg''"
| "pair_flag_name FSet = ''set''"
| "pair_flag_name FTarget = ''target''"
| "pair_flag_name FMd = ''md''"

fun parse_pairs ::
    "goenv \<Rightarrow> (pair_flag \<times> string) list \<Rightarrow> (pair_flag \<Rightarrow> string gomap) \<Rightarrow> (pair_flag \<Rightarrow> string gomap, 'w) prog" where
  "parse_pairs env [] ps = give ps"
| "parse_pairs env ((f, v) # fs) ps =
    (case pairs_set env (ps f) v of
       Inl e \<Rightarrow> andThenDo (say [Stderr (''invalid value '' @ go_quote env v @ '' for flag -'' @ pair_flag_name f
           @ '': '' @ e @ newline)]) (\<lambda>_. exit_with 2)
     | Inr p \<Rightarrow> parse_pairs env fs (ps(f := p)))"

text \<open>\<open>cfg[k] = v\<close> on a map that was made.\<close>

definition assign :: "string \<Rightarrow> string \<Rightarrow> string gomap \<Rightarrow> (string gomap, 'w) prog" where
  "assign k v m = (case mput k v m of Inl (Panicked p) \<Rightarrow> crash p | Inl _ \<Rightarrow> give m | Inr m' \<Rightarrow> give m')"

definition flag_target :: "string \<Rightarrow> string \<Rightarrow> string gomap \<Rightarrow> target" where
  "flag_target kind subj md =
    \<lparr>T_Segments = split_on CHR ''.'' subj, T_Kind = (if kind = ''route'' then KindRoute else KindTopic), T_Metadata = md\<rparr>"

section \<open>JetStream administration\<close>

text \<open>
  The calls of \<open>nats.go\<close> that only these programs make, with the data they print, and the
  texts its types print as.
\<close>

datatype retention = LimitsPolicy | InterestPolicy | WorkQueuePolicy

record stream_config =
  st_Name :: string
  st_Subjects :: "string list"
  st_Retention :: retention

record stream_info =
  si_Config :: stream_config
  si_Msgs :: uint64
  si_FirstSeq :: uint64
  si_LastSeq :: uint64
  si_Consumers :: int64

record consumer_info =
  ci_Name :: string
  ci_Stream :: string
  ci_Config :: consumer_config
  ci_NumPending :: uint64
  ci_NumAckPending :: int64
  ci_NumRedelivered :: int64

record 'w js_admin =
  a_create_stream :: "gocontext \<Rightarrow> stream_config \<Rightarrow> 'w \<Rightarrow> (exterr + stream_info) \<times> 'w"
  a_stream_info :: "gocontext \<Rightarrow> string \<Rightarrow> 'w \<Rightarrow> (exterr + stream_info) \<times> 'w"
  a_list_consumers :: "gocontext \<Rightarrow> string \<Rightarrow> 'w \<Rightarrow> (consumer_info list \<times> exterr option) \<times> 'w"
  a_delete_stream :: "gocontext \<Rightarrow> string \<Rightarrow> 'w \<Rightarrow> exterr option \<times> 'w"
  a_consumer_info :: "gocontext \<Rightarrow> consumer \<Rightarrow> 'w \<Rightarrow> (exterr + consumer_info) \<times> 'w"

record nats_texts =
  nt_retention :: "retention \<Rightarrow> string"
  nt_ack_policy :: "server_ack_policy \<Rightarrow> string"
  nt_deliver_policy :: "deliver_policy \<Rightarrow> string"
  nt_error_type :: "exterr \<Rightarrow> string"

definition ask :: "('w \<Rightarrow> 'r \<times> 'w) \<Rightarrow> ('r, 'w) prog" where
  "ask f = act (\<lambda>W. case f (w_ext W) of (r, w) \<Rightarrow> (r, W\<lparr>w_ext := w\<rparr>))"

section \<open>send\<close>

record send_flags =
  sf_kind :: string
  sf_subject :: string
  sf_n :: int64
  sf_payload :: string
  sf_deadline :: duration
  sf_streamInfo :: bool
  sf_pairs :: "(pair_flag \<times> string) list"

text \<open>\<open>%T\<close> of an error.\<close>

fun error_type :: "nats_texts \<Rightarrow> goerr \<Rightarrow> string" where
  "error_type nt (External e) = nt_error_type nt e"
| "error_type nt (HandlerError t) = ''*nats.HandlerError''"
| "error_type nt (ErrKindMismatch _ _ _) = ''*fmt.wrapError''"
| "error_type nt (ErrInvalidTarget _) = ''*fmt.wrapError''"
| "error_type nt (ErrBadConfig _ _ _) = ''*fmt.wrapError''"
| "error_type nt (ErrStreamCoversRoute _ _) = ''*fmt.wrapError''"
| "error_type nt _ = ''*errors.errorString''"

definition describe :: "goenv \<Rightarrow> mesh_texts \<Rightarrow> nats_texts \<Rightarrow> goerr \<Rightarrow> string" where
  "describe env mt nt e =
    (case e of
       HandlerError t \<Rightarrow> ''HandlerError '' @ go_quote env t
     | _ \<Rightarrow>
         if goerr_is e STimeout then ''nats.ErrTimeout''
         else if goerr_is e SNoResponders then ''nats.ErrNoResponders''
         else if goerr_is e SNoStreamResponse then ''jetstream.ErrNoStreamResponse''
         else case e of
             ErrBadConfig _ _ _ \<Rightarrow> ''nats.ErrBadConfig: '' @ error_text env mt e
           | _ \<Rightarrow>
               if goerr_is e SDeadlineExceeded then ''context.DeadlineExceeded''
               else error_type nt e @ '': '' @ error_text env mt e)"

text \<open>One turn of the loop, for message number \<open>i\<close>.\<close>

definition send_one ::
    "goenv \<Rightarrow> mesh_texts \<Rightarrow> nats_texts \<Rightarrow> 'w nats \<Rightarrow> client \<Rightarrow> send_flags \<Rightarrow> target
      \<Rightarrow> string gomap \<Rightarrow> string gomap \<Rightarrow> nat \<Rightarrow> (unit, 'w) prog" where
  "send_one env mt nt N c fl t opts md i =
    andThenDo (if 0 < sint (sf_deadline fl)
        then andThenDo (act (clock N)) (\<lambda>now. give (with_timeout ctx_background now (sf_deadline fl)))
        else give ctx_background) (\<lambda>ctx.
    let msg = \<lparr>M_Target = t, M_Metadata = md, M_Payload = sf_payload fl @ '' '' @ show_nat i\<rparr>;
        line = (\<lambda>verb what start. andThenDo (act (clock N)) (\<lambda>now.
          say [Logged [] (verb @ '' '' @ show_nat i @ '': '' @ what @ '' after '' @ ms_text (time_sub now start))]))
    in andThenDo (act (clock N)) (\<lambda>start.
       if T_Kind t = KindRoute then
         andThenDo (try_act (request env N c ctx msg opts)) (\<lambda>r. case r of
             Inl e \<Rightarrow> line ''request'' (describe env mt nt e) start
           | Inr reply \<Rightarrow> line ''request'' (''reply '' @ go_quote env (M_Payload reply) @ '' metadata ''
               @ map_text (M_Metadata reply)) start)
       else
         andThenDo (try_act (publish env N c ctx msg opts)) (\<lambda>r. case r of
             Inl e \<Rightarrow> line ''publish'' (describe env mt nt e) start
           | Inr _ \<Rightarrow> line ''publish'' ''ok'' start)))"

text \<open>The loop, with the messages left; the counter does not wrap below \<open>2 ^ 63 - 1\<close>.\<close>

fun send_loop :: "(nat \<Rightarrow> (unit, 'w) prog) \<Rightarrow> nat \<Rightarrow> nat \<Rightarrow> (unit, 'w) prog" where
  "send_loop body i 0 = give ()"
| "send_loop body i (Suc n) = andThenDo (body i) (\<lambda>_. send_loop body (Suc i) n)"

definition send_stream_info ::
    "goenv \<Rightarrow> mesh_texts \<Rightarrow> 'w nats \<Rightarrow> 'w js_admin \<Rightarrow> client \<Rightarrow> target \<Rightarrow> (unit, 'w) prog" where
  "send_stream_info env mt N A c t =
    andThenDo (try_act (client_stream N c ctx_background t)) (\<lambda>r. case r of
        Inl e \<Rightarrow> say [Logged [] (''Client.Stream: '' @ error_text env mt e)]
      | Inr None \<Rightarrow> say [Logged [] ''Client.Stream: the target has no stream setting'']
      | Inr (Some name) \<Rightarrow>
          andThenDo (ask (a_stream_info A ctx_background name)) (\<lambda>r. case r of
              Inl e \<Rightarrow> say [Logged [] (''stream info: '' @ ext_text e)]
            | Inr info \<Rightarrow>
                say [Logged [] (''stream '' @ go_quote env (st_Name (si_Config info)) @ '': ''
                  @ format_uint64 (si_Msgs info) @ '' messages, last sequence '' @ format_uint64 (si_LastSeq info)
                  @ '', '' @ format_int64 (si_Consumers info) @ '' consumers'')]))"

definition send_run ::
    "goenv \<Rightarrow> mesh_texts \<Rightarrow> nats_texts \<Rightarrow> 'w nats \<Rightarrow> 'w js_admin \<Rightarrow> client \<Rightarrow> send_flags \<Rightarrow> target
      \<Rightarrow> string gomap \<Rightarrow> string gomap \<Rightarrow> (unit, 'w) prog" where
  "send_run env mt nt N A c fl t opts md =
    andThenDo (send_loop (send_one env mt nt N c fl t opts md) 1 (nat (sint (sf_n fl)))) (\<lambda>_.
    if sf_streamInfo fl then send_stream_info env mt N A c t else give ())"

definition send_main ::
    "goenv \<Rightarrow> mesh_texts \<Rightarrow> nats_texts \<Rightarrow> 'w nats \<Rightarrow> 'w js_admin \<Rightarrow> (string \<Rightarrow> string) \<Rightarrow> send_flags
      \<Rightarrow> (unit, 'w) prog" where
  "send_main env mt nt N A getenv fl =
    andThenDo (parse_pairs env (sf_pairs fl) (\<lambda>_. mmake)) (\<lambda>ps.
    andThenDo (if getenv ''NATS_URL'' \<noteq> [] then assign (key URLKey) (getenv ''NATS_URL'') (ps FCfg)
               else give (ps FCfg)) (\<lambda>cfg.
    let t = flag_target (sf_kind fl) (sf_subject fl) (ps FTarget)
    in andThenDo (try_act (new_client N cfg [t])) (\<lambda>r. case r of
         Inl e \<Rightarrow> fatal [] (''NewClient: '' @ error_text env mt e)
       | Inr c \<Rightarrow> deferred (close_client N c) (send_run env mt nt N A c fl t (ps FSet) (ps FMd)))))"

section \<open>serve\<close>

record serve_flags =
  sv_kind :: string
  sv_subject :: string
  sv_group :: string
  sv_fail :: int64
  sv_work :: duration
  sv_ignoreCtx :: bool
  sv_drain :: duration
  sv_pairs :: "(pair_flag \<times> string) list"

text \<open>The text of \<open>printMessage\<close>.\<close>

definition message_text :: "goenv \<Rightarrow> 32 word \<Rightarrow> gotime \<Rightarrow> gocontext \<Rightarrow> message \<Rightarrow> string" where
  "message_text env n now ctx m =
    ''call '' @ format_int64 (scast n) @ '': payload '' @ go_quote env (M_Payload m) @ newline
    @ concat (map (\<lambda>k. ''    '' @ k @ '': '' @ mget0 (M_Metadata m) k @ newline) (sorted_keys (M_Metadata m)))
    @ (case c_deadline ctx of
         Some d \<Rightarrow> ''    context deadline: '' @ rfc3339_nano (env_zone env) d @ '' (in '' @ ms_text (time_sub d now) @ '')''
       | None \<Rightarrow> ''    context deadline: none'')"

text \<open>
  The handler: what it logs, the text of its error, and when it returns.  The number
  of the call is what \<open>calls.Add(1)\<close> gave, an \<open>int32\<close>.
\<close>

record handled =
  h_out :: "printed list"
  h_error :: "string option"
  h_end :: gotime

definition serve_handle :: "goenv \<Rightarrow> serve_flags \<Rightarrow> call_obs \<Rightarrow> gocontext \<Rightarrow> message \<Rightarrow> handled" where
  "serve_handle env fl ob ctx m =
    (let n = co_n ob;
         call = ''call '' @ format_int64 (scast n) @ '': '';
         received = [Logged [] (message_text env n (co_until ob) ctx m)];
         (waited, end) =
           (if 0 < sint (sv_work fl) then
              (case select_after (co_select ob) (sv_work fl) (co_tie ob) ctx of
                 (t, None) \<Rightarrow> ([], t)
               | (t, Some e) \<Rightarrow>
                   ([Logged [] (call @ ''context done: '' @ ext_text e)],
                    if sv_ignoreCtx fl then max t (time_add (co_start ob) (sv_work fl)) else t))
            else ([], co_select ob))
     in if sint n \<le> sint (sv_fail fl)
        then \<lparr>h_out = received @ waited @ [Logged [] (call @ ''returning an error'')],
              h_error = Some (''failing call '' @ format_int64 (scast n) @ '' of '' @ format_int64 (sv_fail fl)
                @ '' on purpose''),
              h_end = end\<rparr>
        else \<lparr>h_out = received @ waited, h_error = None, h_end = end\<rparr>)"

definition serve_endpoint_of ::
    "goenv \<Rightarrow> 'w session \<Rightarrow> serve_flags \<Rightarrow> nat \<Rightarrow> target \<Rightarrow> string gomap \<Rightarrow> endpoint" where
  "serve_endpoint_of env s fl pid t md =
    \<lparr>E_Target = t,
     E_Handler = Some (\<lambda>ctx m. case h_error (serve_handle env fl (se_call s ctx m) ctx m) of
         Some e \<Rightarrow> Returns zero_message (Some e)
       | None \<Rightarrow> Returns (zero_message\<lparr>M_Metadata := mlit [(''Served-By'', show_nat pid)],
           M_Payload := ''echo: '' @ M_Payload m\<rparr>) None),
     E_ConsumerGroup = sv_group fl, E_Metadata = md\<rparr>"

definition serve_subscriber_of ::
    "goenv \<Rightarrow> 'w session \<Rightarrow> serve_flags \<Rightarrow> target \<Rightarrow> string gomap \<Rightarrow> subscriber" where
  "serve_subscriber_of env s fl t md =
    \<lparr>S_Target = t,
     S_Handler = Some (\<lambda>ctx m. (Returns () (h_error (serve_handle env fl (se_call s ctx m) ctx m)), M_Metadata m)),
     S_ConsumerGroup = sv_group fl, S_Metadata = md\<rparr>"

definition print_receiver ::
    "goenv \<Rightarrow> nats_texts \<Rightarrow> 'w js_admin \<Rightarrow> runtime \<Rightarrow> target \<Rightarrow> (unit, 'w) prog" where
  "print_receiver env nt A rt t =
    (case get_receiver env rt t of
       None \<Rightarrow> give ()
     | Some rc \<Rightarrow>
         andThenDo (say [Logged [] (''consumer group: '' @ receiver_group rc)]) (\<lambda>_.
         case receiver_consumer rc of
           None \<Rightarrow> say [Logged [] ''core NATS: no JetStream consumer'']
         | Some cons \<Rightarrow>
             andThenDo (ask (a_consumer_info A ctx_background cons)) (\<lambda>r. case r of
                 Inl e \<Rightarrow> say [Logged [] (''consumer info: '' @ ext_text e)]
               | Inr info \<Rightarrow>
                   let c = ci_Config info in
                   say [Logged [] (''JetStream consumer '' @ go_quote env (ci_Name info) @ '' on stream ''
                     @ go_quote env (ci_Stream info) @ '': ack_policy='' @ nt_ack_policy nt (AckPolicy c)
                     @ '' ack_wait='' @ duration_text (AckWait c) @ '' max_deliver='' @ format_int64 (MaxDeliver c)
                     @ '' backoff='' @ slice_text duration_text (BackOff c)
                     @ '' max_ack_pending='' @ format_int64 (MaxAckPending c)
                     @ '' deliver_policy='' @ nt_deliver_policy nt (DeliverPolicy c)
                     @ '' inactive_threshold='' @ duration_text (InactiveThreshold c))])))"

definition serve_main ::
    "goenv \<Rightarrow> mesh_texts \<Rightarrow> nats_texts \<Rightarrow> 'w nats \<Rightarrow> 'w js_admin \<Rightarrow> (string \<Rightarrow> string) \<Rightarrow> nat \<Rightarrow> serve_flags
      \<Rightarrow> 'w session \<Rightarrow> (unit, 'w) prog" where
  "serve_main env mt nt N A getenv pid fl s =
    andThenDo (parse_pairs env (sv_pairs fl) (\<lambda>_. mmake)) (\<lambda>ps.
    andThenDo (if getenv ''NATS_URL'' \<noteq> [] then assign (key URLKey) (getenv ''NATS_URL'') (ps FCfg)
               else give (ps FCfg)) (\<lambda>cfg.
    andThenDo (if mget cfg DeploymentGroupKey = None then assign DeploymentGroupKey ''demo'' cfg else give cfg) (\<lambda>cfg.
    let t = flag_target (sv_kind fl) (sv_subject fl) (ps FTarget);
        endpoints = (if T_Kind t = KindRoute then [serve_endpoint_of env s fl pid t (ps FSet)] else []);
        subscribers = (if T_Kind t = KindRoute then [] else [serve_subscriber_of env s fl t (ps FSet)])
    in andThenDo (try_act (new_client N cfg [t])) (\<lambda>r. case r of
         Inl e \<Rightarrow> fatal [] (''NewClient: '' @ error_text env mt e)
       | Inr c \<Rightarrow>
           (case new_runtime env (Some c) cfg endpoints subscribers [] of
              Inl e \<Rightarrow> andThenDo (close_client N c) (\<lambda>_. fatal [] (''New: '' @ error_text env mt e))
            | Inr rc \<Rightarrow>
                andThenDo (start_runtime N (created rc c) ctx_background) (\<lambda>(err, rt). case err of
                  Some e \<Rightarrow> andThenDo (close_client N c) (\<lambda>_. fatal [] (''Start: '' @ error_text env mt e))
                | None \<Rightarrow>
                    andThenDo (print_receiver env nt A rt t) (\<lambda>_.
                    andThenDo (say [Logged [] (''serving '' @ sv_kind fl @ '' '' @ sv_subject fl @ '' (pid '' @ show_nat pid
                      @ ''); Ctrl-C to stop'')]) (\<lambda>_.
                    andThenDo (wait_for_signal s rt) (\<lambda>rt.
                    andThenDo (act (clock N)) (\<lambda>now.
                    andThenDo (say [Logged [] (''stopping with a '' @ duration_text (sv_drain fl) @ '' drain'')]) (\<lambda>_.
                    andThenDo (stop_runtime N s rt (with_timeout ctx_background now (sv_drain fl))) (\<lambda>err.
                    case err of
                      Some e \<Rightarrow> say [Logged [] (''Stop: '' @ ext_text e)]
                    | None \<Rightarrow> say [Logged [] ''stopped'']))))))))))))"

section \<open>streams\<close>

definition streams_usage :: string where
  "streams_usage =
    ''usage:'' @ newline
    @ ''  streams add NAME SUBJECT [limits|interest|workqueue]'' @ newline
    @ ''  streams info NAME'' @ newline
    @ ''  streams consumers NAME'' @ newline
    @ ''  streams add-consumer STREAM NAME SUBJECT'' @ newline
    @ ''  streams rm NAME''"

text \<open>\<open>js.Stream(ctx, name)\<close>.\<close>

definition look_up_stream :: "'w nats \<Rightarrow> gocontext \<Rightarrow> string \<Rightarrow> (exterr option, 'w) prog" where
  "look_up_stream N ctx name = act (perform (\<lambda>_. CStream name) (n_stream N ctx name))"

definition streams_add :: "goenv \<Rightarrow> nats_texts \<Rightarrow> 'w js_admin \<Rightarrow> gocontext \<Rightarrow> string list \<Rightarrow> (unit, 'w) prog" where
  "streams_add env nt A ctx args =
    andThenDo (nth_arg args 0) (\<lambda>name.
    andThenDo (nth_arg args 1) (\<lambda>subj.
    let r = (if 2 < length args then
               (if args ! 2 = ''interest'' then InterestPolicy
                else if args ! 2 = ''workqueue'' then WorkQueuePolicy else LimitsPolicy)
             else LimitsPolicy)
    in andThenDo (ask (a_create_stream A ctx \<lparr>st_Name = name, st_Subjects = [subj], st_Retention = r\<rparr>)) (\<lambda>res.
       case res of
         Inl e \<Rightarrow> fatal [] (''add: '' @ ext_text e)
       | Inr info \<Rightarrow>
           say [Stdout (''created stream '' @ go_quote env (st_Name (si_Config info)) @ '' for '' @ slice_text id [subj]
             @ '' with '' @ nt_retention nt (st_Retention (si_Config info)) @ '' retention'' @ newline)])))"

definition streams_info :: "goenv \<Rightarrow> 'w nats \<Rightarrow> 'w js_admin \<Rightarrow> gocontext \<Rightarrow> string list \<Rightarrow> (unit, 'w) prog" where
  "streams_info env N A ctx args =
    andThenDo (nth_arg args 0) (\<lambda>name.
    andThenDo (look_up_stream N ctx name) (\<lambda>err. case err of
        Some e \<Rightarrow> fatal [] (''info: '' @ ext_text e)
      | None \<Rightarrow>
          andThenDo (ask (a_stream_info A ctx name)) (\<lambda>r. case r of
              Inl e \<Rightarrow> fatal [] (''info: '' @ ext_text e)
            | Inr info \<Rightarrow>
                say [Stdout (''stream '' @ go_quote env (st_Name (si_Config info)) @ '': subjects ''
                  @ slice_text id (st_Subjects (si_Config info)) @ '', '' @ format_uint64 (si_Msgs info)
                  @ '' messages, sequences '' @ format_uint64 (si_FirstSeq info) @ '' to ''
                  @ format_uint64 (si_LastSeq info) @ '', '' @ format_int64 (si_Consumers info)
                  @ '' consumers'' @ newline)])))"

definition consumer_line :: "goenv \<Rightarrow> nats_texts \<Rightarrow> consumer_info \<Rightarrow> string" where
  "consumer_line env nt info =
    (let c = ci_Config info
     in ''consumer '' @ go_quote env (ci_Name info) @ '': pending '' @ format_uint64 (ci_NumPending info)
        @ '', ack pending '' @ format_int64 (ci_NumAckPending info) @ '', redelivered ''
        @ format_int64 (ci_NumRedelivered info) @ '', ack_policy='' @ nt_ack_policy nt (AckPolicy c)
        @ '' ack_wait='' @ duration_text (AckWait c) @ '' max_deliver='' @ format_int64 (MaxDeliver c)
        @ '' inactive_threshold='' @ duration_text (InactiveThreshold c) @ newline)"

definition streams_consumers ::
    "goenv \<Rightarrow> nats_texts \<Rightarrow> 'w nats \<Rightarrow> 'w js_admin \<Rightarrow> gocontext \<Rightarrow> string list \<Rightarrow> (unit, 'w) prog" where
  "streams_consumers env nt N A ctx args =
    andThenDo (nth_arg args 0) (\<lambda>name.
    andThenDo (look_up_stream N ctx name) (\<lambda>err. case err of
        Some e \<Rightarrow> fatal [] (''consumers: '' @ ext_text e)
      | None \<Rightarrow>
          andThenDo (ask (a_list_consumers A ctx name)) (\<lambda>(infos, err).
          andThenDo (say (map (\<lambda>info. Stdout (consumer_line env nt info)) infos)) (\<lambda>_.
          case err of
            Some e \<Rightarrow> fatal [] (''consumers: '' @ ext_text e)
          | None \<Rightarrow> give ()))))"

definition streams_add_consumer :: "goenv \<Rightarrow> 'w nats \<Rightarrow> gocontext \<Rightarrow> string list \<Rightarrow> (unit, 'w) prog" where
  "streams_add_consumer env N ctx args =
    andThenDo (nth_arg args 0) (\<lambda>stream.
    andThenDo (nth_arg args 1) (\<lambda>name.
    andThenDo (nth_arg args 2) (\<lambda>subj.
    let cfg = \<lparr>Durable = name, FilterSubject = subj, DeliverPolicy = DeliverAllPolicy, AckPolicy = AckExplicitPolicy,
               InactiveThreshold = 0, AckWait = Minute, MaxDeliver = 0, BackOff = [], MaxAckPending = 0\<rparr>
    in andThenDo (act (perform (\<lambda>_. CCreateConsumer stream cfg) (n_create_consumer N ctx stream cfg))) (\<lambda>r. case r of
         Inl e \<Rightarrow> fatal [] (''add-consumer: '' @ ext_text e)
       | Inr c \<Rightarrow>
           say [Stdout (''created consumer '' @ go_quote env (cn_name c) @ '' on stream '' @ go_quote env stream
             @ '' with ack_wait=1m'' @ newline)]))))"

definition streams_rm :: "goenv \<Rightarrow> 'w js_admin \<Rightarrow> gocontext \<Rightarrow> string list \<Rightarrow> (unit, 'w) prog" where
  "streams_rm env A ctx args =
    andThenDo (nth_arg args 0) (\<lambda>name.
    andThenDo (ask (a_delete_stream A ctx name)) (\<lambda>err. case err of
        Some e \<Rightarrow> fatal [] (''rm: '' @ ext_text e)
      | None \<Rightarrow> say [Stdout (''deleted stream '' @ go_quote env name @ newline)]))"

text \<open>The \<open>switch\<close> of \<open>main\<close> on the command, with the arguments after it.\<close>

definition streams_command ::
    "goenv \<Rightarrow> nats_texts \<Rightarrow> 'w nats \<Rightarrow> 'w js_admin \<Rightarrow> gocontext \<Rightarrow> string \<Rightarrow> string list \<Rightarrow> (unit, 'w) prog" where
  "streams_command env nt N A ctx cmd args =
    (if cmd = ''add'' then streams_add env nt A ctx args
     else if cmd = ''info'' then streams_info env N A ctx args
     else if cmd = ''consumers'' then streams_consumers env nt N A ctx args
     else if cmd = ''add-consumer'' then streams_add_consumer env N ctx args
     else if cmd = ''rm'' then streams_rm env A ctx args
     else andThenDo (say [Stderr (streams_usage @ newline)]) (\<lambda>_. exit_with 2))"

definition streams_main ::
    "goenv \<Rightarrow> nats_texts \<Rightarrow> 'w nats \<Rightarrow> 'w js_admin \<Rightarrow> (string \<Rightarrow> string) \<Rightarrow> string list \<Rightarrow> (unit, 'w) prog" where
  "streams_main env nt N A getenv args =
    (if length args < 3 then andThenDo (say [Stderr (streams_usage @ newline)]) (\<lambda>_. exit_with 2)
     else
       let url = (if getenv ''NATS_URL'' = [] then DefaultURL else getenv ''NATS_URL'')
       in andThenDo (act (perform (\<lambda>_. CConnect url []) (n_connect N url []))) (\<lambda>err. case err of
            Some e \<Rightarrow> fatal [] (''connect: '' @ ext_text e)
          | None \<Rightarrow> deferred (act (\<lambda>W. ((), perform0 CClose (n_close N) W)))
              (andThenDo (ask (n_jetstream N)) (\<lambda>err. case err of
                 Some e \<Rightarrow> fatal [] (''jetstream: '' @ ext_text e)
               | None \<Rightarrow>
                   andThenDo (act (clock N)) (\<lambda>now.
                   streams_command env nt N A (with_timeout ctx_background now (10 * Second)) (args ! 1) (drop 2 args))))))"

section \<open>Lemmas on send\<close>

lemma pairs_set_Inr: "pairs_set env p v = Inr p' \<Longrightarrow> p \<noteq> None \<Longrightarrow> p' \<noteq> None"
  by (auto simp: pairs_set_def split: option.splits sum.splits dest: mput_not_nil)

lemma parse_pairs_effects:
  "\<forall>f. ps f \<noteq> None \<Longrightarrow> effects (parse_pairs env fs ps) (\<lambda>r cs out. cs = [] \<and>
    (case r of Inr ps' \<Rightarrow> out = [] \<and> (\<forall>f. ps' f \<noteq> None) | Inl h \<Rightarrow> h = Exited 2))"
proof (induction env fs ps rule: parse_pairs.induct)
  case (2 env f v fs ps)
  show ?case
  proof (cases "pairs_set env (ps f) v")
    case (Inl e)
    show ?thesis
      unfolding parse_pairs.simps Inl sum.case by (intro effects_do effects_say) (auto intro!: effects_exit)
  next
    case (Inr p)
    have "\<forall>g. (ps(f := p)) g \<noteq> None" using 2(2) pairs_set_Inr [OF Inr] by simp
    from 2(1) [OF Inr this] show ?thesis unfolding parse_pairs.simps Inr sum.case .
  qed
next
  case (1 env ps)
  then show ?case unfolding parse_pairs.simps by (intro effects_give) simp
qed

lemma effects_assign: "m \<noteq> None \<Longrightarrow> (\<And>m'. m' \<noteq> None \<Longrightarrow> Q (Inr m') [] []) \<Longrightarrow> effects (assign k v m) Q"
  using mput_ok [of m k v] by (auto simp: assign_def intro!: effects_give)

text \<open>The calls and the line of message number \<open>i\<close>.\<close>

definition sent_for :: "send_flags \<Rightarrow> nat \<Rightarrow> call list \<Rightarrow> bool" where
  "sent_for fl i cs \<longleftrightarrow> cs = [] \<or> (\<exists>m c. cs = [c] \<and> N_Data m = sf_payload fl @ '' '' @ show_nat i \<and>
    (c = CRequest m \<or> c = CPublish m \<or> (\<exists>stream. c = CJsPublish m stream)))"

definition line_for :: "target \<Rightarrow> nat \<Rightarrow> printed list \<Rightarrow> bool" where
  "line_for t i out \<longleftrightarrow> (\<exists>rest. out = [Logged [] ((if T_Kind t = KindRoute then ''request'' else ''publish'')
    @ '' '' @ show_nat i @ '': '' @ rest)])"

lemma send_one_effects:
  assumes "header_set_law env"
  shows "effects (send_one env mt nt N c fl t opts md i) (\<lambda>r cs out. r = Inr () \<and> sent_for fl i cs \<and> line_for t i out)"
  unfolding send_one_def Let_def
  by (auto intro!: effects_rules effects_clock effects_request [OF assms] effects_publish [OF assms]
      simp: sent_for_def line_for_def split: sum.split)

lemma send_loop_effects:
  assumes "\<And>i. effects (body i) (\<lambda>r cs out. r = Inr () \<and> P i cs \<and> R i out)"
  shows "effects (send_loop body i n) (\<lambda>r cs out. r = Inr () \<and>
    (\<exists>css outs. cs = concat css \<and> out = concat outs \<and> list_all2 P [i..<i + n] css \<and> list_all2 R [i..<i + n] outs))"
proof (induction n arbitrary: i)
  case 0
  show ?case
    unfolding send_loop.simps by (rule effects_give) (auto intro!: exI [of _ "[]"])
next
  case (Suc n)
  show ?case
    unfolding send_loop.simps
  proof (rule effects_do, rule effects_mono [OF assms [of i]])
    fix r :: "halt + unit" and cs out
    assume 1: "r = Inr () \<and> P i cs \<and> R i out"
    have "effects (send_loop body (Suc i) n) (\<lambda>r cs' out'. r = Inr () \<and> (\<exists>css outs. cs @ cs' = concat css \<and>
        out @ out' = concat outs \<and> list_all2 P [i..<i + Suc n] css \<and> list_all2 R [i..<i + Suc n] outs))"
    proof (rule effects_mono [OF Suc.IH [of "Suc i"]], elim conjE exE)
      fix r' :: "halt + unit" and cs' out' css outs
      assume 2: "r' = Inr ()" "cs' = concat css" "out' = concat outs" "list_all2 P [Suc i..<Suc i + n] css"
        "list_all2 R [Suc i..<Suc i + n] outs"
      have "[i..<i + Suc n] = i # [Suc i..<Suc i + n]" by (simp add: upt_conv_Cons)
      with 1 2 show "r' = Inr () \<and> (\<exists>css outs. cs @ cs' = concat css \<and> out @ out' = concat outs \<and>
          list_all2 P [i..<i + Suc n] css \<and> list_all2 R [i..<i + Suc n] outs)"
        by (intro conjI exI [of _ "cs # css"] exI [of _ "out # outs"]) simp_all
    qed
    with 1 show "case r of Inl h \<Rightarrow> Inl h = Inr () \<and> (\<exists>css outs. cs = concat css \<and> out = concat outs \<and>
        list_all2 P [i..<i + Suc n] css \<and> list_all2 R [i..<i + Suc n] outs)
      | Inr x \<Rightarrow> effects (send_loop body (Suc i) n) (\<lambda>r cs' out'. r = Inr () \<and> (\<exists>css outs. cs @ cs' = concat css \<and>
        out @ out' = concat outs \<and> list_all2 P [i..<i + Suc n] css \<and> list_all2 R [i..<i + Suc n] outs))" by simp
  qed
qed

lemma effects_ask: "(\<And>x. Q (Inr x) [] []) \<Longrightarrow> effects (ask f) Q"
  unfolding ask_def by (rule effects_act) (auto simp: added_def split: prod.splits)

lemma send_stream_info_effects:
  "effects (send_stream_info env mt N A c t) (\<lambda>r cs out. r = Inr () \<and> filter is_message cs = [] \<and> (\<exists>line. out = [line]))"
  unfolding send_stream_info_def
proof (rule effects_do, rule effects_try_no_panic)
  fix W W' and r :: "string option res"
  assume "client_stream N c ctx_background t W = (r, W')"
  from client_stream_effects [OF this] obtain cs where cs: "fails no_panic r" "added W W' cs" "filter is_message cs = []"
    by auto
  then show "fails no_panic r \<and> (\<exists>cs. added W W' cs \<and> (case Inr r of
      Inl h \<Rightarrow> Inl h = Inr () \<and> filter is_message cs = [] \<and> (\<exists>line. [] = [line])
    | Inr x \<Rightarrow> effects (case x of Inl e \<Rightarrow> say [Logged [] (''Client.Stream: '' @ error_text env mt e)]
        | Inr None \<Rightarrow> say [Logged [] ''Client.Stream: the target has no stream setting'']
        | Inr (Some name) \<Rightarrow>
            andThenDo (ask (a_stream_info A ctx_background name)) (\<lambda>r. case r of
                Inl e \<Rightarrow> say [Logged [] (''stream info: '' @ ext_text e)]
              | Inr info \<Rightarrow>
                  say [Logged [] (''stream '' @ go_quote env (st_Name (si_Config info)) @ '': ''
                    @ format_uint64 (si_Msgs info) @ '' messages, last sequence '' @ format_uint64 (si_LastSeq info)
                    @ '', '' @ format_int64 (si_Consumers info) @ '' consumers'')]))
        (\<lambda>r cs' out'. r = Inr () \<and> filter is_message (cs @ cs') = [] \<and> (\<exists>line. [] @ out' = [line]))))"
    by (intro conjI exI [of _ cs]) (auto intro!: effects_rules effects_ask split: sum.split option.split)
qed

text \<open>
  What the messages amount to: for each its calls and its line, in order, and then what
  \<open>-stream-info\<close> adds.
\<close>

definition messages_sent :: "send_flags \<Rightarrow> target \<Rightarrow> call list \<Rightarrow> printed list \<Rightarrow> bool" where
  "messages_sent fl t cs out \<longleftrightarrow> (\<exists>css outs rest info. cs = concat css @ rest \<and> out = concat outs @ info \<and>
     filter is_message rest = [] \<and> list_all2 (sent_for fl) [1..<Suc (nat (sint (sf_n fl)))] css \<and>
     list_all2 (line_for t) [1..<Suc (nat (sint (sf_n fl)))] outs \<and>
     (if sf_streamInfo fl then \<exists>line. info = [line] else info = [] \<and> rest = []))"

definition send_outcome :: "send_flags \<Rightarrow> halt + unit \<Rightarrow> call list \<Rightarrow> printed list \<Rightarrow> bool" where
  "send_outcome fl r cs out \<longleftrightarrow>
    (case r of
       Inl h \<Rightarrow> (h = Exited 1 \<or> h = Exited 2) \<and> filter is_message cs = []
     | Inr _ \<Rightarrow> \<exists>u os sent. cs = [CConnect u os] @ sent @ [CClose] \<and>
         messages_sent fl (flag_target (sf_kind fl) (sf_subject fl) None) sent out)"

lemma send_outcome_failed: "send_outcome fl (Inl h) cs out \<longleftrightarrow> (h = Exited 1 \<or> h = Exited 2) \<and> filter is_message cs = []"
  by (simp add: send_outcome_def)

lemma send_outcome_done: "send_outcome fl (Inr x) cs out \<longleftrightarrow>
    (\<exists>u os css outs rest info. cs = [CConnect u os] @ concat css @ rest @ [CClose] \<and>
      out = concat outs @ info \<and> filter is_message rest = [] \<and>
      list_all2 (sent_for fl) [1..<Suc (nat (sint (sf_n fl)))] css \<and>
      list_all2 (line_for (flag_target (sf_kind fl) (sf_subject fl) None)) [1..<Suc (nat (sint (sf_n fl)))] outs \<and>
      (if sf_streamInfo fl then \<exists>line. info = [line] else info = [] \<and> rest = []))"
  (is "_ \<longleftrightarrow> ?done")
proof -
  have "send_outcome fl (Inr x) cs out \<longleftrightarrow> (\<exists>u os sent. cs = [CConnect u os] @ sent @ [CClose] \<and>
      messages_sent fl (flag_target (sf_kind fl) (sf_subject fl) None) sent out)"
    by (simp add: send_outcome_def)
  also have "\<dots> \<longleftrightarrow> ?done"
    unfolding messages_sent_def
    by (intro iffI; elim exE conjE; intro exI conjI; (assumption | simp del: upt_Suc)?)
  finally show ?thesis .
qed

lemma messages_sent_target: "T_Kind t = T_Kind t' \<Longrightarrow> messages_sent fl t = messages_sent fl t'"
  by (intro ext) (simp add: messages_sent_def line_for_def [abs_def])

lemma send_run_effects:
  fixes N :: "'w nats"
  assumes "header_set_law env"
  shows "effects (send_run env mt nt N A c fl t opts md) (\<lambda>r cs out. r = Inr () \<and> messages_sent fl t cs out)"
  unfolding send_run_def
proof (rule effects_do, rule effects_mono [OF send_loop_effects [OF send_one_effects [OF assms]]], elim conjE exE)
  fix r :: "halt + unit" and cs out css outs
  assume 1: "r = Inr ()" "cs = concat css" "out = concat outs"
    "list_all2 (sent_for fl) [1..<1 + nat (sint (sf_n fl))] css" "list_all2 (line_for t) [1..<1 + nat (sint (sf_n fl))] outs"
  let ?Q = "\<lambda>r cs' out'. r = Inr () \<and> messages_sent fl t (cs @ cs') (out @ out')"
  have m: "messages_sent fl t (cs @ rest) (out @ info)" if "filter is_message rest = []"
    "if sf_streamInfo fl then \<exists>line. info = [line] else info = [] \<and> rest = []" for rest info
    using 1 that unfolding messages_sent_def by (metis plus_1_eq_Suc)
  have "effects (if sf_streamInfo fl then send_stream_info env mt N A c t else give ()) ?Q"
  proof (cases "sf_streamInfo fl")
    case True
    have "effects (send_stream_info env mt N A c t) ?Q"
      by (rule effects_mono [OF send_stream_info_effects]) (use m True in auto)
    with True show ?thesis by simp
  next
    case False
    have "effects (give () :: (unit, 'w) prog) ?Q" by (rule effects_give) (use m [of "[]" "[]"] False in simp)
    with False show ?thesis by simp
  qed
  with 1(1) show "case r of Inl h \<Rightarrow> Inl h = Inr () \<and> messages_sent fl t cs out
    | Inr x \<Rightarrow> effects (if sf_streamInfo fl then send_stream_info env mt N A c t else give ()) ?Q" by simp
qed

lemma send_main_effects:
  assumes "header_set_law env"
  shows "effects (send_main env mt nt N A getenv fl) (send_outcome fl)"
proof -
  let ?t = "\<lambda>ps :: pair_flag \<Rightarrow> string gomap. flag_target (sf_kind fl) (sf_subject fl) (ps FTarget)"
  have t: "messages_sent fl (?t ps) = messages_sent fl (flag_target (sf_kind fl) (sf_subject fl) None)" for ps
    by (rule messages_sent_target) (simp add: flag_target_def)
  have body: "effects (deferred (close_client N c) (send_run env mt nt N A c fl (?t ps) opts md))
    (\<lambda>r cs out. send_outcome fl r ([CConnect u os] @ cs) ([] @ out))" if "\<not> cl_closed c" for c ps opts md u os
    by (rule effects_deferred, rule effects_mono [OF send_run_effects [OF assms]])
      (use that in \<open>auto intro!: effects_close simp: send_outcome_def t\<close>)
  have client: "effects (andThenDo (try_act (new_client N cfg [?t ps])) (\<lambda>r. case r of
         Inl e \<Rightarrow> fatal [] (''NewClient: '' @ error_text env mt e)
       | Inr c \<Rightarrow> deferred (close_client N c) (send_run env mt nt N A c fl (?t ps) (ps FSet) (ps FMd)))) (send_outcome fl)"
    for cfg ps
  proof (rule effects_do, rule effects_new_client, unfold sum.case)
    fix e cs u os
    assume "cs = [] \<or> cs = [CConnect u os] \<or> cs = [CConnect u os, CClose]"
    then show "effects (fatal [] (''NewClient: '' @ error_text env mt e)) (\<lambda>r cs' out'. send_outcome fl r (cs @ cs') ([] @ out'))"
      by (intro effects_fatal) (auto simp: send_outcome_def)
  qed (rule body)
  have cfg: "effects (if getenv ''NATS_URL'' \<noteq> [] then assign (key URLKey) (getenv ''NATS_URL'') m else give m) Q"
    if "m \<noteq> None" "\<And>x. Q (Inr x) [] []" for m and Q :: "halt + string gomap \<Rightarrow> call list \<Rightarrow> printed list \<Rightarrow> bool"
    using that by (auto intro!: effects_assign effects_give)
  show ?thesis
    unfolding send_main_def Let_def
  proof (rule effects_do, rule effects_mono [OF parse_pairs_effects])
    fix r :: "halt + (pair_flag \<Rightarrow> string gomap)" and cs :: "call list" and out :: "printed list"
    assume 1: "cs = [] \<and> (case r of Inr ps' \<Rightarrow> out = [] \<and> (\<forall>f. ps' f \<noteq> None) | Inl h \<Rightarrow> h = Exited 2)"
    let ?rest = "\<lambda>ps. andThenDo (if getenv ''NATS_URL'' \<noteq> [] then assign (key URLKey) (getenv ''NATS_URL'') (ps FCfg) else give (ps FCfg))
      (\<lambda>cfg. andThenDo (try_act (new_client N cfg [?t ps])) (\<lambda>r. case r of
         Inl e \<Rightarrow> fatal [] (''NewClient: '' @ error_text env mt e)
       | Inr c \<Rightarrow> deferred (close_client N c) (send_run env mt nt N A c fl (?t ps) (ps FSet) (ps FMd))))"
    have rest: "effects (?rest ps) (send_outcome fl)" if "ps FCfg \<noteq> None" for ps
      by (rule effects_do, rule cfg [OF that]) (unfold sum.case append_Nil, rule client)
    show "case r of Inl h \<Rightarrow> send_outcome fl (Inl h) cs out
      | Inr ps \<Rightarrow> effects (?rest ps) (\<lambda>r cs' out'. send_outcome fl r (cs @ cs') (out @ out'))"
    proof (cases r)
      case (Inl h)
      with 1 show ?thesis by (simp add: send_outcome_def)
    next
      case (Inr ps)
      with 1 have p: "cs = []" "out = []" "ps FCfg \<noteq> None" by simp_all
      show ?thesis unfolding Inr p(1,2) sum.case append_Nil by (rule rest) (rule p(3))
    qed
  qed simp
qed

section \<open>Lemmas on streams\<close>

text \<open>Programs that never panic.\<close>

definition crash_free :: "('a, 'w) prog \<Rightarrow> bool" where
  "crash_free p \<longleftrightarrow> (\<forall>S x. fst (p S) \<noteq> Inl (Crashed x))"

lemma crash_free_do: "crash_free p \<Longrightarrow> (\<And>x. crash_free (f x)) \<Longrightarrow> crash_free (andThenDo p f)"
  unfolding crash_free_def andThenDo_def by (auto split: sum.split prod.split) (metis fst_conv sum.inject(1))+

lemma crash_free_simps [intro!]:
  "crash_free (give x)" "crash_free (say ps)" "crash_free (exit_with n)" "crash_free (fatal pre t)"
  "crash_free (act f)" "crash_free (ask g)"
  by (simp_all add: crash_free_def give_def say_def exit_with_def act_def ask_def split: prod.split)

lemma crash_free_nth_arg: "i < length xs \<Longrightarrow> crash_free (nth_arg xs i)"
  by (simp add: crash_free_def)

lemmas crash_free_rules = crash_free_do crash_free_nth_arg

lemma streams_crash_free:
  "2 \<le> length args \<Longrightarrow> crash_free (streams_add env nt A ctx args)"
  "1 \<le> length args \<Longrightarrow> crash_free (streams_info env N A ctx args)"
  "1 \<le> length args \<Longrightarrow> crash_free (streams_consumers env nt N A ctx args)"
  "3 \<le> length args \<Longrightarrow> crash_free (streams_add_consumer env N ctx args)"
  "1 \<le> length args \<Longrightarrow> crash_free (streams_rm env A ctx args)"
  unfolding streams_add_def streams_info_def streams_consumers_def streams_add_consumer_def streams_rm_def
    look_up_stream_def Let_def
  by (auto intro!: crash_free_rules split: sum.split option.split)

lemma streams_add_crash: "length args < 2 \<Longrightarrow> \<exists>p. streams_add env nt A ctx args S = (Inl (Crashed p), S)"
  using nth_arg_crash [of args 0 S] nth_arg_crash [of args 1 S]
  by (cases args) (auto simp: streams_add_def andThenDo_def nth_arg_def)

lemma streams_add_consumer_crash:
  "length args < 3 \<Longrightarrow> \<exists>p. streams_add_consumer env N ctx args S = (Inl (Crashed p), S)"
  by (cases args; cases "tl args") (auto simp: streams_add_consumer_def andThenDo_def nth_arg_def)

lemma streams_command_crash:
  assumes "args \<noteq> []"
  shows "(\<exists>p. fst (streams_command env nt N A ctx cmd args S) = Inl (Crashed p)) \<longleftrightarrow>
    cmd = ''add'' \<and> length args < 2 \<or> cmd = ''add-consumer'' \<and> length args < 3"
proof -
  have 1: "1 \<le> length args" using assms by (cases args) simp_all
  have safe: "\<nexists>p. fst (q S) = Inl (Crashed p)" if "crash_free q" for q :: "(unit, 'a) prog"
    using that by (simp add: crash_free_def)
  have usage: "crash_free (andThenDo (say [Stderr (streams_usage @ newline)]) (\<lambda>_. exit_with 2) :: (unit, 'a) prog)"
    by (intro crash_free_do crash_free_simps)
  consider "cmd = ''add''" | "cmd = ''add-consumer''" | "cmd \<noteq> ''add''" "cmd \<noteq> ''add-consumer''" by blast
  then show ?thesis
  proof cases
    case 1
    then show ?thesis
      using safe [OF streams_crash_free(1)] streams_add_crash [of args env nt A ctx S]
      by (cases "length args < 2") (auto simp: streams_command_def)
  next
    case 2
    then show ?thesis
      using safe [OF streams_crash_free(4)] streams_add_consumer_crash [of args env N ctx S]
      by (cases "length args < 3") (auto simp: streams_command_def)
  next
    case 3
    then show ?thesis
      using safe [OF streams_crash_free(2) [OF 1]] safe [OF streams_crash_free(3) [OF 1]]
        safe [OF streams_crash_free(5) [OF 1]] safe [OF usage]
      by (simp add: streams_command_def)
  qed
qed

section \<open>Properties\<close>

text \<open>C39: a run of \<open>send\<close> that connects sends its messages one by one and in order, each at most
  once and with its number at the end of its payload, and prints exactly one line for each,
  with its number, whether it failed or not: a message that fails does not stop those after it.
  It closes its connection last and ends with status 0.  Any other run ends with status 1 or 2
  and sends nothing; none panics.\<close>

theorem send_reports_every_message:
  assumes "header_set_law env" and "send_main env mt nt N A getenv fl S = (r, S')"
  shows "\<exists>cs out. w_log (o_world S') = w_log (o_world S) @ cs \<and> o_out S' = o_out S @ out \<and>
    (case r of
       Inl h \<Rightarrow> (h = Exited 1 \<or> h = Exited 2) \<and> filter is_message cs = []
     | Inr _ \<Rightarrow> \<exists>u os css outs rest info. cs = [CConnect u os] @ concat css @ rest @ [CClose] \<and>
         out = concat outs @ info \<and> filter is_message rest = [] \<and>
         list_all2 (sent_for fl) [1..<Suc (nat (sint (sf_n fl)))] css \<and>
         list_all2 (line_for (flag_target (sf_kind fl) (sf_subject fl) None)) [1..<Suc (nat (sint (sf_n fl)))] outs \<and>
         (if sf_streamInfo fl then \<exists>line. info = [line] else info = [] \<and> rest = []))"
proof -
  obtain cs out where "w_log (o_world S') = w_log (o_world S) @ cs" "o_out S' = o_out S @ out" "send_outcome fl r cs out"
    using effectsD [OF send_main_effects [OF assms(1)] assms(2)] .
  then show ?thesis
    by (intro exI [of _ cs] exI [of _ out]) (cases r; simp only: sum.case send_outcome_failed send_outcome_done simp_thms)
qed

definition sample_admin :: "nat js_admin" where
  "sample_admin = \<lparr>a_create_stream = (\<lambda>_ cfg w. (Inr \<lparr>si_Config = cfg, si_Msgs = 0, si_FirstSeq = 0, si_LastSeq = 0,
       si_Consumers = 0\<rparr>, w)),
     a_stream_info = (\<lambda>_ _ w. (Inl ErrTimeout, w)), a_list_consumers = (\<lambda>_ _ w. (([], None), w)),
     a_delete_stream = (\<lambda>_ _ w. (None, w)), a_consumer_info = (\<lambda>_ _ w. (Inl ErrTimeout, w))\<rparr>"

definition sample_nats_texts :: nats_texts where
  "sample_nats_texts = \<lparr>nt_retention = (\<lambda>_. ''Limits''), nt_ack_policy = (\<lambda>_. ''explicit''),
     nt_deliver_policy = (\<lambda>_. ''all''), nt_error_type = (\<lambda>_. ''*errors.errorString'')\<rparr>"

definition sample_send_flags :: send_flags where
  "sample_send_flags = \<lparr>sf_kind = ''topic'', sf_subject = ''demo.created'', sf_n = 2, sf_payload = ''hello'',
     sf_deadline = 0, sf_streamInfo = False, sf_pairs = []\<rparr>"

lemma sample_send_run:
  "fst (send_main sample_env sample_mesh_texts sample_nats_texts sample_nats sample_admin (\<lambda>_. []) sample_send_flags sample_os) = Inr ()"
proof -
  let ?t = "flag_target ''topic'' ''demo.created'' mmake"
  obtain c W1 where c: "new_client sample_nats mmake [?t] (init_world 0) = (Inr c, W1)"
    by (simp add: new_client_def parse_client_settings_def duration_setting_def sample_nats_def
        perform_def init_world_def Let_def)
  let ?run = "send_run sample_env sample_mesh_texts sample_nats_texts sample_nats sample_admin c sample_send_flags ?t mmake mmake"
  obtain r S2 where run: "?run (sample_os\<lparr>o_world := W1\<rparr>) = (r, S2)" by force
  have "r = Inr ()" using effectsD [OF send_run_effects [OF sample_env_laws(1)] run] by blast
  with run c show ?thesis
    by (simp add: send_main_def Let_def andThenDo_def deferred_def act_def try_act_run close_client_def sample_os_def
        sample_send_flags_def split_beta)
qed

theorem send_reports_every_message_witness:
  "\<exists>S' l1 l2. send_main sample_env sample_mesh_texts sample_nats_texts sample_nats sample_admin (\<lambda>_. []) sample_send_flags sample_os
      = (Inr (), S') \<and> o_out S' = [l1, l2] \<and>
    line_for (flag_target ''topic'' ''demo.created'' None) 1 [l1] \<and> line_for (flag_target ''topic'' ''demo.created'' None) 2 [l2]"
proof -
  obtain S' where S': "send_main sample_env sample_mesh_texts sample_nats_texts sample_nats sample_admin (\<lambda>_. []) sample_send_flags
      sample_os = (Inr (), S')" using sample_send_run by (metis prod.collapse)
  have n: "[1..<Suc (nat (sint (sf_n sample_send_flags)))] = [1, 2]" by (simp add: sample_send_flags_def upt_rec)
  obtain outs where o: "o_out S' = concat outs"
    "list_all2 (line_for (flag_target ''topic'' ''demo.created'' None)) [1, 2] outs"
    using send_reports_every_message [OF sample_env_laws(1) S'] unfolding n
    by (auto simp: sample_send_flags_def sample_os_def)
  then obtain o1 o2 where "outs = [o1, o2]" "line_for (flag_target ''topic'' ''demo.created'' None) 1 o1"
    "line_for (flag_target ''topic'' ''demo.created'' None) 2 o2" by (auto simp: list_all2_Cons1)
  with o(1) S' show ?thesis by (auto simp: line_for_def)
qed

text \<open>C40: \<open>streams\<close> checks that it has a command and one argument, but \<open>add\<close> needs two and
  \<open>add-consumer\<close> three: on a server that can be reached it panics, with an index out of range,
  exactly when one of these is missing, instead of printing its usage.\<close>

theorem streams_panics_on_missing_argument:
  assumes "\<And>u w. fst (n_connect N u [] w) = None" and "\<And>w. fst (n_jetstream N w) = None" and "3 \<le> length args"
  shows "(\<exists>p. fst (streams_main env nt N A getenv args S) = Inl (Crashed p)) \<longleftrightarrow>
    args ! 1 = ''add'' \<and> length args < 4 \<or> args ! 1 = ''add-consumer'' \<and> length args < 5"
proof -
  let ?url = "if getenv ''NATS_URL'' = [] then DefaultURL else getenv ''NATS_URL''"
  obtain W1 where 1: "perform (\<lambda>_. CConnect ?url []) (n_connect N ?url []) (o_world S) = (None, W1)"
    using assms(1) [of ?url] by (simp add: perform_def split_beta)
  obtain w where 2: "n_jetstream N (w_ext W1) = (None, w)" using assms(2) by (metis prod.collapse)
  let ?S = "S\<lparr>o_world := W1\<lparr>w_ext := w\<rparr>\<rparr>"
  obtain now W2 where 3: "clock N (W1\<lparr>w_ext := w\<rparr>) = (now, W2)" by force
  let ?ctx = "with_timeout ctx_background now (10 * Second)"
  obtain r S3 where 4: "streams_command env nt N A ?ctx (args ! 1) (drop 2 args) (S\<lparr>o_world := W2\<rparr>) = (r, S3)" by force
  have "fst (streams_main env nt N A getenv args S) = r"
    using assms(3) 1 2 3 4
    by (cases r) (auto simp: streams_main_def andThenDo_def deferred_def act_def ask_def Let_def split: halt.split)
  with streams_command_crash [of "drop 2 args" env nt N A ?ctx "args ! 1" "S\<lparr>o_world := W2\<rparr>"] 4 assms(3)
  show ?thesis by auto
qed

theorem streams_panics_on_missing_argument_witness:
  "\<exists>p. fst (streams_main sample_env sample_nats_texts sample_nats sample_admin (\<lambda>_. []) [''streams'', ''add'', ''DEMO''] sample_os)
    = Inl (Crashed p)"
  by (subst streams_panics_on_missing_argument) (simp_all add: sample_nats_def)

text \<open>The handler of \<open>serve\<close> fails its first \<open>-fail\<close> calls and no other, as long as the number
  of the call fits an \<open>int32\<close>.  The next 2147483648 calls have a negative number and fail whatever the
  flag is.\<close>

theorem serve_fails_first_calls:
  assumes "0 < k" and "k < 2 ^ 32" and "co_n ob = of_nat k" and "0 \<le> sint (sv_fail fl)"
  shows "h_error (serve_handle env fl ob ctx m) = None \<longleftrightarrow> k < 2 ^ 31 \<and> sint (sv_fail fl) < int k"
proof -
  have n: "sint (co_n ob) = (if k < 2 ^ 31 then int k else int k - 2 ^ 32)"
    using assms(1,2) int_word_sint [of "int k", where 'a = 32] by (auto simp: assms(3) mod_add_if_z)
  have "h_error (serve_handle env fl ob ctx m) = None \<longleftrightarrow> sint (sv_fail fl) < sint (co_n ob)"
    by (simp add: serve_handle_def Let_def split_beta not_le)
  with n assms(2,4) show ?thesis by auto
qed

theorem serve_fails_first_calls_witness:
  "h_error (serve_handle sample_env \<lparr>sv_kind = ''topic'', sv_subject = ''demo.created'', sv_group = [], sv_fail = 1, sv_work = 0,
      sv_ignoreCtx = False, sv_drain = 0, sv_pairs = []\<rparr>
    \<lparr>co_n = 2, co_start = 0, co_until = 0, co_select = 0, co_tie = False\<rparr> ctx_background zero_message) = None"
  by (subst serve_fails_first_calls [where k = 2]) simp_all

end
