(* ===== verification/Services.thy ===== *)
theory Services
  imports Rpc Lifecycle
begin

text \<open>
  \<open>New\<close>, \<open>Start\<close> and \<open>Request\<close> composed: which endpoints a started runtime listens for and
  which of them answers a request.  NATS is the hypothesis \<open>requests_routed\<close>.
\<close>

section \<open>What a started runtime listens to\<close>

text \<open>The subscriptions without a stream, and the handle \<open>Start\<close> got for each.\<close>

definition core_subscriptions :: "subscription list \<Rightarrow> subscription list" where
  "core_subscriptions bs = filter (\<lambda>b. sb_js b = None) bs"

definition open_subscriptions :: "runtime \<Rightarrow> (subscription \<times> nat) list" where
  "open_subscriptions r = zip (core_subscriptions (rc_subscriptions (r_config r))) (r_subs r)"

text \<open>The connection was asked for the subscription with handle \<open>h\<close>.\<close>

definition subscribed :: "call list \<Rightarrow> subscription \<Rightarrow> nat \<Rightarrow> bool" where
  "subscribed calls b h \<longleftrightarrow>
    CSubscribe (sb_subject b) (if sb_queue b = [] then None else Some (sb_queue b)) (Inr h) \<in> set calls"

text \<open>
  The documented behaviour of NATS when nobody but the runtime \<open>r\<close> responds to the subject
  \<open>subj\<close>, neither another server nor a stream: a request that returns a reply has been served by
  one of the runtime's subscriptions of that subject.  Nothing is said of a request that
  returns an error.  \<open>M\<close> is the caller's connection and \<open>N\<close> the server's.
\<close>

definition requests_routed ::
    "goenv \<Rightarrow> 'w nats \<Rightarrow> 'v nats \<Rightarrow> gocontext \<Rightarrow> runtime \<Rightarrow> string \<Rightarrow> bool" where
  "requests_routed env M N hctx r subj \<longleftrightarrow>
    (\<forall>ctx m w reply. N_Subject m = subj \<longrightarrow> fst (n_request M ctx m w) = Inr reply \<longrightarrow>
      (\<exists>b h. (b, h) \<in> set (open_subscriptions r) \<and> sb_subject b = subj \<and> answered env N hctx b m reply))"

text \<open>The loop of \<open>openReceivers\<close> subscribes once for each subscription without a stream.\<close>

lemma open_loop_subscribes:
  assumes "open_loop N ctx g ix bs W = ((hs, js, None), W')"
  shows "list_all2 (subscribed (w_log W')) (core_subscriptions bs) hs"
  using assms
proof (induction bs arbitrary: ix W hs js)
  case Nil
  then show ?case by (simp add: core_subscriptions_def)
next
  case (Cons b bs)
  show ?case
  proof (cases "sb_js b")
    case None
    obtain r W1 where s: "subscribe N b W = (r, W1)" by force
    then obtain h where r: "r = Inr h" using Cons.prems None by (cases r) simp_all
    obtain hs' js' err' W2 where l: "open_loop N ctx g (Suc ix) bs W1 = ((hs', js', err'), W2)"
      by (metis prod.exhaust)
    with Cons.prems None s r have e: "hs = h # hs'" "err' = None" "W2 = W'" by simp_all
    obtain cs where "added W1 W' cs" using open_loop_added [OF l] e by blast
    with subscribe_added [OF s] r have "subscribed (w_log W') b h" by (simp add: subscribed_def added_def)
    with Cons.IH [of "Suc ix" W1 hs' js'] l e None show ?thesis by (simp add: core_subscriptions_def)
  next
    case (Some s)
    obtain r W1 where c: "consume N ctx ix b s g W = (r, W1)" by force
    then obtain x where r: "r = Inr x" using Cons.prems Some by (cases r) simp_all
    obtain hs' js' err' W2 where l: "open_loop N ctx g (Suc ix) bs W1 = ((hs', js', err'), W2)"
      by (metis prod.exhaust)
    with Cons.prems Some c r have "hs = hs'" "err' = None" "W2 = W'" by simp_all
    with Cons.IH [of "Suc ix" W1 hs' js'] l Some show ?thesis by (simp add: core_subscriptions_def)
  qed
qed

lemma start_subscribes:
  assumes "start N r ctx W = (None, r', W')"
  shows "r_config r' = r_config r \<and>
    list_all2 (subscribed (w_log W')) (core_subscriptions (rc_subscriptions (r_config r))) (r_subs r')"
  using assms
proof (cases rule: start_ends)
  case (started hs js cs W1 W2)
  from started(4) obtain V where "open_loop N ctx (Suc (r_handlerCtx r)) 0 (rc_subscriptions (r_config r)) V = ((hs, js, None), W2)"
    by (auto simp: open_receivers_def split: prod.splits option.splits)
  from open_loop_subscribes [OF this] started(5,11) show ?thesis
    by (auto simp: subscribed_def added_def elim!: list_all2_mono)
qed simp_all

lemma open_subscriptionsI:
  assumes "list_all2 P (core_subscriptions bs) hs" and "b \<in> set bs" and "sb_js b = None"
  obtains h where "(b, h) \<in> set (zip (core_subscriptions bs) hs)" "P b h"
proof -
  have "b \<in> set (core_subscriptions bs)" using assms(2,3) by (simp add: core_subscriptions_def)
  then obtain i where "i < length (core_subscriptions bs)" "core_subscriptions bs ! i = b"
    by (metis in_set_conv_nth)
  with assms(1) have "(b, hs ! i) \<in> set (zip (core_subscriptions bs) hs)" "P b (hs ! i)"
    by (auto simp: list_all2_conv_all_nth set_zip)
  then show thesis by (rule that)
qed

lemma open_subscriptionsD:
  "(b, h) \<in> set (open_subscriptions r) \<Longrightarrow> b \<in> set (rc_subscriptions (r_config r)) \<and> sb_js b = None"
  by (auto simp: open_subscriptions_def core_subscriptions_def dest!: set_zip_leftD)

section \<open>Who answers\<close>

text \<open>Whose subscription a subscription of a runtime is.\<close>

lemma new_runtime_owner:
  assumes "new_runtime env cl cfg es ss fns = Inr rc" and "b \<in> set (rc_subscriptions rc)"
  shows "(\<exists>e g. e \<in> set es \<and> endpoint_subscription env g e b) \<or>
    (\<exists>x s. x \<in> set ss \<and> subscriber_subscription env s x b)"
proof -
  obtain s bs cs where r: "rc_subscriptions rc = bs @ cs" "list_all2 (endpoint_subscription env (rs_deploymentGroup s)) es bs"
    "list_all2 (subscriber_subscription env s) ss cs" by (rule new_runtime_lists [OF assms(1)]) (rule that)
  with assms(2) show ?thesis by (auto simp: in_set_conv_nth list_all2_conv_all_nth) metis+
qed

lemma new_runtime_endpoint:
  assumes "new_runtime env cl cfg es ss fns = Inr rc" and "e \<in> set es"
  obtains b g where "b \<in> set (rc_subscriptions rc)" "endpoint_subscription env g e b"
proof -
  obtain s bs cs where r: "rc_subscriptions rc = bs @ cs" "list_all2 (endpoint_subscription env (rs_deploymentGroup s)) es bs"
    "list_all2 (subscriber_subscription env s) ss cs" by (rule new_runtime_lists [OF assms(1)]) (rule that)
  from assms(2) obtain i where "i < length es" "es ! i = e" by (metis in_set_conv_nth)
  with r show thesis
    by (intro that [of "bs ! i" "rs_deploymentGroup s"]) (auto simp: list_all2_conv_all_nth)
qed

lemma request_checks_subject:
  "request_checks env c msg opts = Inr (subj, t) \<Longrightarrow> subject env (M_Target msg) = Inr subj"
  by (auto simp: request_checks_def andThen_eq_Inr Let_def split: if_splits)

lemma subject_segments_eq:
  assumes "subject env t = Inr s" and "subject env t' = Inr s'"
  shows "T_Segments t = T_Segments t' \<longleftrightarrow> s = s'"
proof
  assume "T_Segments t = T_Segments t'"
  then have "subject env t = subject env t'" by (simp only: subject_def)
  with assms show "s = s'" by simp
next
  assume "s = s'"
  then show "T_Segments t = T_Segments t'" using subject_split [OF assms(1)] subject_split [OF assms(2)] by simp
qed

lemma open_subscriptions_subscribed:
  assumes "list_all2 (subscribed calls) (core_subscriptions (rc_subscriptions (r_config r))) (r_subs r)"
    and "(b, h) \<in> set (open_subscriptions r)"
  shows "subscribed calls b h"
  using assms by (auto simp: open_subscriptions_def list_all2_iff)

text \<open>C3: what a service answers.  When \<open>New\<close> and \<open>Start\<close> have succeeded, the runtime has a
  subscription for each endpoint whose segments are those of a request's target.  The request
  makes one call, and if nobody else responds to its subject, then either that call returns an
  error, as when the context ends or nobody responds, and the request returns it, with an
  expired request timeout as \<open>ErrTimeout\<close>; or the handler of one of these endpoints has been
  given the request's payload and metadata under its own target, and the caller gets what it
  returned, or a handler error with the text of its error or panic.  The metadata of the
  request must be plain, and so must be what the handler returns - names that are tokens, values
  without line breaks or blanks around them - and a handler that succeeds must not set
  \<open>Mesh-Handler-Error\<close>, which would be read as a failure.\<close>

theorem started_service_answers:
  assumes "header_set_law env"
    and "new_runtime env (Some cl) cfg es ss fns = Inr rc"
    and "start N (created rc cl) sctx V = (None, r, V')"
    and "requests_routed env M N hctx r subj"
    and "request_checks env c msg opts = Inr (subj, t)" and "plain_metadata (M_Metadata msg)"
  shows "(\<forall>e \<in> set es. T_Segments (E_Target e) = T_Segments (M_Target msg) \<longrightarrow>
      (\<exists>b k. (b, k) \<in> set (open_subscriptions r) \<and> subscribed (w_log V') b k \<and>
        sb_subject b = subj \<and> sb_endpoint b = E_Handler e \<and> sb_target b = E_Target e)) \<and>
    (\<exists>bctx m w. bctx = fst (fst (bound_context M ctx t W)) \<and>
      w_log (snd (request env M c ctx msg opts W)) = w_log W @ [CRequest m] \<and> N_Subject m = subj \<and>
      (case fst (n_request M bctx m w) of
         Inl x \<Rightarrow> \<exists>now. fst (request env M c ctx msg opts W) = Inl (External (timeout_error bctx now x))
       | Inr _ \<Rightarrow> \<exists>e h. e \<in> set es \<and> E_Handler e = Some h \<and> T_Segments (E_Target e) = T_Segments (M_Target msg) \<and>
           handled_request (E_Target e) h msg (fst (request env M c ctx msg opts W))))"
proof (intro conjI ballI impI)
  note subj = request_checks_subject [OF assms(5)]
  have cfg: "r_config r = rc" and subs: "list_all2 (subscribed (w_log V')) (core_subscriptions (rc_subscriptions rc)) (r_subs r)"
    using start_subscribes [OF assms(3)] by (simp_all add: created_def)
  {
    fix e assume e: "e \<in> set es" "T_Segments (E_Target e) = T_Segments (M_Target msg)"
    obtain b g where b: "b \<in> set (rc_subscriptions rc)" "endpoint_subscription env g e b"
      using new_runtime_endpoint [OF assms(2) e(1)] .
    have "sb_subject b = subj" using b(2) e(2) subj subject_segments_eq by (metis endpoint_subscription_def)
    moreover have "sb_js b = None" "sb_endpoint b = E_Handler e" "sb_target b = E_Target e"
      using b(2) by (auto simp: endpoint_subscription_def)
    moreover obtain k where "(b, k) \<in> set (open_subscriptions r)" "subscribed (w_log V') b k"
      using open_subscriptionsI [OF subs b(1) calculation(2)] unfolding open_subscriptions_def cfg by blast
    ultimately show "\<exists>b k. (b, k) \<in> set (open_subscriptions r) \<and> subscribed (w_log V') b k \<and>
        sb_subject b = subj \<and> sb_endpoint b = E_Handler e \<and> sb_target b = E_Target e" by blast
  }
  let ?P = "\<lambda>(b' :: subscription) h'. \<exists>e' \<in> set es. E_Handler e' = Some h' \<and> T_Segments (E_Target e') = T_Segments (M_Target msg) \<and>
      sb_target b' = E_Target e'"
  have routed: "\<forall>bctx m w reply. N_Subject m = subj \<longrightarrow> fst (n_request M bctx m w) = Inr reply \<longrightarrow>
      (\<exists>b' h'. ?P b' h' \<and> sb_subscriber b' = None \<and> sb_endpoint b' = Some h' \<and> answered env N hctx b' m reply)"
  proof (intro allI impI)
    fix bctx :: gocontext and m reply :: natsmsg and w
    assume m: "N_Subject m = subj" "fst (n_request M bctx m w) = Inr reply"
    obtain b' k where k: "(b', k) \<in> set (open_subscriptions r)" "sb_subject b' = subj" "answered env N hctx b' m reply"
      using assms(4) m unfolding requests_routed_def by metis
    note none = answered_by_endpoint [OF k(3)]
    from new_runtime_owner [OF assms(2)] open_subscriptionsD [OF k(1)] cfg
    consider (endpoint) e' g' where "e' \<in> set es" "endpoint_subscription env g' e' b'"
      | (subscriber) x s where "x \<in> set ss" "subscriber_subscription env s x b'" by blast
    then show "\<exists>b' h'. ?P b' h' \<and> sb_subscriber b' = None \<and> sb_endpoint b' = Some h' \<and> answered env N hctx b' m reply"
    proof cases
      case endpoint
      then obtain h' where h': "E_Handler e' = Some h'" "sb_endpoint b' = Some h'"
        "sb_target b' = E_Target e'" "subject env (E_Target e') = Inr subj"
        using k(2) by (auto simp: endpoint_subscription_def)
      with endpoint(1) k(3) none subject_segments_eq [OF h'(4) subj] show ?thesis by blast
    next
      case subscriber
      with none show ?thesis by (auto simp: subscriber_subscription_def)
    qed
  qed
  obtain bctx m w where b: "bctx = fst (fst (bound_context M ctx t W))"
    and q: "w_log (snd (request env M c ctx msg opts W)) = w_log W @ [CRequest m]" "N_Subject m = subj"
    "\<forall>x. fst (n_request M bctx m w) = Inl x \<longrightarrow>
      (\<exists>now. fst (request env M c ctx msg opts W) = Inl (External (timeout_error bctx now x)))"
    "\<forall>reply. fst (n_request M bctx m w) = Inr reply \<longrightarrow>
      (\<exists>b h. ?P b h \<and> handled_request (sb_target b) h msg (fst (request env M c ctx msg opts W)))"
    by (rule request_answered [where P = ?P, OF assms(1,5,6) routed, where ctx = ctx and W = W]) (rule that)
  show "\<exists>bctx m w. bctx = fst (fst (bound_context M ctx t W)) \<and>
      w_log (snd (request env M c ctx msg opts W)) = w_log W @ [CRequest m] \<and> N_Subject m = subj \<and>
      (case fst (n_request M bctx m w) of
         Inl x \<Rightarrow> \<exists>now. fst (request env M c ctx msg opts W) = Inl (External (timeout_error bctx now x))
       | Inr _ \<Rightarrow> \<exists>e h. e \<in> set es \<and> E_Handler e = Some h \<and> T_Segments (E_Target e) = T_Segments (M_Target msg) \<and>
           handled_request (E_Target e) h msg (fst (request env M c ctx msg opts W)))"
  proof (intro exI [of _ bctx] exI [of _ m] exI [of _ w] conjI b q(1,2))
    show "case fst (n_request M bctx m w) of
         Inl x \<Rightarrow> \<exists>now. fst (request env M c ctx msg opts W) = Inl (External (timeout_error bctx now x))
       | Inr _ \<Rightarrow> \<exists>e h. e \<in> set es \<and> E_Handler e = Some h \<and> T_Segments (E_Target e) = T_Segments (M_Target msg) \<and>
           handled_request (E_Target e) h msg (fst (request env M c ctx msg opts W))"
    proof (cases "fst (n_request M bctx m w)")
      case (Inl x)
      from q(3) Inl show ?thesis by simp
    next
      case (Inr reply)
      from q(4) Inr obtain b :: subscription and h e where "e \<in> set es" "E_Handler e = Some h"
        "T_Segments (E_Target e) = T_Segments (M_Target msg)" "sb_target b = E_Target e"
        "handled_request (sb_target b) h msg (fst (request env M c ctx msg opts W))" by blast
      with Inr show ?thesis by auto
    qed
  qed
qed

section \<open>Witness\<close>

definition sample_service :: runtime where
  "sample_service = created sample_runtime_config sample_client"

lemma sample_service_start:
  "fst (start sample_nats sample_service ctx_background (init_world 0)) = None"
  "r_subs (fst (snd (start sample_nats sample_service ctx_background (init_world 0)))) = [0, 1]"
  by (simp_all add: sample_service_def sample_runtime_config_def sample_run_simps)

lemma sample_request_plain: "plain_metadata (M_Metadata sample_request)"
  by (simp add: plain_metadata_def sample_request_def mlit_def mrange_def DAList.update.rep_eq DAList.empty.rep_eq
      plain_key_def plain_text_def token_char_def is_digit_def byte_def MessageIDKey_def)

text \<open>The echo returns no metadata, so its result is plain.\<close>

lemma handled_by_echo: "handled_request tgt echo msg r \<Longrightarrow> \<exists>md. r = Inr \<lparr>M_Target = M_Target msg, M_Metadata = md, M_Payload = M_Payload msg\<rparr>"
  by (auto simp: handled_request_def reply_read_def echo_def endpoint_result_def plain_result_def plain_metadata_def)

theorem started_service_answers_witness:
  "\<exists>r V'. start sample_nats sample_service ctx_background (init_world 0) = (None, r, V') \<and>
    requests_routed sample_env (sample_wire sample_endpoint_sub) sample_nats ctx_background r ''demo.echo'' \<and>
    (\<exists>md. fst (request sample_env (sample_wire sample_endpoint_sub) sample_client ctx_background sample_request None
        (init_world 0)) = Inr \<lparr>M_Target = sample_route, M_Metadata = md, M_Payload = ''hi''\<rparr>)"
proof -
  let ?M = "sample_wire sample_endpoint_sub"
  obtain r V' where st: "start sample_nats sample_service ctx_background (init_world 0) = (None, r, V')" "r_subs r = [0, 1]"
    using sample_service_start by (metis prod.collapse)
  have c: "request_checks sample_env sample_client sample_request None = Inr (''demo.echo'', 30 * Second)"
    unfolding request_checks_Inr using sample_subjects(1)
    by (simp add: sample_request_def sample_client_def sample_target_fields merge_settings_def duration_setting_def mget0_def)
  have b: "sb_subscriber sample_endpoint_sub = None" "sb_endpoint sample_endpoint_sub = Some echo"
    "sb_subject sample_endpoint_sub = ''demo.echo''"
    by (simp_all add: sample_endpoint_sub_def)
  have "open_subscriptions r = [(sample_endpoint_sub, 0), (sample_subscriber_sub, 1)]"
    using start_subscribes [OF st(1)] st(2)
    by (simp add: open_subscriptions_def sample_service_def created_def sample_runtime_config_def core_subscriptions_def
        sample_endpoint_sub_def sample_subscriber_sub_def)
  then have routed: "requests_routed sample_env ?M sample_nats ctx_background r ''demo.echo''"
    using sample_wire_delivers(1) [OF b(1,2)] b(3) unfolding requests_routed_def request_delivered_def
    by (metis list.set_intros(1))
  obtain bctx m w where q: "case fst (n_request ?M bctx m w) of
       Inl x \<Rightarrow> \<exists>now. fst (request sample_env ?M sample_client ctx_background sample_request None (init_world 0)) =
         Inl (External (timeout_error bctx now x))
     | Inr _ \<Rightarrow> \<exists>e h. e \<in> set [sample_endpoint] \<and> E_Handler e = Some h \<and>
         T_Segments (E_Target e) = T_Segments (M_Target sample_request) \<and>
         handled_request (E_Target e) h sample_request
           (fst (request sample_env ?M sample_client ctx_background sample_request None (init_world 0)))"
    using started_service_answers [OF sample_env_laws(1) sample_runtime_made st(1) [unfolded sample_service_def] routed c
        sample_request_plain, where ctx = ctx_background and W = "init_world 0"] by (elim exE conjE) (rule that)
  obtain reply where "fst (n_request ?M bctx m w) = Inr reply" using sample_wire_answers [OF b(1,2)] .
  with q obtain e h where "e = sample_endpoint" "E_Handler e = Some h" "handled_request (E_Target e) h sample_request
      (fst (request sample_env ?M sample_client ctx_background sample_request None (init_world 0)))" by auto
  then have "handled_request sample_route echo sample_request
      (fst (request sample_env ?M sample_client ctx_background sample_request None (init_world 0)))"
    by (simp add: sample_endpoint_def)
  from handled_by_echo [OF this] st(1) routed show ?thesis by (auto simp: sample_request_def)
qed

end
