(* ===== verification/Client_Steps.thy ===== *)
theory Client_Steps
  imports Client
begin

text \<open>
  Operations of one client in several goroutines.  \<open>Request\<close>, \<open>Publish\<close> and \<open>Stream\<close> read
  the closed flag in \<open>connections\<close> and \<open>Close\<close> sets it, all under \<open>c.mu\<close>; the call on the
  connection comes after the lock is released, so a \<open>Close\<close> may come between.  A step is one
  access to shared state.
\<close>

section \<open>State\<close>

datatype op_kind = Uses | Closes

text \<open>
  Where an operation is: before \<open>Lock\<close>, with the lock, with the flag set before \<open>nc.Close\<close>,
  before the deferred \<open>Unlock\<close>, before its call on the connection, and returned.  The flag
  says whether it got the connection; without it, it returns \<open>ErrClosed\<close>.
\<close>

datatype op_pc = OpBegin | OpLocked | OpClosing | OpUnlock bool | OpCall | OpReturned bool

record client_op =
  op_kind :: op_kind
  op_pc :: op_pc
  op_calls :: nat

record client_sys =
  cy_client :: client
  cy_lock :: "nat option"
  cy_closes :: nat
  cy_ops :: "client_op list"

definition new_op :: "op_kind \<Rightarrow> client_op" where
  "new_op k = \<lparr>op_kind = k, op_pc = OpBegin, op_calls = 0\<rparr>"

definition init_client_sys :: "client \<Rightarrow> op_kind list \<Rightarrow> client_sys" where
  "init_client_sys c ks = \<lparr>cy_client = c, cy_lock = None, cy_closes = 0, cy_ops = map new_op ks\<rparr>"

section \<open>Steps\<close>

definition put_op :: "nat \<Rightarrow> client_op \<Rightarrow> client_sys \<Rightarrow> client_sys" where
  "put_op i o' s = s\<lparr>cy_ops := (cy_ops s)[i := o']\<rparr>"

text \<open>\<open>connections\<close>, and the call after it.\<close>

definition use_step :: "nat \<Rightarrow> client_op \<Rightarrow> client_sys \<Rightarrow> client_sys option" where
  "use_step i p s =
    (case op_pc p of
       OpBegin \<Rightarrow>
         if cy_lock s = None then Some (put_op i (p\<lparr>op_pc := OpLocked\<rparr>) (s\<lparr>cy_lock := Some i\<rparr>)) else None
     | OpLocked \<Rightarrow>
         Some (put_op i (p\<lparr>op_pc := OpUnlock (case connections (cy_client s) of Inl _ \<Rightarrow> False | Inr _ \<Rightarrow> True)\<rparr>) s)
     | OpUnlock got \<Rightarrow>
         Some (put_op i (p\<lparr>op_pc := (if got then OpCall else OpReturned False)\<rparr>) (s\<lparr>cy_lock := None\<rparr>))
     | OpCall \<Rightarrow> Some (put_op i (p\<lparr>op_pc := OpReturned True, op_calls := op_calls p + 1\<rparr>) s)
     | _ \<Rightarrow> None)"

text \<open>\<open>Close\<close>.\<close>

definition close_step :: "nat \<Rightarrow> client_op \<Rightarrow> client_sys \<Rightarrow> client_sys option" where
  "close_step i p s =
    (case op_pc p of
       OpBegin \<Rightarrow>
         if cy_lock s = None then Some (put_op i (p\<lparr>op_pc := OpLocked\<rparr>) (s\<lparr>cy_lock := Some i\<rparr>)) else None
     | OpLocked \<Rightarrow>
         if \<not> cl_closed (cy_client s)
         then Some (put_op i (p\<lparr>op_pc := OpClosing\<rparr>) (s\<lparr>cy_client := (cy_client s)\<lparr>cl_closed := True\<rparr>\<rparr>))
         else Some (put_op i (p\<lparr>op_pc := OpUnlock False\<rparr>) s)
     | OpClosing \<Rightarrow> Some (put_op i (p\<lparr>op_pc := OpUnlock False\<rparr>) (s\<lparr>cy_closes := cy_closes s + 1\<rparr>))
     | OpUnlock _ \<Rightarrow> Some (put_op i (p\<lparr>op_pc := OpReturned False\<rparr>) (s\<lparr>cy_lock := None\<rparr>))
     | _ \<Rightarrow> None)"

definition op_step :: "nat \<Rightarrow> client_op \<Rightarrow> client_sys \<Rightarrow> client_sys option" where
  "op_step i p s = (case op_kind p of Uses \<Rightarrow> use_step i p s | Closes \<Rightarrow> close_step i p s)"

text \<open>
  \<open>OpGivesUp i\<close>: operation \<open>i\<close> returns without its call, as \<open>Publish\<close> does when its
  context is done.
\<close>

datatype client_event = OpStep nat | OpGivesUp nat

fun client_fire :: "client_event \<Rightarrow> client_sys \<Rightarrow> client_sys option" where
  "client_fire (OpStep i) s = (if i < length (cy_ops s) then op_step i (cy_ops s ! i) s else None)"
| "client_fire (OpGivesUp i) s =
    (if i < length (cy_ops s) \<and> op_pc (cy_ops s ! i) = OpCall
     then Some (put_op i ((cy_ops s ! i)\<lparr>op_pc := OpReturned True\<rparr>) s) else None)"

fun client_run :: "client_event list \<Rightarrow> client_sys \<Rightarrow> client_sys option" where
  "client_run [] s = Some s"
| "client_run (e # es) s = (case client_fire e s of None \<Rightarrow> None | Some s' \<Rightarrow> client_run es s')"

definition client_initial :: "client_sys \<Rightarrow> bool" where
  "client_initial s \<longleftrightarrow> (\<exists>c ks. \<not> cl_closed c \<and> s = init_client_sys c ks)"

definition client_step :: "client_sys \<Rightarrow> client_sys \<Rightarrow> bool" where
  "client_step s t \<longleftrightarrow> (\<exists>e. client_fire e s = Some t)"

section \<open>Invariant\<close>

definition holds_lock :: "client_op \<Rightarrow> bool" where
  "holds_lock p \<longleftrightarrow> op_pc p \<in> {OpLocked, OpClosing, OpUnlock False, OpUnlock True}"

definition op_ok :: "bool \<Rightarrow> client_op \<Rightarrow> bool" where
  "op_ok shut p \<longleftrightarrow> op_calls p \<le> of_bool (op_pc p = OpReturned True) \<and>
    (op_kind p = Uses \<longrightarrow> op_pc p \<noteq> OpClosing) \<and>
    (op_kind p = Closes \<longrightarrow> op_pc p \<notin> {OpUnlock True, OpCall, OpReturned True}) \<and>
    (op_kind p = Closes \<and> op_pc p \<in> {OpUnlock False, OpReturned False} \<longrightarrow> shut)"

text \<open>
  The lock is held by the one operation that is past \<open>Lock\<close> and before \<open>Unlock\<close>, and
  \<open>nc.Close\<close> was called or is about to be, once, when the flag is set.
\<close>

definition client_ok :: "client_sys \<Rightarrow> bool" where
  "client_ok s \<longleftrightarrow>
    list_all (op_ok (0 < cy_closes s)) (cy_ops s) \<and>
    (\<forall>i < length (cy_ops s). holds_lock (cy_ops s ! i) = (cy_lock s = Some i)) \<and>
    (\<forall>i. cy_lock s = Some i \<longrightarrow> i < length (cy_ops s)) \<and>
    cy_closes s + length (filter (\<lambda>p. op_pc p = OpClosing) (cy_ops s)) = of_bool (cl_closed (cy_client s))"

lemma put_op_fields [simp]:
  "cy_client (put_op i p s) = cy_client s" "cy_lock (put_op i p s) = cy_lock s"
  "cy_closes (put_op i p s) = cy_closes s" "cy_ops (put_op i p s) = (cy_ops s)[i := p]"
  by (simp_all add: put_op_def)

text \<open>
  The moves of operation \<open>i\<close>: where it is before and after, with the lock, the flag and the
  number of closes added.
\<close>

abbreviation op_moves ::
    "op_kind \<Rightarrow> nat \<Rightarrow> (op_pc \<times> op_pc \<times> nat option \<times> nat option \<times> bool \<times> bool \<times> nat) set" where
  "op_moves k i \<equiv>
    {(OpBegin, OpLocked, None, Some i, b, b, 0) | b. True} \<union>
    (if k = Uses then {(OpLocked, OpUnlock (\<not> b), l, l, b, b, 0) | b l. True}
     else {(OpLocked, OpUnlock False, l, l, True, True, 0) | l. True} \<union> {(OpLocked, OpClosing, l, l, False, True, 0) | l. True}) \<union>
    {(OpClosing, OpUnlock False, l, l, b, b, 1) | b l. True} \<union>
    {(OpUnlock got, if got \<and> k = Uses then OpCall else OpReturned False, l, None, b, b, 0) | got b l. True} \<union>
    {(OpCall, OpReturned True, l, l, b, b, 0) | b l. True}"

text \<open>What a step does: one operation moves, and the shared fields change as its place says.\<close>

lemma client_step_cases:
  assumes "client_step s t"
  obtains i p q where "i < length (cy_ops s)" "p = cy_ops s ! i" "cy_ops t = (cy_ops s)[i := q]"
    "op_kind q = op_kind p"
    "(op_pc p, op_pc q, cy_lock s, cy_lock t, cl_closed (cy_client s), cl_closed (cy_client t), cy_closes t - cy_closes s) \<in>
      op_moves (op_kind p) i"
    "cy_closes s \<le> cy_closes t" "op_calls q \<le> op_calls p + of_bool (op_pc p = OpCall)"
proof -
  from assms obtain e where e: "client_fire e s = Some t" by (auto simp: client_step_def)
  show ?thesis
  proof (cases e)
    case (OpStep i)
    with e have i: "i < length (cy_ops s)" and st: "op_step i (cy_ops s ! i) s = Some t"
      by (simp_all split: if_splits)
    let ?p = "cy_ops s ! i"
    show ?thesis
    proof (cases "op_kind ?p")
      case Uses
      with st show ?thesis
        by (cases "op_pc ?p"; intro that [OF i refl, of "cy_ops t ! i"])
          (auto simp: op_step_def use_step_def connections_def i split: if_splits)
    next
      case Closes
      with st show ?thesis
        by (cases "op_pc ?p"; intro that [OF i refl, of "cy_ops t ! i"])
          (auto simp: op_step_def close_step_def i split: if_splits)
    qed
  next
    case (OpGivesUp i)
    with e have i: "i < length (cy_ops s)" and st: "op_pc (cy_ops s ! i) = OpCall"
      "t = put_op i ((cy_ops s ! i)\<lparr>op_pc := OpReturned True\<rparr>) s" by (simp_all split: if_splits)
    then show ?thesis by (intro that [OF i refl, of "cy_ops t ! i"]) auto
  qed
qed

lemma op_ok_mono: "op_ok b p \<Longrightarrow> (b \<Longrightarrow> b') \<Longrightarrow> op_ok b' p"
  by (auto simp: op_ok_def)

lemma client_ok_step:
  assumes "client_ok s" and "client_step s t"
  shows "client_ok t"
  using assms(2)
proof (cases rule: client_step_cases)
  case (1 i p q)
  let ?b = "cl_closed (cy_client s)" and ?b' = "cl_closed (cy_client t)" and ?P = "\<lambda>p. op_pc p = OpClosing"
  have ok: "\<forall>r \<in> set (cy_ops s). op_ok (0 < cy_closes s) r" and locked: "holds_lock p = (cy_lock s = Some i)"
    and others: "\<And>j. j < length (cy_ops s) \<Longrightarrow> holds_lock (cy_ops s ! j) = (cy_lock s = Some j)"
    and holder: "\<And>j. cy_lock s = Some j \<Longrightarrow> j < length (cy_ops s)"
    and closes: "cy_closes s + length (filter ?P (cy_ops s)) = of_bool ?b"
    using assms(1) 1(1,2) by (auto simp: client_ok_def list_all_iff)
  have p: "op_ok (0 < cy_closes s) p" using ok 1(1,2) by simp
  have "filter ?P (cy_ops s) = []" if "op_pc p = OpLocked"
  proof (rule ccontr)
    assume "filter ?P (cy_ops s) \<noteq> []"
    then obtain j where j: "j < length (cy_ops s)" "op_pc (cy_ops s ! j) = OpClosing"
      by (auto simp: filter_empty_conv in_set_conv_nth)
    with others [OF j(1)] locked that 1(2) show False by (auto simp: holds_lock_def)
  qed
  with closes have first: "op_pc p = OpLocked \<Longrightarrow> ?b \<Longrightarrow> 0 < cy_closes s" by auto
  have shut: "0 < cy_closes s \<Longrightarrow> 0 < cy_closes t" using 1(6) by simp
  have q: "op_ok (0 < cy_closes t) q"
    using p 1(4-7) first shut by (cases "op_pc p"; cases "op_kind p") (auto simp: op_ok_def split: if_splits)
  have "list_all (op_ok (0 < cy_closes t)) (cy_ops t)"
    using ok q op_ok_mono [OF _ shut] set_update_subset_insert [of "cy_ops s" i q] unfolding 1(3) list_all_iff by blast
  moreover have lock: "holds_lock q = (cy_lock t = Some i)"
    "j \<noteq> i \<Longrightarrow> (cy_lock t = Some j) = (cy_lock s = Some j)" for j
    using locked 1(5) by (cases "op_pc p"; auto simp: holds_lock_def split: if_splits)+
  then have "\<forall>j < length (cy_ops t). holds_lock (cy_ops t ! j) = (cy_lock t = Some j)"
    using others 1(1) unfolding 1(3) by (simp add: nth_list_update)
  moreover have "j < length (cy_ops t)" if "cy_lock t = Some j" for j
    using that holder lock(2) [of j] 1(1) unfolding 1(3) by (cases "j = i") auto
  moreover have "cy_closes t + length (filter ?P (cy_ops t)) = of_bool ?b'"
  proof -
    have "length (filter ?P (cy_ops t)) + of_bool (?P p) = length (filter ?P (cy_ops s)) + of_bool (?P q)"
      unfolding 1(2,3) by (rule length_filter_update [OF 1(1)])
    with closes 1(5,6) show ?thesis by (auto split: if_splits)
  qed
  ultimately show ?thesis by (simp add: client_ok_def)
qed

interpretation client_mutex: transition_invariant client_initial client_step client_ok
proof
  fix s
  assume "client_initial s"
  then show "client_ok s"
    by (auto simp: client_initial_def init_client_sys_def client_ok_def list_all_iff op_ok_def new_op_def holds_lock_def
        filter_empty_conv)
qed (rule client_ok_step)

text \<open>An operation that found the flag set, or will find it.\<close>

definition late_op :: "nat \<Rightarrow> client_sys \<Rightarrow> bool" where
  "late_op i s \<longleftrightarrow> cl_closed (cy_client s) \<and> i < length (cy_ops s) \<and> op_calls (cy_ops s ! i) = 0 \<and>
    op_pc (cy_ops s ! i) \<in> {OpBegin, OpLocked, OpUnlock False, OpReturned False}"

lemma late_op_step:
  assumes "late_op i s" and "client_step s t"
  shows "late_op i t"
  using assms(2)
proof (cases rule: client_step_cases)
  case (1 j p q)
  have shut: "cl_closed (cy_client t)" using assms(1) 1(5) by (auto simp: late_op_def split: if_splits)
  show ?thesis
  proof (cases "j = i")
    case True
    with assms(1) 1(1-5,7) shut show ?thesis
      by (cases "op_pc p") (auto simp: late_op_def split: if_splits)
  next
    case False
    with assms(1) 1(1,3) shut show ?thesis by (simp add: late_op_def)
  qed
qed

interpretation refused_op: transition_invariant "late_op i" client_step "late_op i" for i
  by unfold_locales (auto intro: late_op_step)

lemma client_ok_closed: "client_ok s \<Longrightarrow> 0 < cy_closes s \<Longrightarrow> cl_closed (cy_client s) \<and> cy_closes s = 1"
  by (cases "cl_closed (cy_client s)") (auto simp: client_ok_def)

section \<open>Properties\<close>

text \<open>C13: once a \<open>Close\<close> has returned, the connection was closed exactly once and stays so,
  whatever other operations do, and an operation that has not read the flag yet never calls
  the connection: it ends with \<open>ErrClosed\<close>, or without doing anything when it is a \<open>Close\<close>.\<close>

theorem closed_client_refuses:
  assumes "reach client_initial client_step s" and "p \<in> set (cy_ops s)" and "op_kind p = Closes"
    and "op_pc p = OpReturned got" and "client_step\<^sup>*\<^sup>* s t"
  shows "cl_closed (cy_client t) \<and> (\<not> got) \<and> cy_closes s = 1 \<and> cy_closes t = 1 \<and>
    (\<forall>i < length (cy_ops s). op_pc (cy_ops s ! i) \<in> {OpBegin, OpLocked} \<longrightarrow>
      op_calls (cy_ops t ! i) = 0 \<and> op_pc (cy_ops t ! i) \<in> {OpBegin, OpLocked, OpUnlock False, OpReturned False})"
proof -
  note inv = client_mutex.reach_inv [OF assms(1)]
  have p: "op_ok (0 < cy_closes s) p" using inv assms(2) by (simp add: client_ok_def list_all_iff)
  have got: "\<not> got" "0 < cy_closes s" using p assms(3,4) by (cases got; simp add: op_ok_def)+
  have shut: "cl_closed (cy_client s)" "cy_closes s = 1"
    using client_ok_closed [OF inv got(2)] by simp_all
  have steps: "cy_closes s \<le> cy_closes t" using assms(5)
    by (induction rule: rtranclp.induct) (auto elim!: client_step_cases)
  have "client_ok t" by (rule client_mutex.steps_inv [OF assms(5) inv])
  from client_ok_closed [OF this] steps shut(2) have t: "cl_closed (cy_client t)" "cy_closes t = 1" by simp_all
  have "late_op i t" if i: "i < length (cy_ops s)" "op_pc (cy_ops s ! i) \<in> {OpBegin, OpLocked}" for i
  proof (rule refused_op.steps_inv [OF assms(5)])
    have "op_ok (0 < cy_closes s) (cy_ops s ! i)" using inv i(1) by (simp add: client_ok_def list_all_iff)
    with i shut(1) show "late_op i s" by (auto simp: late_op_def op_ok_def)
  qed
  with t shut got show ?thesis by (auto simp: late_op_def)
qed

section \<open>Progress\<close>

fun op_work :: "op_pc \<Rightarrow> nat" where
  "op_work OpBegin = 5"
| "op_work OpLocked = 4"
| "op_work OpClosing = 3"
| "op_work (OpUnlock _) = 2"
| "op_work OpCall = 1"
| "op_work (OpReturned _) = 0"

definition client_work :: "client_sys \<Rightarrow> nat" where
  "client_work s = sum_list (map (\<lambda>p. op_work (op_pc p)) (cy_ops s))"

definition all_returned :: "client_sys \<Rightarrow> bool" where
  "all_returned s \<longleftrightarrow> list_all (\<lambda>p. op_pc p \<in> {OpReturned False, OpReturned True}) (cy_ops s)"

lemma client_step_work: "client_step s t \<Longrightarrow> client_work t < client_work s"
proof (elim client_step_cases)
  fix i p q
  assume 1: "i < length (cy_ops s)" "p = cy_ops s ! i" "cy_ops t = (cy_ops s)[i := q]"
    and "(op_pc p, op_pc q, cy_lock s, cy_lock t, cl_closed (cy_client s), cl_closed (cy_client t), cy_closes t - cy_closes s) \<in>
      op_moves (op_kind p) i"
  then have "op_work (op_pc q) < op_work (op_pc p)" by (auto split: if_splits)
  with 1 show ?thesis
    unfolding client_work_def 1(3) map_update by (intro sum_list_less_update) simp_all
qed

lemma client_fire_step: "client_fire e s = Some t \<Longrightarrow> client_step s t"
  by (auto simp: client_step_def)

lemma client_run_steps:
  "client_run es s = Some t \<Longrightarrow> client_step\<^sup>*\<^sup>* s t \<and> length es + client_work t \<le> client_work s"
proof (induction es arbitrary: s)
  case (Cons e es)
  then obtain u where u: "client_fire e s = Some u" "client_run es u = Some t" by (auto split: option.splits)
  from Cons.IH [OF u(2)] client_step_work [OF client_fire_step [OF u(1)]] client_fire_step [OF u(1)]
  show ?case by (auto intro: converse_rtranclp_into_rtranclp)
qed simp

lemma client_progress:
  assumes "client_ok s" and "\<And>e. client_fire e s = None"
  shows "all_returned s"
proof (rule ccontr)
  assume "\<not> all_returned s"
  then obtain i where i: "i < length (cy_ops s)" "op_pc (cy_ops s ! i) \<notin> {OpReturned False, OpReturned True}"
    by (auto simp: all_returned_def list_all_length)
  obtain j where j: "j < length (cy_ops s)" "op_pc (cy_ops s ! j) \<notin> {OpReturned False, OpReturned True}"
    "op_pc (cy_ops s ! j) = OpBegin \<Longrightarrow> cy_lock s = None"
  proof (cases "cy_lock s")
    case None
    with i that show thesis by blast
  next
    case (Some k)
    with assms(1) have "k < length (cy_ops s)" "holds_lock (cy_ops s ! k)" by (auto simp: client_ok_def)
    then show thesis by (intro that [of k]) (auto simp: holds_lock_def)
  qed
  have "op_ok (0 < cy_closes s) (cy_ops s ! j)" using assms(1) j(1) by (simp add: client_ok_def list_all_iff)
  then have "client_fire (OpStep j) s \<noteq> None"
    using j by (cases "op_kind (cy_ops s ! j)"; cases "op_pc (cy_ops s ! j)")
      (auto simp: op_step_def use_step_def close_step_def op_ok_def)
  with assms(2) [of "OpStep j"] show False by simp
qed

text \<open>C32: operations of a client do not block one another: with \<open>n\<close> of them there are at most
  \<open>5 * n\<close> steps, and when no step is possible every one has returned.\<close>

theorem client_operations_end:
  assumes "client_initial s" and "client_run es s = Some t"
  shows "length es \<le> 5 * length (cy_ops s) \<and> (all_returned t \<or> (\<exists>e u. client_fire e t = Some u))"
proof -
  have "client_work s = 5 * length (cy_ops s)"
    using assms(1) by (auto simp: client_initial_def init_client_sys_def client_work_def new_op_def o_def sum_list_triv)
  moreover have "client_ok t"
    using client_mutex.steps_inv client_run_steps [OF assms(2)] client_mutex.reach_inv [OF reach_init [of client_initial, OF assms(1)]]
    by blast
  ultimately show ?thesis
    using client_run_steps [OF assms(2)] client_progress [of t] by (metis add_leE not_None_eq)
qed

section \<open>Witnesses\<close>

definition sample_ops :: client_sys where
  "sample_ops = init_client_sys sample_client [Closes, Uses]"

lemma sample_ops_initial: "client_initial sample_ops"
  unfolding client_initial_def sample_ops_def by (intro exI [of _ sample_client] exI [of _ "[Closes, Uses]"]) (simp add: sample_client_def)

lemmas client_run_eval = op_step_def use_step_def close_step_def connections_def put_op_def sample_ops_def init_client_sys_def
  new_op_def sample_client_def all_returned_def

text \<open>The \<open>Close\<close> runs first, and then the \<open>Request\<close>.\<close>

definition sample_closed :: client_sys where
  "sample_closed = the (client_run [OpStep 0, OpStep 0, OpStep 0, OpStep 0] sample_ops)"

definition sample_refused :: client_sys where
  "sample_refused = the (client_run [OpStep 1, OpStep 1, OpStep 1] sample_closed)"

lemma sample_closed_run:
  "client_run [OpStep 0, OpStep 0, OpStep 0, OpStep 0] sample_ops = Some sample_closed"
  "cy_ops sample_closed = [\<lparr>op_kind = Closes, op_pc = OpReturned False, op_calls = 0\<rparr>, new_op Uses]"
  by (simp_all add: sample_closed_def client_run_eval)

lemma sample_refused_run:
  "client_run [OpStep 1, OpStep 1, OpStep 1] sample_closed = Some sample_refused"
  "map op_pc (cy_ops sample_refused) = [OpReturned False, OpReturned False]"
  by (simp_all add: sample_refused_def sample_closed_def client_run_eval)

theorem closed_client_refuses_witness:
  "\<exists>s t. reach client_initial client_step s \<and> client_step\<^sup>*\<^sup>* s t \<and> all_returned t \<and>
    op_pc (cy_ops s ! 1) = OpBegin \<and> cy_closes t = 1 \<and> op_calls (cy_ops t ! 1) = 0"
proof -
  have r: "reach client_initial client_step sample_closed"
    using client_run_steps [OF sample_closed_run(1)] reach_init [of client_initial, OF sample_ops_initial]
    by (metis reach_steps)
  have st: "client_step\<^sup>*\<^sup>* sample_closed sample_refused" using client_run_steps [OF sample_refused_run(1)] by simp
  have p: "\<lparr>op_kind = Closes, op_pc = OpReturned False, op_calls = 0\<rparr> \<in> set (cy_ops sample_closed)"
    by (simp add: sample_closed_run(2))
  have pcs: "cy_ops sample_closed ! 1 = new_op Uses" "1 < length (cy_ops sample_closed)"
    by (simp_all add: sample_closed_run(2))
  have "all_returned sample_refused"
    using sample_refused_run(2) by (auto simp: all_returned_def)
  with closed_client_refuses [OF r p _ _ st, of False] r st pcs show ?thesis
    by (intro exI [of _ sample_closed] exI [of _ sample_refused]) (simp add: new_op_def)
qed

theorem client_operations_end_witness:
  "\<exists>es t. client_run es sample_ops = Some t \<and> 4 \<le> length es \<and> length es \<le> 10 \<and> (\<exists>e u. client_fire e t = Some u)"
proof -
  have "\<not> all_returned sample_closed" by (simp add: all_returned_def sample_closed_run(2) new_op_def)
  with client_operations_end [OF sample_ops_initial sample_closed_run(1)] sample_closed_run(1)
  show ?thesis
    by (intro exI [of _ "[OpStep 0, OpStep 0, OpStep 0, OpStep 0]"] exI [of _ sample_closed])
      (simp add: sample_ops_def init_client_sys_def)
qed

end
