(* ===== verification/Boot_Check.thy ===== *)
theory Boot_Check
  imports Lifecycle
begin

text \<open>
  The boot check of \<open>Start\<close> (\<open>checkEndpointStreams\<close> in \<open>jetstream.go\<close>) against its
  specification: the first endpoint's subject whose lookup says more than \<open>not found\<close> decides.
\<close>

section \<open>Specification\<close>

text \<open>\<open>look\<close> is what the server answers for a subject: a stream's name or an error.\<close>

definition endpoints_of :: "subscription list \<Rightarrow> subscription list" where
  "endpoints_of bs = filter (\<lambda>b. sb_endpoint b \<noteq> None) bs"

definition uncovered :: "(string \<Rightarrow> exterr + string) \<Rightarrow> subscription \<Rightarrow> bool" where
  "uncovered look b = (case look (sb_subject b) of Inl e \<Rightarrow> errors_is e SStreamNotFound | Inr _ \<Rightarrow> False)"

definition no_jetstream :: "exterr \<Rightarrow> bool" where
  "no_jetstream e \<longleftrightarrow> (\<exists>s \<in> {SNoResponders, SJetStreamNotEnabled, SJetStreamNotEnabledForAccount}. errors_is e s)"

definition boot_verdict :: "(string \<Rightarrow> exterr + string) \<Rightarrow> subscription \<Rightarrow> goerr option" where
  "boot_verdict look b =
    (case look (sb_subject b) of
       Inr name \<Rightarrow> Some (ErrStreamCoversRoute (sb_subject b) name)
     | Inl e \<Rightarrow> if no_jetstream e then None else Some (External e))"

definition boot_check :: "(string \<Rightarrow> exterr + string) \<Rightarrow> subscription list \<Rightarrow> goerr option" where
  "boot_check look bs =
    (case dropWhile (uncovered look) (endpoints_of bs) of [] \<Rightarrow> None | b # _ \<Rightarrow> boot_verdict look b)"

definition boot_lookups :: "(string \<Rightarrow> exterr + string) \<Rightarrow> subscription list \<Rightarrow> call list" where
  "boot_lookups look bs = map (\<lambda>b. CStreamBySubject (sb_subject b))
    (takeWhile (uncovered look) (endpoints_of bs) @ take 1 (dropWhile (uncovered look) (endpoints_of bs)))"

section \<open>Lemmas\<close>

lemma check_endpoint_streams_spec:
  assumes "\<forall>s w. fst (n_stream_by_subject N ctx s w) = look s"
  shows "fst (check_endpoint_streams N ctx bs W) = boot_check look bs \<and>
    added W (snd (check_endpoint_streams N ctx bs W)) (boot_lookups look bs)"
proof (induction bs arbitrary: W)
  case Nil
  then show ?case by (simp add: boot_check_def boot_lookups_def endpoints_of_def added_refl)
next
  case (Cons b bs)
  show ?case
  proof (cases "sb_endpoint b")
    case None
    with Cons.IH show ?thesis by (simp add: boot_check_def boot_lookups_def endpoints_of_def)
  next
    case (Some h)
    obtain r W1 where p: "perform (\<lambda>_. CStreamBySubject (sb_subject b)) (n_stream_by_subject N ctx (sb_subject b)) W
        = (r, W1)" by force
    have r: "look (sb_subject b) = r"
      using p assms [rule_format, of "sb_subject b" "w_ext W"] by (auto simp: perform_def split: prod.splits)
    note a = added_perform [OF p]
    show ?thesis
    proof (cases r)
      case (Inr name)
      with Some p a r show ?thesis
        by (simp add: boot_check_def boot_lookups_def endpoints_of_def uncovered_def boot_verdict_def)
    next
      case (Inl e)
      show ?thesis
      proof (cases "errors_is e SStreamNotFound")
        case True
        with Some p Inl r have u: "uncovered look b" by (simp add: uncovered_def)
        then have spec: "boot_check look (b # bs) = boot_check look bs"
          "boot_lookups look (b # bs) = CStreamBySubject (sb_subject b) # boot_lookups look bs"
          using Some by (simp_all add: boot_check_def boot_lookups_def endpoints_of_def)
        from Cons.IH [of W1] added_trans [OF a, of _ "boot_lookups look bs"] Some p Inl True
        show ?thesis unfolding spec by simp
      next
        case False
        with Some p a Inl r show ?thesis
          by (auto simp: boot_check_def boot_lookups_def endpoints_of_def uncovered_def boot_verdict_def no_jetstream_def)
      qed
    qed
  qed
qed

text \<open>No other part of \<open>Start\<close> reports a covered route.\<close>

fun covers_route :: "goerr \<Rightarrow> bool" where
  "covers_route (ErrStreamCoversRoute _ _) = True"
| "covers_route _ = False"

lemma consume_not_covered: "consume N ctx ix b s g W = (Inl e, W') \<Longrightarrow> \<not> covers_route e"
  by (auto simp: consume_def open_consumer_def split: prod.splits sum.splits option.splits)

lemma open_loop_not_covered:
  assumes "open_loop N ctx g ix bs W = ((hs, js, Some e), W')"
  shows "\<not> covers_route e"
  using assms
proof (induction bs arbitrary: ix W hs js)
  case (Cons b bs)
  show ?case
  proof (cases "sb_js b")
    case None
    obtain r W1 where "subscribe N b W = (r, W1)" by force
    with Cons None show ?thesis by (cases r) (auto split: prod.splits)
  next
    case (Some s)
    obtain r W1 where "consume N ctx ix b s g W = (r, W1)" by force
    with Cons Some consume_not_covered [of N ctx ix b s g W] show ?thesis by (cases r) (auto split: prod.splits)
  qed
qed simp

section \<open>Property\<close>

text \<open>C24: what the boot check decides, when \<open>Start\<close> is called on a created runtime with an open
  client and a live context, and the server answers a lookup by the subject alone.  \<open>Start\<close>
  looks up the subjects of the endpoints in order, up to the first whose lookup says more than
  \<open>not found\<close>, and no subscriber's.  If that is a stream that covers the route, or an error
  other than that there is no JetStream, \<open>Start\<close> fails with it and has opened nothing;
  otherwise it goes on to open its receivers and to flush, it returns the first error of these,
  which is never a covered route, and when there is none it keeps the receivers it opened, one
  for each subscription.\<close>

theorem boot_check_decides:
  assumes "\<forall>s w. fst (n_stream_by_subject N ctx s w) = look s"
    and "r_state r = StateCreated" and "ctx_err ctx (fst (clock N W)) = None" and "\<not> cl_closed (r_client r)"
    and "start N r ctx W = (e, r', W')"
  shows "\<exists>cs. added W W' (boot_lookups look (rc_subscriptions (r_config r)) @ cs) \<and>
    (case boot_check look (rc_subscriptions (r_config r)) of
       Some x \<Rightarrow> e = Some x \<and> cs = [] \<and> r_state r' = StateCreated \<and> \<not> r_accepting r'
     | None \<Rightarrow> pred_option (\<lambda>x. \<not> covers_route x) e \<and>
         (\<exists>W2 hs js err W3. added W W2 (boot_lookups look (rc_subscriptions (r_config r))) \<and>
           open_loop N ctx (Suc (r_handlerCtx r)) 0 (rc_subscriptions (r_config r)) W2 = ((hs, js, err), W3) \<and>
           e = (if err = None then map_option External (fst (flush N ctx W3)) else err) \<and>
           (e = None \<longrightarrow> r_subs r' = hs \<and> r_consumers r' = js \<and> r_state r' = StateRunning \<and>
             length hs + length js = length (rc_subscriptions (r_config r)))))"
proof -
  let ?bs = "rc_subscriptions (r_config r)"
  obtain now W1 where k: "clock N W = (now, W1)" by force
  have c: "check_startable N r ctx W = (None, W1)" using assms(2,3) k by (simp add: check_startable_def)
  note a1 = check_startable_added [OF c]
  obtain x W2 where b: "check_endpoint_streams N ctx ?bs W1 = (x, W2)" by force
  have x: "x = boot_check look ?bs" and a2: "added W W2 (boot_lookups look ?bs)"
    using check_endpoint_streams_spec [OF assms(1), of ?bs W1] b added_trans [OF a1] by auto
  show ?thesis
  proof (cases x)
    case (Some y)
    with assms(2,4,5) c b have "e = Some y" "r_state r' = StateCreated" "\<not> r_accepting r'" "W' = W2"
      by (auto simp: start_def connections_def open_receivers_def abort_start_def close_handles_def)
    with a2 Some x show ?thesis by (intro exI [of _ "[]"]) simp
  next
    case None
    obtain hs js err W3 where o: "open_loop N ctx (Suc (r_handlerCtx r)) 0 ?bs W2 = ((hs, js, err), W3)"
      by (metis prod.exhaust)
    obtain ds where ds: "added W2 W3 ds" using open_loop_added [OF o] by blast
    obtain f W4 where f: "flush N ctx W3 = (f, W4)" by force
    have close: "added V (close_handles N hs js V) (map CUnsubscribe hs @ map (\<lambda>c. CCcStop (jc_cc c)) js)" for V
      by (simp add: added_def close_handles_log)
    note a3 = added_trans [OF a2 ds] and af = flush_added [OF f]
    have calls: "\<exists>cs. added W W' (boot_lookups look ?bs @ cs)"
      using assms(4,5) c b None o f added_trans [OF a3 close] added_trans [OF a3 af]
        added_trans [OF added_trans [OF a3 af] close]
      by (cases err; cases f)
        (auto simp: start_def connections_def open_receivers_def abort_start_def Let_def split: if_splits)
    have free: "pred_option (\<lambda>x. \<not> covers_route x) e"
      using assms(4,5) c b None o f open_loop_not_covered [of N ctx "Suc (r_handlerCtx r)" 0 ?bs W2 hs js _ W3]
      by (cases err; cases f)
        (auto simp: start_def connections_def open_receivers_def abort_start_def Let_def split: if_splits)
    have res: "e = (if err = None then map_option External (fst (flush N ctx W3)) else err)"
      "e = None \<longrightarrow> r_subs r' = hs \<and> r_consumers r' = js \<and> r_state r' = StateRunning"
      using assms(4,5) c b None o f
      by (cases err; cases f;
          auto simp: start_def connections_def open_receivers_def abort_start_def Let_def split: if_splits)+
    have "err = None \<Longrightarrow> length hs + length js = length ?bs"
      using open_loop_complete [of N ctx "Suc (r_handlerCtx r)" 0 ?bs W2 hs js W3] o by auto
    with res have fin: "e = None \<longrightarrow> r_subs r' = hs \<and> r_consumers r' = js \<and> r_state r' = StateRunning \<and>
        length hs + length js = length ?bs" by (auto split: if_splits)
    have ex: "\<exists>W2 hs js err W3. added W W2 (boot_lookups look ?bs) \<and>
        open_loop N ctx (Suc (r_handlerCtx r)) 0 ?bs W2 = ((hs, js, err), W3) \<and>
        e = (if err = None then map_option External (fst (flush N ctx W3)) else err) \<and>
        (e = None \<longrightarrow> r_subs r' = hs \<and> r_consumers r' = js \<and> r_state r' = StateRunning \<and>
          length hs + length js = length ?bs)"
      using a2 o res(1) fin
      by (intro exI [of _ W2] exI [of _ hs] exI [of _ js] exI [of _ err] exI [of _ W3] conjI)
    obtain cs where cs: "added W W' (boot_lookups look ?bs @ cs)" using calls by blast
    show ?thesis unfolding x [symmetric] None option.case
      by (rule exI [of _ cs]) (intro conjI cs free ex)
  qed
qed

theorem boot_check_decides_witness:
  "\<exists>r' W'. start sample_covering sample_life ctx_background (init_world 0)
      = (Some (ErrStreamCoversRoute ''demo.echo'' ''ORDERS''), r', W') \<and>
    w_log W' = [CStreamBySubject ''demo.echo''] \<and> \<not> r_accepting r'"
proof -
  let ?look = "\<lambda>s. Inr ''ORDERS'' :: exterr + string"
  have look: "\<forall>s w. fst (n_stream_by_subject sample_covering ctx_background s w) = ?look s"
    by (simp add: sample_covering_def)
  have r: "r_state sample_life = StateCreated" "ctx_err ctx_background (fst (clock sample_covering (init_world 0))) = None"
    "\<not> cl_closed (r_client sample_life)"
    "rc_subscriptions (r_config sample_life) = [sample_endpoint_sub, sample_js_sub]"
    by (simp_all add: sample_life_def created_def ctx_err_def ctx_background_def sample_client_def)
  obtain e r' W' where st: "start sample_covering sample_life ctx_background (init_world 0) = (e, r', W')"
    by (metis prod.exhaust)
  have spec: "boot_check ?look (rc_subscriptions (r_config sample_life)) = Some (ErrStreamCoversRoute ''demo.echo'' ''ORDERS'')"
    "boot_lookups ?look (rc_subscriptions (r_config sample_life)) = [CStreamBySubject ''demo.echo'']"
    by (simp_all add: r(4) boot_check_def boot_lookups_def endpoints_of_def uncovered_def boot_verdict_def
        sample_endpoint_sub_def sample_js_sub_def sample_subscriber_sub_def)
  from boot_check_decides [OF look r(1-3) st] st show ?thesis
    unfolding spec by (auto simp: added_def init_world_def)
qed

end
