(* ===== verification/Waiting.thy ===== *)
theory Waiting
  imports Lifecycle
begin

text \<open>
  The waits: for subscriptions to drain (\<open>runtime_receivers.go\<close>), for consumers to
  close at the end of an abandoned drain (\<open>consumers.go\<close>, \<open>runtime_jetstream.go\<close>), and
  the loop of \<open>watchMissing\<close>.  When an event of \<open>nats.go\<close> happens is a parameter; a wait
  is the time at which it returns.
\<close>

section \<open>Definitions\<close>

text \<open>
  What \<open>waitSubscriptionsDrained\<close> sees of a subscription: from when on \<open>IsValid\<close> is
  false, and when its channel gets \<open>SubscriptionClosed\<close>; \<open>None\<close> is never.
\<close>

record drained =
  dr_invalid :: "gotime option"
  dr_closed :: "gotime option"

definition by_time :: "gotime \<Rightarrow> gotime option \<Rightarrow> bool" where
  "by_time t x = (case x of None \<Rightarrow> False | Some u \<Rightarrow> u \<le> t)"

text \<open>
  The loop at time \<open>t\<close>: \<open>nc\<close> is when the connection's channel gets \<open>CLOSED\<close>.  The result
  is \<open>None\<close> when it never returns.  Of two channels that are ready the code may take either;
  the one taken here is the subscription's, which makes no difference to the time.
\<close>

fun wait_subscriptions_drained :: "gotime option \<Rightarrow> drained list \<Rightarrow> gotime \<Rightarrow> gotime option" where
  "wait_subscriptions_drained nc [] t = Some t"
| "wait_subscriptions_drained nc (s # ss) t =
    (if by_time t (dr_invalid s) then wait_subscriptions_drained nc ss t
     else case (dr_closed s, nc) of
         (None, None) \<Rightarrow> None
       | (Some u, None) \<Rightarrow> wait_subscriptions_drained nc ss (max t u)
       | (None, Some v) \<Rightarrow> Some (max t v)
       | (Some u, Some v) \<Rightarrow>
           if max t u \<le> max t v then wait_subscriptions_drained nc ss (max t u) else Some (max t v))"

text \<open>The loop of \<open>waitConsumersClosed\<close>, whose timer fires at \<open>d\<close>.\<close>

fun wait_closed :: "gotime \<Rightarrow> gotime option list \<Rightarrow> gotime \<Rightarrow> gotime" where
  "wait_closed d [] t = t"
| "wait_closed d (c # cs) t =
    (case c of
       Some u \<Rightarrow> if max t u \<le> max t d then wait_closed d cs (max t u) else max t d
     | None \<Rightarrow> max t d)"

definition wait_consumers_closed :: "gotime option list \<Rightarrow> duration \<Rightarrow> gotime \<Rightarrow> gotime" where
  "wait_consumers_closed cs budget t = wait_closed (time_add t budget) cs t"

text \<open>\<open>abandonDrain\<close>, and when it is over: its wait begins at \<open>t\<close>, after the naks.\<close>

definition abandon_drain ::
    "'w nats \<Rightarrow> (nat \<Rightarrow> js_consumer \<times> jsmsg) \<Rightarrow> gotime option list \<Rightarrow> runtime \<Rightarrow> deliveries \<Rightarrow> gotime
      \<Rightarrow> 'w world \<Rightarrow> ((log_record list \<times> runtime \<times> deliveries) res \<times> gotime) \<times> 'w world" where
  "abandon_drain N info closes r D t W =
    (let r1 = r\<lparr>r_accepting := False\<rparr> in
     case abandon_pending N info D W of
       (Inl e, W1) \<Rightarrow> ((Inl e, t), W1)
     | (Inr (logs, D1), W1) \<Rightarrow> ((Inr (logs, r1, D1), wait_consumers_closed closes flushBudget t), W1))"

text \<open>
  \<open>watchMissing\<close>: what happens to it, in order.  A tick visits the consumers that
  \<open>Range\<close> finds; \<open>Reported\<close> is \<open>consumeError\<close>, which \<open>nats.go\<close> may call at any time.
\<close>

datatype watch_event = Tick "js_consumer list" | CtxDone | Reported js_consumer exterr

fun watch_missing ::
    "'w nats \<Rightarrow> client \<Rightarrow> gocontext \<Rightarrow> watch_event list \<Rightarrow> js_consumer list \<Rightarrow> 'w world
      \<Rightarrow> (js_consumer list \<times> log_record list) \<times> 'w world" where
  "watch_missing N cl ctx [] missing W = ((missing, []), W)"
| "watch_missing N cl ctx (CtxDone # es) missing W = ((missing, []), W)"
| "watch_missing N cl ctx (Tick cs # es) missing W =
    (let ((m1, l1), W1) = watch_tick N cl ctx cs missing W;
         ((m2, l2), W2) = watch_missing N cl ctx es m1 W1
     in ((m2, l1 @ l2), W2))"
| "watch_missing N cl ctx (Reported c e # es) missing W =
    (let (m1, l) = consume_error c e missing;
         ((m2, l2), W2) = watch_missing N cl ctx es m1 W
     in ((m2, l # l2), W2))"

section \<open>Lemmas\<close>

lemma by_time_mono: "by_time t x \<Longrightarrow> t \<le> u \<Longrightarrow> by_time u x"
  by (auto simp: by_time_def split: option.splits)

text \<open>Once the connection has closed, the rest of the wait takes no time, whatever is taken.\<close>

lemma wait_drained_now: "v \<le> t \<Longrightarrow> wait_subscriptions_drained (Some v) ss t = Some t"
  by (induction ss) (auto simp: max_def split: option.splits)

lemma wait_drained_result:
  "wait_subscriptions_drained nc ss t = Some r \<Longrightarrow> t \<le> r \<and>
    (by_time r nc \<or> (\<forall>s \<in> set ss. by_time r (dr_invalid s) \<or> by_time r (dr_closed s)))"
proof (induction ss arbitrary: t)
  case (Cons s ss)
  show ?case
  proof (cases "by_time t (dr_invalid s)")
    case True
    with Cons.prems Cons.IH [of t] by_time_mono [OF True] show ?thesis by auto
  next
    case False
    show ?thesis
    proof (cases "dr_closed s")
      case None
      with False Cons.prems show ?thesis by (cases nc) (auto simp: by_time_def)
    next
      case (Some u)
      show ?thesis
      proof (cases "wait_subscriptions_drained nc ss (max t u) = Some r")
        case True
        with Cons.IH [OF True] Some show ?thesis by (auto simp: by_time_def)
      next
        case no: False
        with False Some Cons.prems show ?thesis by (cases nc) (auto simp: by_time_def split: if_splits)
      qed
    qed
  qed
qed simp

lemma wait_drained_returns:
  "nc \<noteq> None \<or> (\<forall>s \<in> set ss. dr_closed s \<noteq> None \<or> by_time t (dr_invalid s)) \<Longrightarrow>
    wait_subscriptions_drained nc ss t \<noteq> None"
proof (induction ss arbitrary: t)
  case (Cons s ss)
  have later: "nc \<noteq> None \<or> (\<forall>s \<in> set ss. dr_closed s \<noteq> None \<or> by_time u (dr_invalid s))" if "t \<le> u" for u
    using Cons.prems by_time_mono [OF _ that] by auto
  from Cons.IH [OF later] Cons.prems show ?case
    by (cases nc; cases "dr_closed s") auto
qed simp

lemma wait_closed_result:
  "t \<le> d \<Longrightarrow> wait_closed d cs t =
    (if list_all (by_time d) cs then fold max (map the cs) t else d)"
proof (induction cs arbitrary: t)
  case (Cons c cs)
  show ?case
  proof (cases c)
    case None
    with Cons.prems show ?thesis by (simp add: by_time_def max_def)
  next
    case (Some u)
    with Cons.prems Cons.IH [of "max t u"] show ?thesis
      by (cases "u \<le> d") (simp_all add: by_time_def max.commute)
  qed
qed simp

lemma fold_max_bounds: "(t :: int) \<le> fold max xs t \<and> (t \<le> d \<longrightarrow> (\<forall>x \<in> set xs. x \<le> d) \<longrightarrow> fold max xs t \<le> d)"
proof (induction xs arbitrary: t)
  case (Cons x xs)
  from Cons [of "max x t"] show ?case by auto
qed simp

section \<open>Properties\<close>

text \<open>\<open>Stop\<close>'s wait for its subscriptions returns only when every one of them is invalid or
  closed, or the connection is closed; and it does return when the connection closes, or when
  every subscription that is still valid closes.\<close>

theorem drain_wait_returns:
  "(case wait_subscriptions_drained nc ss t of
      Some r \<Rightarrow> t \<le> r \<and> (by_time r nc \<or> (\<forall>s \<in> set ss. by_time r (dr_invalid s) \<or> by_time r (dr_closed s)))
    | None \<Rightarrow> nc = None \<and> (\<exists>s \<in> set ss. dr_closed s = None \<and> \<not> by_time t (dr_invalid s)))"
proof (cases "wait_subscriptions_drained nc ss t")
  case None
  then have "\<not> (nc \<noteq> None \<or> (\<forall>s \<in> set ss. dr_closed s \<noteq> None \<or> by_time t (dr_invalid s)))"
    using wait_drained_returns [of nc ss t] by blast
  with None show ?thesis by auto
next
  case (Some r)
  from wait_drained_result [OF this] Some show ?thesis by simp
qed

text \<open>An abandoned \<open>Stop\<close> waits for its consumers until the last of them has closed, but no
  longer than five seconds, even when one of them never closes.\<close>

theorem abandon_wait_bounded:
  "wait_consumers_closed cs flushBudget t =
      (if list_all (by_time (t + 5 * 10 ^ 9)) cs then fold max (map the cs) t else t + 5 * 10 ^ 9) \<and>
    t \<le> wait_consumers_closed cs flushBudget t \<and> wait_consumers_closed cs flushBudget t \<le> t + 5 * 10 ^ 9"
proof -
  have d: "time_add t flushBudget = t + 5 * 10 ^ 9" by (simp add: time_add_def flushBudget_def)
  have "\<forall>x \<in> set (map the cs). x \<le> t + 5 * 10 ^ 9" if "list_all (by_time (t + 5 * 10 ^ 9)) cs"
    using that by (auto simp: list_all_iff by_time_def split: option.splits)
  with fold_max_bounds [of t "map the cs" "t + 5 * 10 ^ 9"]
  show ?thesis unfolding wait_consumers_closed_def d by (simp add: wait_closed_result)
qed

fun is_tick :: "watch_event \<Rightarrow> bool" where
  "is_tick (Tick _) = True"
| "is_tick _ = False"

lemma consume_error_keeps: "x \<in> set missing \<Longrightarrow> x \<in> set (fst (consume_error c e missing))"
  by (simp add: consume_error_def store_missing_def)

lemma watch_missing_closed:
  assumes "\<And>w. n_cc_closed N (jc_cc c) w"
    and "\<forall>cs. Tick cs \<in> set es \<longrightarrow> c \<in> set cs \<and> (\<forall>d \<in> set cs. consumer_id d = consumer_id c \<longrightarrow> d = c)"
    and "c \<in> set missing"
  shows "c \<in> set (fst (fst (watch_missing N cl ctx es missing W))) \<and>
    length (filter is_tick (takeWhile (\<lambda>e. e \<noteq> CtxDone) es)) \<le>
      length (filter (\<lambda>l. l = missing_record c None) (snd (fst (watch_missing N cl ctx es missing W))))"
  using assms(2,3)
proof (induction es arbitrary: missing W)
  case (Cons e es)
  show ?case
  proof (cases e)
    case (Tick cs)
    obtain m1 l1 W1 where t: "watch_tick N cl ctx cs missing W = ((m1, l1), W1)" by (metis prod.exhaust)
    have u: "c \<in> set cs" "\<And>d. d \<in> set cs \<Longrightarrow> consumer_id d = consumer_id c \<Longrightarrow> d = c"
      using Cons.prems(1) Tick by auto
    have "c \<in> set m1 \<and> (c \<in> set cs \<longrightarrow> missing_record c None \<in> set l1)"
      using watch_tick_closed [OF assms(1) _ Cons.prems(2), of cs cl ctx W] u(2) t by simp
    with u(1) have m1: "c \<in> set m1" and l1: "missing_record c None \<in> set l1" by simp_all
    have "filter (\<lambda>l. l = missing_record c None) l1 \<noteq> []" using l1 by (simp add: filter_empty_conv)
    then have pos: "0 < length (filter (\<lambda>l. l = missing_record c None) l1)" by (rule length_greater_0_conv [THEN iffD2])
    have g: "a \<le> b \<Longrightarrow> Suc a \<le> length (filter (\<lambda>l. l = missing_record c None) l1) + b" for a b :: nat
      using pos by linarith
    have "\<forall>cs. Tick cs \<in> set es \<longrightarrow> c \<in> set cs \<and> (\<forall>d \<in> set cs. consumer_id d = consumer_id c \<longrightarrow> d = c)"
      using Cons.prems(1) by simp
    from Cons.IH [OF this m1, of W1] t Tick g show ?thesis by (simp add: Let_def case_prod_beta)
  next
    case CtxDone
    with Cons.prems show ?thesis by simp
  next
    case (Reported d x)
    obtain m1 l where r: "consume_error d x missing = (m1, l)" by force
    have m1: "c \<in> set m1" using consume_error_keeps [OF Cons.prems(2), of d x] r by simp
    from Cons.IH [OF _ m1, of W] Cons.prems(1) r Reported show ?thesis by (simp add: Let_def case_prod_beta)
  qed
qed simp

text \<open>C30: a consumer that \<open>nats.go\<close> stopped consuming stays missing until the handlers' context is
  cancelled, and is logged again at every tick before that, whatever the connection, the server
  and the other consumers do meanwhile.\<close>

theorem lost_consumer_logged_each_tick:
  assumes "\<And>w. n_cc_closed N (jc_cc c) w"
    and "\<forall>cs. Tick cs \<in> set es \<longrightarrow> c \<in> set cs \<and> (\<forall>d \<in> set cs. consumer_id d = consumer_id c \<longrightarrow> d = c)"
    and "\<not> ordered (jc_settings c)" and "errors_is e SConsumerDeleted"
    and "\<forall>d \<in> set missing. consumer_id d = consumer_id c \<longrightarrow> d = c"
  shows "c \<in> set (fst (fst (watch_missing N cl ctx (Reported c e # es) missing W))) \<and>
    length (filter is_tick (takeWhile (\<lambda>e. e \<noteq> CtxDone) es)) \<le>
      length (filter (\<lambda>l. l = missing_record c None) (snd (fst (watch_missing N cl ctx (Reported c e # es) missing W))))"
proof -
  obtain m1 l where r: "consume_error c e missing = (m1, l)" by force
  have "c \<in> set m1" using r assms(3-5) by (auto simp: consume_error_def store_missing_def split: if_splits)
  from watch_missing_closed [OF assms(1,2) this, of cl ctx W] r show ?thesis by (auto simp: Let_def case_prod_beta intro: le_SucI)
qed

section \<open>Witnesses\<close>

theorem drain_wait_returns_witness:
  "wait_subscriptions_drained None [\<lparr>dr_invalid = None, dr_closed = Some 7\<rparr>, \<lparr>dr_invalid = Some 1, dr_closed = None\<rparr>] 3
      = Some 7 \<and> (3 :: gotime) \<le> 7"
  using drain_wait_returns [of None "[\<lparr>dr_invalid = None, dr_closed = Some 7\<rparr>, \<lparr>dr_invalid = Some 1, dr_closed = None\<rparr>]" 3]
  by (simp add: by_time_def)

theorem lost_consumer_logged_each_tick_witness:
  "2 \<le> length (filter (\<lambda>l. l = missing_record sample_js_consumer None)
    (snd (fst (watch_missing (sample_nats\<lparr>n_cc_closed := \<lambda>_ _. True\<rparr>) sample_client ctx_background
      [Reported sample_js_consumer (ExtErr [SConsumerDeleted] ''nats: consumer deleted''),
       Tick [sample_js_consumer], Tick [sample_js_consumer], CtxDone] [] (init_world 0)))))"
proof -
  let ?N = "sample_nats\<lparr>n_cc_closed := \<lambda>_ _. True\<rparr>"
  have c: "\<And>w. n_cc_closed ?N (jc_cc sample_js_consumer) w" by simp
  have o: "\<not> ordered (jc_settings sample_js_consumer)"
    by (simp add: sample_js_consumer_fields ordered_def ordered_consumer_def sample_js_settings_def)
  have e: "errors_is (ExtErr [SConsumerDeleted] ''nats: consumer deleted'') SConsumerDeleted" by (simp add: errors_is_def)
  from lost_consumer_logged_each_tick [OF c _ o e, of "[Tick [sample_js_consumer], Tick [sample_js_consumer], CtxDone]" "[]"
      sample_client ctx_background "init_world 0"]
  show ?thesis by simp
qed

end
