(* ===== verification/Concurrency.thy ===== *)
theory Concurrency
  imports Lifecycle
begin

text \<open>
  \<open>runtime_dispatch.go\<close> with the goroutines around it: the callbacks that receive
  messages, the handler goroutines that \<open>dispatch\<close> starts, and \<open>Start\<close> and \<open>Stop\<close>
  with its drain goroutine.  A step of the system is one access to shared state, so
  the interleavings of the model are those of the code.
\<close>

section \<open>Callbacks and handlers\<close>

text \<open>
  Where one message is on its way through \<open>receive\<close> or a core callback, \<open>dispatch\<close>
  and the handler.  A task at \<open>AtContextLocked\<close> or \<open>AtAdd\<close> holds the read lock of
  \<open>acceptMu\<close>.  The flag of the last places says whether the handler succeeded.
\<close>

datatype pc =
    Idle
  | AtAccepting | AtContext | AtSelect | AtRLock | AtContextLocked | AtAdd
  | AtRelease | AtAbandon | AtAbandonUntrack | AtAbandonNak
  | AtBegin | AtHandler | AtSettle bool | AtUntrack bool | AtReply bool
  | AtSemRelease | AtDone
  | Ended

text \<open>
  \<open>tk_gen\<close> is the \<open>Start\<close> that opened the receiver and \<open>tk_acks\<close> says whether the
  consumer acks.  The acks and naks sent for the message are counted.
\<close>

record task =
  tk_gen :: nat
  tk_acks :: bool
  tk_pc :: pc
  tk_state :: deliveryState
  tk_acked :: nat
  tk_naked :: nat

definition new_task :: "nat \<times> bool \<Rightarrow> task" where
  "new_task ga = \<lparr>tk_gen = fst ga, tk_acks = snd ga, tk_pc = Idle, tk_state = deliveryWaiting,
     tk_acked = 0, tk_naked = 0\<rparr>"

section \<open>Start and Stop\<close>

text \<open>
  \<open>LAborting\<close> is a failed \<open>Start\<close> that has cancelled its context and still accepts.
  \<open>LWaiting\<close> is \<open>Stop\<close> in its \<open>select\<close>; the flag after it says whether the drain was
  done.  The lists hold the deliveries \<open>abandonPending\<close> has still to abandon.
\<close>

datatype life =
    LCreated | LStarting | LAborting | LRunning
  | LWaiting | LCancelling bool | LIntake | LSnapshot
  | LAbandon "nat list" | LUntrack nat "nat list" | LNak nat "nat list"
  | LStopped bool

text \<open>The drain goroutine of \<open>Stop\<close>: draining, in \<open>wg.Wait\<close>, or done.\<close>

datatype drain = DNone | DDraining | DWaiting | DDone

text \<open>
  The shared state: the handler contexts made and cancelled so far, \<open>accepting\<close>, the
  semaphore and its capacity, the wait group's counter and \<open>pending\<close>.
\<close>

record sys =
  s_cap :: nat
  s_tasks :: "task list"
  s_accepting :: bool
  s_sem :: nat
  s_wg :: nat
  s_pending :: "nat list"
  s_gen :: nat
  s_cancelled :: "nat list"
  s_life :: life
  s_drain :: drain

definition init_sys :: "nat \<Rightarrow> (nat \<times> bool) list \<Rightarrow> sys" where
  "init_sys cap ts =
    \<lparr>s_cap = cap, s_tasks = map new_task ts, s_accepting = False, s_sem = 0, s_wg = 0,
     s_pending = [], s_gen = 0, s_cancelled = [], s_life = LCreated, s_drain = DNone\<rparr>"

section \<open>Steps\<close>

definition put :: "nat \<Rightarrow> task \<Rightarrow> sys \<Rightarrow> sys" where
  "put i t s = s\<lparr>s_tasks := (s_tasks s)[i := t]\<rparr>"

definition goto :: "pc \<Rightarrow> task \<Rightarrow> task" where
  "goto p t = t\<lparr>tk_pc := p\<rparr>"

definition cancelled :: "sys \<Rightarrow> task \<Rightarrow> bool" where
  "cancelled s t \<longleftrightarrow> tk_gen t \<in> set (s_cancelled s)"

definition holds_rlock :: "task \<Rightarrow> bool" where
  "holds_rlock t \<longleftrightarrow> tk_pc t \<in> {AtContextLocked, AtAdd}"

text \<open>The write lock of \<open>acceptMu\<close> is free when no task holds the read lock.\<close>

definition lockable :: "sys \<Rightarrow> bool" where
  "lockable s \<longleftrightarrow> list_all (\<lambda>t. \<not> holds_rlock t) (s_tasks s)"

text \<open>
  \<open>dispatch\<close>, up to the goroutine it starts or to its \<open>false\<close>, and what \<open>receive\<close>
  does before and after it.
\<close>

definition dispatch_step :: "nat \<Rightarrow> task \<Rightarrow> sys \<Rightarrow> sys option" where
  "dispatch_step i t s =
    (case tk_pc t of
       Idle \<Rightarrow>
         if 1 \<le> tk_gen t \<and> tk_gen t \<le> s_gen s
         then Some (put i (goto AtAccepting t)
                (if tk_acks t then s\<lparr>s_pending := List.insert i (s_pending s)\<rparr> else s))
         else None
     | AtAccepting \<Rightarrow> Some (put i (goto (if s_accepting s then AtContext else AtAbandon) t) s)
     | AtContext \<Rightarrow> Some (put i (goto (if cancelled s t then AtAbandon else AtSelect) t) s)
     | AtSelect \<Rightarrow>
         if s_sem s < s_cap s then Some (put i (goto AtRLock t) (s\<lparr>s_sem := s_sem s + 1\<rparr>)) else None
     | AtRLock \<Rightarrow> Some (put i (goto (if s_accepting s then AtContextLocked else AtRelease) t) s)
     | AtContextLocked \<Rightarrow> Some (put i (goto (if cancelled s t then AtRelease else AtAdd) t) s)
     | AtAdd \<Rightarrow> Some (put i (goto AtBegin t) (s\<lparr>s_wg := s_wg s + 1\<rparr>))
     | AtRelease \<Rightarrow>
         if 0 < s_sem s then Some (put i (goto AtAbandon t) (s\<lparr>s_sem := s_sem s - 1\<rparr>)) else None
     | _ \<Rightarrow> None)"

text \<open>\<open>abandon\<close> of a message that \<open>dispatch\<close> refused.\<close>

definition abandon_step :: "nat \<Rightarrow> task \<Rightarrow> sys \<Rightarrow> sys option" where
  "abandon_step i t s =
    (case tk_pc t of
       AtAbandon \<Rightarrow>
         if tk_acks t then
           let ((_, ok), st) = settle (tk_state t)
           in Some (put i (goto (if ok then AtAbandonUntrack else Ended) (t\<lparr>tk_state := st\<rparr>)) s)
         else Some (put i (goto Ended t) s)
     | AtAbandonUntrack \<Rightarrow>
         Some (put i (goto AtAbandonNak t) (s\<lparr>s_pending := remove1 i (s_pending s)\<rparr>))
     | AtAbandonNak \<Rightarrow> Some (put i (goto Ended (t\<lparr>tk_naked := tk_naked t + 1\<rparr>)) s)
     | _ \<Rightarrow> None)"

text \<open>The handler goroutine: \<open>serveJetStream\<close> or \<open>serve\<close>, then the deferred calls.\<close>

definition handler_step :: "nat \<Rightarrow> task \<Rightarrow> sys \<Rightarrow> sys option" where
  "handler_step i t s =
    (case tk_pc t of
       AtBegin \<Rightarrow>
         if tk_acks t then
           let (ok, st) = begin_delivery (tk_state t)
           in Some (put i (goto (if ok then AtHandler else AtSemRelease) (t\<lparr>tk_state := st\<rparr>)) s)
         else Some (put i (goto AtHandler t) s)
     | AtSettle ok \<Rightarrow>
         if tk_acks t then
           let ((_, mine), st) = settle (tk_state t)
           in Some (put i (goto (if mine then AtUntrack ok else AtSemRelease) (t\<lparr>tk_state := st\<rparr>)) s)
         else Some (put i (goto AtSemRelease t) s)
     | AtUntrack ok \<Rightarrow>
         Some (put i (goto (AtReply ok) t) (s\<lparr>s_pending := remove1 i (s_pending s)\<rparr>))
     | AtReply ok \<Rightarrow>
         Some (put i (goto AtSemRelease
           (if ok then t\<lparr>tk_acked := tk_acked t + 1\<rparr> else t\<lparr>tk_naked := tk_naked t + 1\<rparr>)) s)
     | AtSemRelease \<Rightarrow>
         if 0 < s_sem s then Some (put i (goto AtDone t) (s\<lparr>s_sem := s_sem s - 1\<rparr>)) else None
     | AtDone \<Rightarrow>
         if 0 < s_wg s then Some (put i (goto Ended t) (s\<lparr>s_wg := s_wg s - 1\<rparr>)) else None
     | _ \<Rightarrow> None)"

text \<open>
  \<open>nats.go\<close> closes a drained subscription or consumer once the callbacks of its messages
  have returned.  A callback is in \<open>dispatch\<close> or abandons the message it refused.  A message
  that has not reached its callback is not waited for, which allows more runs than \<open>nats.go\<close>.
\<close>

definition in_callback :: "task \<Rightarrow> bool" where
  "in_callback t \<longleftrightarrow> tk_pc t \<in> {AtAccepting, AtContext, AtSelect, AtRLock, AtContextLocked, AtAdd,
     AtRelease, AtAbandon, AtAbandonUntrack, AtAbandonNak}"

definition callbacks_done :: "sys \<Rightarrow> bool" where
  "callbacks_done s \<longleftrightarrow> list_all (\<lambda>t. \<not> (tk_gen t = s_gen s \<and> in_callback t)) (s_tasks s)"

text \<open>
  The events.  \<open>Step i\<close> is the next step of task \<open>i\<close>, \<open>ContextDone i\<close> the other
  branch of its \<open>select\<close>, and \<open>HandlerReturns i ok\<close> the end of its handler.
\<close>

datatype event =
    Step nat | ContextDone nat | HandlerReturns nat bool
  | StartBegins | StartSucceeds | StartFails | AbortFinishes
  | StopBegins | DrainEnds | DrainCut | WaitEnds | StopDrained | StopTimeout | StopCancels
  | StopIntake | StopSnapshot "nat list" | StopSettles | StopUntracks | StopNaks | StopEnds

definition task_event :: "event \<Rightarrow> nat \<Rightarrow> task \<Rightarrow> sys \<Rightarrow> sys option" where
  "task_event e i t s =
    (case e of
       Step _ \<Rightarrow>
         (case dispatch_step i t s of
            Some s' \<Rightarrow> Some s'
          | None \<Rightarrow> (case abandon_step i t s of Some s' \<Rightarrow> Some s' | None \<Rightarrow> handler_step i t s))
     | ContextDone _ \<Rightarrow>
         if tk_pc t = AtSelect \<and> cancelled s t then Some (put i (goto AtAbandon t) s) else None
     | HandlerReturns _ ok \<Rightarrow>
         if tk_pc t = AtHandler then Some (put i (goto (AtSettle ok) t) s) else None
     | _ \<Rightarrow> None)"

text \<open>\<open>Start\<close>, with \<open>abortStart\<close> when it fails.\<close>

definition start_event :: "event \<Rightarrow> sys \<Rightarrow> sys option" where
  "start_event e s =
    (case e of
       StartBegins \<Rightarrow>
         if s_life s = LCreated \<and> lockable s
         then Some (s\<lparr>s_gen := s_gen s + 1, s_accepting := True, s_life := LStarting\<rparr>) else None
     | StartSucceeds \<Rightarrow> if s_life s = LStarting then Some (s\<lparr>s_life := LRunning\<rparr>) else None
     | StartFails \<Rightarrow>
         if s_life s = LStarting
         then Some (s\<lparr>s_cancelled := s_gen s # s_cancelled s, s_life := LAborting\<rparr>) else None
     | AbortFinishes \<Rightarrow>
         if s_life s = LAborting \<and> lockable s
         then Some (s\<lparr>s_accepting := False, s_life := LCreated\<rparr>) else None
     | _ \<Rightarrow> None)"

text \<open>
  \<open>Stop\<close> and its drain goroutine.  \<open>DrainEnds\<close> is the end of its wait for \<open>nats.go\<close>,
  which waits for the callbacks of the receivers that \<open>Stop\<close> drains; \<open>DrainCut\<close> is the end
  of that wait when the connection closes first.  \<open>StopSnapshot\<close> lists the
  pending deliveries in the order of its \<open>range\<close> loop, which Go leaves open.
\<close>

definition drain_event :: "event \<Rightarrow> sys \<Rightarrow> sys option" where
  "drain_event e s =
    (case e of
       DrainEnds \<Rightarrow>
         if s_drain s = DDraining \<and> callbacks_done s \<and> lockable s
         then Some (s\<lparr>s_accepting := False, s_drain := DWaiting\<rparr>) else None
     | DrainCut \<Rightarrow>
         if s_drain s = DDraining \<and> lockable s
         then Some (s\<lparr>s_accepting := False, s_drain := DWaiting\<rparr>) else None
     | WaitEnds \<Rightarrow> if s_drain s = DWaiting \<and> s_wg s = 0 then Some (s\<lparr>s_drain := DDone\<rparr>) else None
     | _ \<Rightarrow> None)"

definition settle_task :: "nat \<Rightarrow> sys \<Rightarrow> bool \<times> sys" where
  "settle_task i s =
    (let t = s_tasks s ! i; ((_, ok), st) = settle (tk_state t)
     in (ok, put i (t\<lparr>tk_state := st\<rparr>) s))"

definition nak_task :: "nat \<Rightarrow> sys \<Rightarrow> sys" where
  "nak_task i s = (let t = s_tasks s ! i in put i (t\<lparr>tk_naked := tk_naked t + 1\<rparr>) s)"

definition stop_event :: "event \<Rightarrow> sys \<Rightarrow> sys option" where
  "stop_event e s =
    (case (e, s_life s) of
       (StopBegins, LRunning) \<Rightarrow> Some (s\<lparr>s_life := LWaiting, s_drain := DDraining\<rparr>)
     | (StopDrained, LWaiting) \<Rightarrow>
         if s_drain s = DDone then Some (s\<lparr>s_life := LCancelling True\<rparr>) else None
     | (StopTimeout, LWaiting) \<Rightarrow> Some (s\<lparr>s_life := LCancelling False\<rparr>)
     | (StopCancels, LCancelling clean) \<Rightarrow>
         Some (s\<lparr>s_cancelled := s_gen s # s_cancelled s,
                 s_life := (if clean then LStopped True else LIntake)\<rparr>)
     | (StopIntake, LIntake) \<Rightarrow>
         if lockable s then Some (s\<lparr>s_accepting := False, s_life := LSnapshot\<rparr>) else None
     | (StopSnapshot is, LSnapshot) \<Rightarrow>
         if distinct is \<and> set is = set (s_pending s) then Some (s\<lparr>s_life := LAbandon is\<rparr>) else None
     | (StopSettles, LAbandon (i # is)) \<Rightarrow>
         let (ok, s') = settle_task i s
         in Some (s'\<lparr>s_life := (if ok then LUntrack i is else LAbandon is)\<rparr>)
     | (StopUntracks, LUntrack i is) \<Rightarrow>
         Some (s\<lparr>s_pending := remove1 i (s_pending s), s_life := LNak i is\<rparr>)
     | (StopNaks, LNak i is) \<Rightarrow> Some ((nak_task i s)\<lparr>s_life := LAbandon is\<rparr>)
     | (StopEnds, LAbandon []) \<Rightarrow> Some (s\<lparr>s_life := LStopped False\<rparr>)
     | _ \<Rightarrow> None)"

fun event_task :: "event \<Rightarrow> nat option" where
  "event_task (Step i) = Some i"
| "event_task (ContextDone i) = Some i"
| "event_task (HandlerReturns i _) = Some i"
| "event_task _ = None"

definition fire :: "event \<Rightarrow> sys \<Rightarrow> sys option" where
  "fire e s =
    (case event_task e of
       Some i \<Rightarrow> if i < length (s_tasks s) then task_event e i (s_tasks s ! i) s else None
     | None \<Rightarrow>
         (case start_event e s of
            Some s' \<Rightarrow> Some s'
          | None \<Rightarrow> (case drain_event e s of Some s' \<Rightarrow> Some s' | None \<Rightarrow> stop_event e s)))"

fun run :: "event list \<Rightarrow> sys \<Rightarrow> sys option" where
  "run [] s = Some s"
| "run (e # es) s = (case fire e s of None \<Rightarrow> None | Some s' \<Rightarrow> run es s')"

definition initial :: "sys \<Rightarrow> bool" where
  "initial s \<longleftrightarrow> (\<exists>cap ts. s = init_sys cap ts)"

definition step :: "sys \<Rightarrow> sys \<Rightarrow> bool" where
  "step s t \<longleftrightarrow> (\<exists>e. fire e s = Some t)"

abbreviation reachable :: "sys \<Rightarrow> bool" where
  "reachable \<equiv> reach initial step"

lemma run_append: "run (es @ fs) s = (case run es s of None \<Rightarrow> None | Some t \<Rightarrow> run fs t)"
  by (induction es arbitrary: s) (auto split: option.split)

end
