(* ===== verification/Concurrency_Invariant.thy ===== *)
theory Concurrency_Invariant
  imports Concurrency
begin

text \<open>
  The invariant of the concurrent runtime: how the semaphore, the wait group, the
  gate and the contexts stand to the tasks, and what every delivery and \<open>Stop\<close> owe.
  It is proved for one step of a task through its effect, and for the events of
  \<open>Start\<close> and \<open>Stop\<close> by cases.
\<close>

section \<open>Sections a task is in\<close>

fun holds_slot_at :: "pc \<Rightarrow> bool" where
  "holds_slot_at AtRLock = True"
| "holds_slot_at AtContextLocked = True"
| "holds_slot_at AtAdd = True"
| "holds_slot_at AtRelease = True"
| "holds_slot_at AtBegin = True"
| "holds_slot_at AtHandler = True"
| "holds_slot_at (AtSettle _) = True"
| "holds_slot_at (AtUntrack _) = True"
| "holds_slot_at (AtReply _) = True"
| "holds_slot_at AtSemRelease = True"
| "holds_slot_at _ = False"

fun in_group_at :: "pc \<Rightarrow> bool" where
  "in_group_at AtBegin = True"
| "in_group_at AtHandler = True"
| "in_group_at (AtSettle _) = True"
| "in_group_at (AtUntrack _) = True"
| "in_group_at (AtReply _) = True"
| "in_group_at AtSemRelease = True"
| "in_group_at AtDone = True"
| "in_group_at _ = False"

fun owes_at :: "pc \<Rightarrow> bool" where
  "owes_at AtAbandonUntrack = True"
| "owes_at AtAbandonNak = True"
| "owes_at (AtUntrack _) = True"
| "owes_at (AtReply _) = True"
| "owes_at _ = False"

fun lists_at :: "pc \<Rightarrow> bool" where
  "lists_at AtAbandonUntrack = True"
| "lists_at (AtUntrack _) = True"
| "lists_at _ = False"

fun may_run_at :: "pc \<Rightarrow> bool" where
  "may_run_at AtBegin = True"
| "may_run_at AtHandler = True"
| "may_run_at (AtSettle _) = True"
| "may_run_at _ = False"

definition holds_slot :: "task \<Rightarrow> bool" where "holds_slot t = holds_slot_at (tk_pc t)"
definition in_group :: "task \<Rightarrow> bool" where "in_group t = in_group_at (tk_pc t)"
definition owes :: "task \<Rightarrow> bool" where "owes t = owes_at (tk_pc t)"

definition count :: "(task \<Rightarrow> bool) \<Rightarrow> sys \<Rightarrow> nat" where
  "count P s = length (filter P (s_tasks s))"

section \<open>The effect of a step of a task\<close>

text \<open>What one step of task \<open>i\<close> changes: the task, and the shared state with it.\<close>

definition effect :: "nat \<Rightarrow> task \<Rightarrow> task \<Rightarrow> sys \<Rightarrow> sys \<Rightarrow> bool" where
  "effect i t t' s s' \<longleftrightarrow>
    s_tasks s' = (s_tasks s)[i := t'] \<and> s_cap s' = s_cap s \<and> s_accepting s' = s_accepting s \<and>
    s_gen s' = s_gen s \<and> s_cancelled s' = s_cancelled s \<and> s_life s' = s_life s \<and>
    s_drain s' = s_drain s \<and>
    s_sem s' + of_bool (holds_slot t) = s_sem s + of_bool (holds_slot t') \<and>
    (s_sem s \<le> s_cap s \<longrightarrow> s_sem s' \<le> s_cap s) \<and>
    s_wg s' + of_bool (in_group t) = s_wg s + of_bool (in_group t') \<and>
    s_pending s' = (if tk_pc t = Idle \<and> tk_acks t then List.insert i (s_pending s)
      else if lists_at (tk_pc t) then remove1 i (s_pending s) else s_pending s)"

text \<open>
  How the task itself moves.  The cases are the places where what a task owes, its
  state or its replies change.
\<close>

definition moves :: "sys \<Rightarrow> task \<Rightarrow> task \<Rightarrow> bool" where
  "moves s t t' \<longleftrightarrow>
    tk_gen t' = tk_gen t \<and> tk_acks t' = tk_acks t \<and>
    (case tk_pc t of
       Idle \<Rightarrow> tk_pc t' = AtAccepting \<and> 1 \<le> tk_gen t \<and> tk_gen t \<le> s_gen s \<and> tk_state t' = tk_state t
         \<and> tk_acked t' = tk_acked t \<and> tk_naked t' = tk_naked t
     | AtAbandon \<Rightarrow>
         (if tk_acks t \<and> tk_state t \<noteq> deliverySettled then tk_pc t' = AtAbandonUntrack else tk_pc t' = Ended)
         \<and> tk_state t' = (if tk_acks t then deliverySettled else tk_state t)
         \<and> tk_acked t' = tk_acked t \<and> tk_naked t' = tk_naked t
     | AtAbandonNak \<Rightarrow> tk_pc t' = Ended \<and> tk_state t' = tk_state t \<and> tk_acked t' = tk_acked t
         \<and> tk_naked t' = tk_naked t + 1
     | AtBegin \<Rightarrow>
         (if tk_acks t \<and> tk_state t = deliverySettled then tk_pc t' = AtSemRelease else tk_pc t' = AtHandler)
         \<and> tk_state t' = (if tk_acks t \<and> tk_state t \<noteq> deliverySettled then deliveryRunning else tk_state t)
         \<and> tk_acked t' = tk_acked t \<and> tk_naked t' = tk_naked t
     | AtSettle ok \<Rightarrow>
         (if tk_acks t \<and> tk_state t \<noteq> deliverySettled then tk_pc t' = AtUntrack ok else tk_pc t' = AtSemRelease)
         \<and> tk_state t' = (if tk_acks t then deliverySettled else tk_state t)
         \<and> tk_acked t' = tk_acked t \<and> tk_naked t' = tk_naked t
     | AtReply ok \<Rightarrow> tk_pc t' = AtSemRelease \<and> tk_state t' = tk_state t
         \<and> tk_acked t' = tk_acked t + of_bool ok \<and> tk_naked t' = tk_naked t + of_bool (\<not> ok)
     | p \<Rightarrow> tk_state t' = tk_state t \<and> tk_acked t' = tk_acked t \<and> tk_naked t' = tk_naked t
         \<and> (case p of
              AtAccepting \<Rightarrow> tk_pc t' = (if s_accepting s then AtContext else AtAbandon)
            | AtContext \<Rightarrow> tk_pc t' = (if cancelled s t then AtAbandon else AtSelect)
            | AtSelect \<Rightarrow> tk_pc t' = AtRLock \<or> tk_pc t' = AtAbandon \<and> cancelled s t
            | AtRLock \<Rightarrow> tk_pc t' = (if s_accepting s then AtContextLocked else AtRelease)
            | AtContextLocked \<Rightarrow> tk_pc t' = (if cancelled s t then AtRelease else AtAdd)
            | AtAdd \<Rightarrow> tk_pc t' = AtBegin
            | AtRelease \<Rightarrow> tk_pc t' = AtAbandon
            | AtAbandonUntrack \<Rightarrow> tk_pc t' = AtAbandonNak
            | AtHandler \<Rightarrow> (\<exists>ok. tk_pc t' = AtSettle ok)
            | AtUntrack ok \<Rightarrow> tk_pc t' = AtReply ok
            | AtSemRelease \<Rightarrow> tk_pc t' = AtDone
            | AtDone \<Rightarrow> tk_pc t' = Ended
            | _ \<Rightarrow> False))"

lemmas step_defs = dispatch_step_def abandon_step_def handler_step_def put_def goto_def
lemmas section_defs = holds_slot_def in_group_def owes_def

lemmas effect_defs = effect_def moves_def section_defs put_def goto_def

lemma task_event_cases:
  "task_event e i t s = Some s' \<Longrightarrow>
    dispatch_step i t s = Some s' \<or> abandon_step i t s = Some s' \<or> handler_step i t s = Some s'
    \<or> tk_pc t = AtSelect \<and> cancelled s t \<and> s' = put i (goto AtAbandon t) s
    \<or> tk_pc t = AtHandler \<and> (\<exists>ok. s' = put i (goto (AtSettle ok) t) s)"
  by (cases e; simp add: task_event_def split: option.splits if_splits) blast+

lemma dispatch_step_effect:
  "dispatch_step i t s = Some s' \<Longrightarrow> i < length (s_tasks s) \<Longrightarrow>
    effect i t (s_tasks s' ! i) s s' \<and> moves s t (s_tasks s' ! i)"
  by (cases "tk_pc t"; simp add: dispatch_step_def split: if_splits;
      (hypsubst; simp add: effect_defs; linarith?)?)

lemma abandon_step_effect:
  "abandon_step i t s = Some s' \<Longrightarrow> i < length (s_tasks s) \<Longrightarrow>
    effect i t (s_tasks s' ! i) s s' \<and> moves s t (s_tasks s' ! i)"
  by (cases "tk_pc t"; cases "tk_state t"; simp add: abandon_step_def settle_def split: if_splits;
      (hypsubst; simp add: effect_defs)?)

lemma handler_step_effect:
  "handler_step i t s = Some s' \<Longrightarrow> i < length (s_tasks s) \<Longrightarrow>
    effect i t (s_tasks s' ! i) s s' \<and> moves s t (s_tasks s' ! i)"
  by (cases "tk_pc t"; cases "tk_state t"; simp add: handler_step_def settle_def begin_delivery_def split: if_splits;
      (hypsubst; simp add: effect_defs; linarith?)?)

lemma task_step_effect:
  assumes "task_event e i t s = Some s'" "i < length (s_tasks s)"
  shows "effect i t (s_tasks s' ! i) s s' \<and> moves s t (s_tasks s' ! i)"
  using task_event_cases [OF assms(1)]
proof (elim disjE conjE exE)
  assume "tk_pc t = AtSelect" "cancelled s t" "s' = put i (goto AtAbandon t) s"
  with assms(2) show ?thesis by (simp add: effect_defs)
next
  fix ok assume "tk_pc t = AtHandler" "s' = put i (goto (AtSettle ok) t) s"
  with assms(2) show ?thesis by (simp add: effect_defs)
qed (use assms(2) in \<open>simp_all only: dispatch_step_effect abandon_step_effect handler_step_effect\<close>)

lemma effect_same:
  "effect i t t' s s' \<Longrightarrow> s_life s' = s_life s \<and> s_drain s' = s_drain s \<and> s_accepting s' = s_accepting s
    \<and> s_gen s' = s_gen s \<and> s_cancelled s' = s_cancelled s \<and> s_cap s' = s_cap s
    \<and> s_tasks s' = (s_tasks s)[i := t']"
  by (simp add: effect_def)

lemma effect_length: "effect i t t' s s' \<Longrightarrow> length (s_tasks s') = length (s_tasks s)"
  by (simp add: effect_def)

lemma effect_task:
  assumes "effect i t t' s s'" "u \<in> set (s_tasks s')"
  shows "u = t' \<or> u \<in> set (s_tasks s)"
  using assms set_update_subset_insert [of "s_tasks s" i t'] by (auto simp: effect_def)

section \<open>The effect of the other events\<close>

lemma fire_cases:
  "fire e s = Some s' \<Longrightarrow>
    (\<exists>i < length (s_tasks s). event_task e = Some i \<and> task_event e i (s_tasks s ! i) s = Some s')
    \<or> start_event e s = Some s' \<or> drain_event e s = Some s' \<or> stop_event e s = Some s'"
  by (simp add: fire_def split: option.splits if_splits)

lemma start_event_cases:
  "start_event e s = Some s' \<Longrightarrow>
    e = StartBegins \<and> s_life s = LCreated \<and> lockable s
      \<and> s' = s\<lparr>s_gen := s_gen s + 1, s_accepting := True, s_life := LStarting\<rparr>
    \<or> e = StartSucceeds \<and> s_life s = LStarting \<and> s' = s\<lparr>s_life := LRunning\<rparr>
    \<or> e = StartFails \<and> s_life s = LStarting
      \<and> s' = s\<lparr>s_cancelled := s_gen s # s_cancelled s, s_life := LAborting\<rparr>
    \<or> e = AbortFinishes \<and> s_life s = LAborting \<and> lockable s
      \<and> s' = s\<lparr>s_accepting := False, s_life := LCreated\<rparr>"
  by (cases e; simp add: start_event_def split: if_splits)

lemma drain_event_cases:
  "drain_event e s = Some s' \<Longrightarrow>
    (e = DrainEnds \<and> callbacks_done s \<or> e = DrainCut) \<and> s_drain s = DDraining \<and> lockable s
      \<and> s' = s\<lparr>s_accepting := False, s_drain := DWaiting\<rparr>
    \<or> e = WaitEnds \<and> s_drain s = DWaiting \<and> s_wg s = 0 \<and> s' = s\<lparr>s_drain := DDone\<rparr>"
  by (cases e; simp add: drain_event_def split: if_splits)

definition settled :: "nat \<Rightarrow> sys \<Rightarrow> sys" where
  "settled i s = put i ((s_tasks s ! i)\<lparr>tk_state := deliverySettled\<rparr>) s"

lemma settle_task_eq:
  "settle_task i s = (tk_state (s_tasks s ! i) \<noteq> deliverySettled, settled i s)"
  by (simp add: settle_task_def settle_def settled_def Let_def)

lemma stop_event_cases:
  "stop_event e s = Some s' \<Longrightarrow>
    e = StopBegins \<and> s_life s = LRunning \<and> s' = s\<lparr>s_life := LWaiting, s_drain := DDraining\<rparr>
    \<or> e = StopDrained \<and> s_life s = LWaiting \<and> s_drain s = DDone \<and> s' = s\<lparr>s_life := LCancelling True\<rparr>
    \<or> e = StopTimeout \<and> s_life s = LWaiting \<and> s' = s\<lparr>s_life := LCancelling False\<rparr>
    \<or> e = StopCancels \<and> (\<exists>clean. s_life s = LCancelling clean
        \<and> s' = s\<lparr>s_cancelled := s_gen s # s_cancelled s, s_life := (if clean then LStopped True else LIntake)\<rparr>)
    \<or> e = StopIntake \<and> s_life s = LIntake \<and> lockable s
        \<and> s' = s\<lparr>s_accepting := False, s_life := LSnapshot\<rparr>
    \<or> (\<exists>is. e = StopSnapshot is \<and> s_life s = LSnapshot \<and> distinct is \<and> set is = set (s_pending s)
        \<and> s' = s\<lparr>s_life := LAbandon is\<rparr>)
    \<or> e = StopSettles \<and> (\<exists>i is. s_life s = LAbandon (i # is) \<and> tk_state (s_tasks s ! i) \<noteq> deliverySettled
        \<and> s' = (settled i s)\<lparr>s_life := LUntrack i is\<rparr>)
    \<or> e = StopSettles \<and> (\<exists>i is. s_life s = LAbandon (i # is) \<and> tk_state (s_tasks s ! i) = deliverySettled
        \<and> s' = (settled i s)\<lparr>s_life := LAbandon is\<rparr>)
    \<or> e = StopUntracks \<and> (\<exists>i is. s_life s = LUntrack i is
        \<and> s' = s\<lparr>s_pending := remove1 i (s_pending s), s_life := LNak i is\<rparr>)
    \<or> e = StopNaks \<and> (\<exists>i is. s_life s = LNak i is \<and> s' = (nak_task i s)\<lparr>s_life := LAbandon is\<rparr>)
    \<or> e = StopEnds \<and> s_life s = LAbandon [] \<and> s' = s\<lparr>s_life := LStopped False\<rparr>"
  by (cases e; cases "s_life s"; simp add: stop_event_def settle_task_eq split: list.splits if_splits)

section \<open>Slots and the wait group\<close>

text \<open>
  The semaphore holds one slot for each task between its \<open>select\<close> and its release,
  never more than its capacity, and the wait group counts the handler goroutines.
\<close>

definition slots_ok :: "sys \<Rightarrow> bool" where
  "slots_ok s \<longleftrightarrow> s_sem s = count holds_slot s \<and> s_sem s \<le> s_cap s \<and> s_wg s = count in_group s"

lemma count_update:
  "i < length (s_tasks s) \<Longrightarrow> s_tasks s' = (s_tasks s)[i := t'] \<Longrightarrow>
    count P s' + of_bool (P (s_tasks s ! i)) = count P s + of_bool (P t')"
  by (simp add: count_def length_filter_update)

lemma count_mono:
  assumes "\<And>t. P t \<Longrightarrow> Q t"
  shows "count P s \<le> count Q s"
proof -
  have "filter P (s_tasks s) = filter P (filter Q (s_tasks s))"
    unfolding filter_filter by (rule filter_cong) (auto dest: assms)
  then show ?thesis unfolding count_def by (metis length_filter_le)
qed

lemma count_pcs:
  assumes "map tk_pc (s_tasks s') = map tk_pc (s_tasks s)"
  shows "count (\<lambda>t. P (tk_pc t)) s' = count (\<lambda>t. P (tk_pc t)) s"
proof -
  have "length (filter (\<lambda>t. P (tk_pc t)) xs) = length (filter P (map tk_pc xs))" for xs :: "task list"
    by (simp add: filter_map comp_def)
  then show ?thesis using assms by (simp only: count_def)
qed

text \<open>What the events of \<open>Start\<close> and \<open>Stop\<close> leave alone.\<close>

lemma control_effect:
  assumes "start_event e s = Some s' \<or> drain_event e s = Some s' \<or> stop_event e s = Some s'"
  shows "map tk_pc (s_tasks s') = map tk_pc (s_tasks s) \<and> map tk_gen (s_tasks s') = map tk_gen (s_tasks s)
    \<and> map tk_acks (s_tasks s') = map tk_acks (s_tasks s)
    \<and> s_sem s' = s_sem s \<and> s_wg s' = s_wg s \<and> s_cap s' = s_cap s"
proof -
  have upd: "map f (xs[i := g (xs ! i)]) = map f xs" if "\<And>t. f (g t) = f t" for f :: "task \<Rightarrow> 'b" and g xs i
    using that list_update_id [of "map f xs" i]
    by (cases "i < length xs") (simp_all add: map_update list_update_beyond)
  have settled: "map tk_pc (s_tasks (settled i s)) = map tk_pc (s_tasks s)
    \<and> map tk_gen (s_tasks (settled i s)) = map tk_gen (s_tasks s)
    \<and> map tk_acks (s_tasks (settled i s)) = map tk_acks (s_tasks s)
    \<and> s_sem (settled i s) = s_sem s \<and> s_wg (settled i s) = s_wg s \<and> s_cap (settled i s) = s_cap s" for i
    by (simp add: settled_def put_def upd)
  have nak: "map tk_pc (s_tasks (nak_task i s)) = map tk_pc (s_tasks s)
    \<and> map tk_gen (s_tasks (nak_task i s)) = map tk_gen (s_tasks s)
    \<and> map tk_acks (s_tasks (nak_task i s)) = map tk_acks (s_tasks s)
    \<and> s_sem (nak_task i s) = s_sem s \<and> s_wg (nak_task i s) = s_wg s \<and> s_cap (nak_task i s) = s_cap s" for i
    by (simp add: nak_task_def put_def Let_def upd)
  from assms show ?thesis
  proof (elim disjE)
    assume "start_event e s = Some s'"
    from start_event_cases [OF this] show ?thesis by (elim disjE conjE exE) simp_all
  next
    assume "drain_event e s = Some s'"
    from drain_event_cases [OF this] show ?thesis by (elim disjE conjE exE) simp_all
  next
    assume "stop_event e s = Some s'"
    from stop_event_cases [OF this] show ?thesis
      by (elim disjE conjE exE) (simp_all add: settled nak)
  qed
qed

lemma slots_ok_fire:
  assumes "slots_ok s" "fire e s = Some s'"
  shows "slots_ok s'"
  using fire_cases [OF assms(2)]
proof (elim disjE exE conjE)
  fix i assume i: "i < length (s_tasks s)" "task_event e i (s_tasks s ! i) s = Some s'"
  let ?t = "s_tasks s ! i" and ?t' = "s_tasks s' ! i"
  have "effect i ?t ?t' s s'" using task_step_effect [OF i(2,1)] by simp
  moreover from this have "count P s' + of_bool (P ?t) = count P s + of_bool (P ?t')" for P
    using count_update [OF i(1), of s' ?t' P] by (simp add: effect_def)
  from this [of holds_slot] this [of in_group] show ?thesis
    using assms(1) calculation unfolding slots_ok_def effect_def by linarith
qed (use assms(1) control_effect [of e s s'] count_pcs [of s' s holds_slot_at] count_pcs [of s' s in_group_at]
  in \<open>simp_all add: slots_ok_def holds_slot_def [abs_def] in_group_def [abs_def]\<close>)

section \<open>The gate\<close>

definition stopping :: "life \<Rightarrow> bool" where
  "stopping l \<longleftrightarrow> l \<notin> {LCreated, LStarting, LAborting, LRunning}"

definition intake_closed :: "sys \<Rightarrow> bool" where
  "intake_closed s \<longleftrightarrow> s_drain s \<in> {DWaiting, DDone} \<or> s_life s = LCreated \<or>
    (case s_life s of LSnapshot \<Rightarrow> True | LAbandon _ \<Rightarrow> True | LUntrack _ _ \<Rightarrow> True | LNak _ _ \<Rightarrow> True
     | LStopped _ \<Rightarrow> True | _ \<Rightarrow> False)"

text \<open>
  A task that holds the read lock saw \<open>accepting\<close>, so while the runtime does not
  accept none does, and once the wait for the wait group is over it stays empty.
\<close>

definition gate_ok :: "sys \<Rightarrow> bool" where
  "gate_ok s \<longleftrightarrow>
    (\<not> s_accepting s \<longrightarrow> lockable s) \<and> (intake_closed s \<longrightarrow> \<not> s_accepting s) \<and>
    (s_drain s \<noteq> DNone \<longleftrightarrow> stopping (s_life s)) \<and> (s_drain s = DDone \<longrightarrow> s_wg s = 0) \<and>
    (s_life s = LCancelling True \<or> s_life s = LStopped True \<longrightarrow> s_drain s = DDone)"

lemma lockable_pcs:
  "map tk_pc (s_tasks s') = map tk_pc (s_tasks s) \<Longrightarrow> lockable s' = lockable s"
proof -
  have "list_all (\<lambda>t. \<not> holds_rlock t) xs = list_all (\<lambda>p. p \<notin> {AtContextLocked, AtAdd}) (map tk_pc xs)" for xs
    by (auto simp: list_all_iff holds_rlock_def)
  then show "map tk_pc (s_tasks s') = map tk_pc (s_tasks s) \<Longrightarrow> lockable s' = lockable s"
    by (simp only: lockable_def)
qed

lemma moves_rlock: "moves s t t' \<Longrightarrow> holds_rlock t' \<Longrightarrow> s_accepting s \<or> holds_rlock t"
  by (cases "tk_pc t") (auto simp: moves_def holds_rlock_def split: if_splits)

lemma moves_group: "moves s t t' \<Longrightarrow> in_group t' \<Longrightarrow> in_group t \<or> tk_pc t = AtAdd"
  by (cases "tk_pc t") (auto simp: moves_def in_group_def split: if_splits)

lemma lockable_update:
  "lockable s \<Longrightarrow> s_tasks s' = (s_tasks s)[i := t'] \<Longrightarrow> \<not> holds_rlock t' \<Longrightarrow> lockable s'"
  by (auto simp: lockable_def list_all_iff dest!: set_update_subset_insert [THEN subsetD])

lemma lockable_nth: "lockable s \<Longrightarrow> i < length (s_tasks s) \<Longrightarrow> \<not> holds_rlock (s_tasks s ! i)"
  by (auto simp: lockable_def list_all_iff)

lemma gate_ok_fire:
  assumes "gate_ok s" "fire e s = Some s'"
  shows "gate_ok s'"
  using fire_cases [OF assms(2)]
proof (elim disjE exE conjE)
  fix i assume i: "i < length (s_tasks s)" "task_event e i (s_tasks s ! i) s = Some s'"
  let ?t = "s_tasks s ! i" and ?t' = "s_tasks s' ! i"
  have eff: "effect i ?t ?t' s s'" and mv: "moves s ?t ?t'" using task_step_effect [OF i(2,1)] by simp_all
  have same: "s_life s' = s_life s" "s_drain s' = s_drain s" "s_accepting s' = s_accepting s"
    using eff by (simp_all add: effect_def)
  have lock: "\<not> s_accepting s \<longrightarrow> lockable s'"
    using assms(1) lockable_update [of s s' i ?t'] lockable_nth [OF _ i(1)] moves_rlock [OF mv] eff
    by (auto simp: gate_ok_def effect_def)
  have "s_wg s' \<le> s_wg s" if "\<not> s_accepting s"
  proof -
    have "tk_pc ?t \<noteq> AtAdd"
      using that assms(1) lockable_nth [OF _ i(1)] by (auto simp: gate_ok_def holds_rlock_def)
    then show ?thesis using moves_group [OF mv] eff by (auto simp: effect_def of_bool_def split: if_splits)
  qed
  then have "s_drain s = DDone \<longrightarrow> s_wg s' = 0"
    using assms(1) by (auto simp: gate_ok_def intake_closed_def)
  with lock assms(1) same show ?thesis by (simp add: gate_ok_def intake_closed_def)
next
  assume a: "start_event e s = Some s'"
  have "lockable s' = lockable s" using a control_effect [of e s s'] lockable_pcs [of s' s] by simp
  with start_event_cases [OF a] assms(1) show ?thesis
    by (elim disjE conjE exE) (simp_all add: gate_ok_def intake_closed_def stopping_def)
next
  assume a: "drain_event e s = Some s'"
  have "lockable s' = lockable s" using a control_effect [of e s s'] lockable_pcs [of s' s] by simp
  with drain_event_cases [OF a] assms(1) show ?thesis
    by (elim disjE conjE exE) (simp_all add: gate_ok_def intake_closed_def stopping_def)
next
  assume a: "stop_event e s = Some s'"
  have ok: "s_accepting (settled i s) = s_accepting s" "s_drain (settled i s) = s_drain s"
    "s_wg (settled i s) = s_wg s"
    "s_accepting (nak_task i s) = s_accepting s" "s_drain (nak_task i s) = s_drain s"
    "s_wg (nak_task i s) = s_wg s" for i
    by (simp_all add: settled_def nak_task_def put_def Let_def)
  have "lockable s' = lockable s" using a control_effect [of e s s'] lockable_pcs [of s' s] by simp
  with stop_event_cases [OF a] assms(1) ok show ?thesis
    by (elim disjE conjE exE) (simp_all add: gate_ok_def intake_closed_def stopping_def split: if_splits)
qed

section \<open>Handler contexts\<close>

text \<open>
  Every \<open>Start\<close> but the latest failed and cancelled its context, and so does the
  latest once it failed or \<open>Stop\<close> has cancelled.  A message is received by a receiver
  of a \<open>Start\<close> that was made.
\<close>

definition context_live :: "life \<Rightarrow> bool" where
  "context_live l \<longleftrightarrow> l \<in> {LStarting, LRunning, LWaiting, LCancelling True, LCancelling False}"

definition gens_ok :: "sys \<Rightarrow> bool" where
  "gens_ok s \<longleftrightarrow>
    (\<forall>g. 1 \<le> g \<and> g < s_gen s \<longrightarrow> g \<in> set (s_cancelled s)) \<and>
    (context_live (s_life s) \<or> s_gen s = 0 \<or> s_gen s \<in> set (s_cancelled s)) \<and>
    (\<forall>t \<in> set (s_tasks s). tk_pc t \<noteq> Idle \<longrightarrow> 1 \<le> tk_gen t \<and> tk_gen t \<le> s_gen s)"

lemma moves_gen: "moves s t t' \<Longrightarrow> tk_gen t' = tk_gen t \<and> (tk_pc t = Idle \<longrightarrow> 1 \<le> tk_gen t \<and> tk_gen t \<le> s_gen s)"
  by (auto simp: moves_def)

lemma gens_ok_tasks:
  assumes pcs: "map tk_pc (s_tasks s') = map tk_pc (s_tasks s)"
    and gens: "map tk_gen (s_tasks s') = map tk_gen (s_tasks s)" and t': "t' \<in> set (s_tasks s')"
  shows "\<exists>t \<in> set (s_tasks s). tk_pc t = tk_pc t' \<and> tk_gen t = tk_gen t'"
proof -
  from t' obtain i where i: "i < length (s_tasks s')" "t' = s_tasks s' ! i" by (auto simp: in_set_conv_nth)
  then have "i < length (s_tasks s)" using map_eq_imp_length_eq [OF pcs] by simp
  with i show ?thesis using map_nth_eq [OF pcs] map_nth_eq [OF gens]
    by (intro bexI [of _ "s_tasks s ! i"]) auto
qed

lemma gens_ok_fire:
  assumes "gens_ok s" "fire e s = Some s'"
  shows "gens_ok s'"
  using fire_cases [OF assms(2)]
proof (elim disjE exE conjE)
  fix i assume i: "i < length (s_tasks s)" "task_event e i (s_tasks s ! i) s = Some s'"
  let ?t = "s_tasks s ! i" and ?t' = "s_tasks s' ! i"
  have eff: "effect i ?t ?t' s s'" and mv: "moves s ?t ?t'" using task_step_effect [OF i(2,1)] by simp_all
  have "?t \<in> set (s_tasks s)" using i(1) by simp
  then have "1 \<le> tk_gen ?t' \<and> tk_gen ?t' \<le> s_gen s"
    using assms(1) moves_gen [OF mv] by (auto simp: gens_ok_def)
  then have "\<forall>t \<in> set (s_tasks s'). tk_pc t \<noteq> Idle \<longrightarrow> 1 \<le> tk_gen t \<and> tk_gen t \<le> s_gen s"
    using assms(1) effect_task [OF eff] by (auto simp: gens_ok_def)
  with effect_same [OF eff] assms(1) show ?thesis by (simp add: gens_ok_def)
next
  assume a: "start_event e s = Some s'"
  have tk: "\<forall>t \<in> set (s_tasks s'). tk_pc t \<noteq> Idle \<longrightarrow> 1 \<le> tk_gen t \<and> tk_gen t \<le> s_gen s"
    using gens_ok_tasks [of s' s] control_effect [of e s s'] a assms(1) by (force simp: gens_ok_def)
  from start_event_cases [OF a] assms(1) tk show ?thesis
    by (elim disjE conjE exE) (auto simp: gens_ok_def context_live_def less_Suc_eq)
next
  assume a: "drain_event e s = Some s'"
  from drain_event_cases [OF a] assms(1) show ?thesis
    by (elim disjE conjE exE) (simp_all add: gens_ok_def context_live_def)
next
  assume a: "stop_event e s = Some s'"
  have tk: "\<forall>t \<in> set (s_tasks s'). tk_pc t \<noteq> Idle \<longrightarrow> 1 \<le> tk_gen t \<and> tk_gen t \<le> s_gen s"
    using gens_ok_tasks [of s' s] control_effect [of e s s'] a assms(1) by (force simp: gens_ok_def)
  have ok: "s_gen (settled i s) = s_gen s" "s_cancelled (settled i s) = s_cancelled s"
    "s_gen (nak_task i s) = s_gen s" "s_cancelled (nak_task i s) = s_cancelled s" for i
    by (simp_all add: settled_def nak_task_def put_def Let_def)
  from stop_event_cases [OF a] assms(1) tk ok show ?thesis
    by (elim disjE conjE exE) (simp_all add: gens_ok_def context_live_def split: if_splits)
qed

section \<open>Deliveries\<close>

definition stop_owes :: "life \<Rightarrow> nat \<Rightarrow> bool" where
  "stop_owes l i \<longleftrightarrow> (case l of LUntrack j _ \<Rightarrow> j = i | LNak j _ \<Rightarrow> j = i | _ \<Rightarrow> False)"

definition stop_lists :: "life \<Rightarrow> nat \<Rightarrow> bool" where
  "stop_lists l i \<longleftrightarrow> (case l of LUntrack j _ \<Rightarrow> j = i | _ \<Rightarrow> False)"

text \<open>
  A settled delivery has had its one reply or is owed it by whoever settled it, and
  an unsettled one has had none.  A delivery is pending from its arrival until
  whoever settled it removes it.  A handler that is over leaves its delivery settled.
\<close>

definition delivery_ok :: "nat list \<Rightarrow> life \<Rightarrow> nat \<Rightarrow> task \<Rightarrow> bool" where
  "delivery_ok P l i t \<longleftrightarrow>
    (if tk_acks t then
       of_bool (owes t) + of_bool (stop_owes l i) + tk_acked t + tk_naked t
         = of_bool (tk_state t = deliverySettled) \<and>
       (i \<in> set P \<longleftrightarrow> tk_pc t \<noteq> Idle \<and>
         (tk_state t \<noteq> deliverySettled \<or> lists_at (tk_pc t) \<or> stop_lists l i)) \<and>
       (tk_pc t = Idle \<longrightarrow> tk_state t = deliveryWaiting) \<and>
       (tk_pc t \<in> {AtSemRelease, AtDone, Ended} \<longrightarrow> tk_state t = deliverySettled) \<and>
       (tk_state t = deliveryRunning \<longrightarrow> may_run_at (tk_pc t))
     else
       \<not> owes t \<and> \<not> stop_owes l i \<and> tk_acked t = 0 \<and> tk_naked t = 0 \<and> i \<notin> set P)"

lemma stop_lists_owes: "stop_lists l i \<Longrightarrow> stop_owes l i"
  by (simp add: stop_lists_def stop_owes_def split: life.splits)

lemma delivery_ok_moves:
  assumes "delivery_ok P l i t" "moves s t t'" "distinct P"
    "P' = (if tk_pc t = Idle \<and> tk_acks t then List.insert i P
      else if lists_at (tk_pc t) then remove1 i P else P)"
  shows "delivery_ok P' l i t'"
proof (cases "tk_acks t")
  case True
  with assms stop_lists_owes [of l i] show ?thesis
    by (cases "tk_pc t"; simp add: moves_def delivery_ok_def owes_def split: if_splits; (cases "tk_state t"; force)?)
next
  case False
  with assms show ?thesis
    by (cases "tk_pc t"; simp add: moves_def delivery_ok_def owes_def split: if_splits; fastforce?)
qed

definition deliveries_ok :: "sys \<Rightarrow> bool" where
  "deliveries_ok s \<longleftrightarrow> distinct (s_pending s) \<and> set (s_pending s) \<subseteq> {..<length (s_tasks s)} \<and>
    (\<forall>i < length (s_tasks s). delivery_ok (s_pending s) (s_life s) i (s_tasks s ! i))"

fun stop_rest :: "life \<Rightarrow> nat list" where
  "stop_rest (LAbandon is) = is"
| "stop_rest (LUntrack _ is) = is"
| "stop_rest (LNak _ is) = is"
| "stop_rest _ = []"

definition abandoning :: "life \<Rightarrow> bool" where
  "abandoning l \<longleftrightarrow> (case l of LAbandon _ \<Rightarrow> True | LUntrack _ _ \<Rightarrow> True | LNak _ _ \<Rightarrow> True
     | LStopped clean \<Rightarrow> \<not> clean | _ \<Rightarrow> False)"

text \<open>
  Whatever \<open>Stop\<close> has to abandon has arrived from an acking consumer, and a delivery
  whose handler may still begin or end unsettled is among it.
\<close>

definition abandon_ok :: "sys \<Rightarrow> bool" where
  "abandon_ok s \<longleftrightarrow>
    (\<forall>i. i \<in> set (stop_rest (s_life s)) \<or> stop_owes (s_life s) i \<longrightarrow>
      i < length (s_tasks s) \<and> tk_acks (s_tasks s ! i) \<and> tk_pc (s_tasks s ! i) \<noteq> Idle) \<and>
    (abandoning (s_life s) \<longrightarrow> (\<forall>i < length (s_tasks s).
      tk_acks (s_tasks s ! i) \<and> tk_state (s_tasks s ! i) \<noteq> deliverySettled
        \<and> may_run_at (tk_pc (s_tasks s ! i)) \<longrightarrow> i \<in> set (stop_rest (s_life s))))"

lemma delivery_ok_other:
  "(i \<in> set P') = (i \<in> set P) \<Longrightarrow> stop_owes l' i = stop_owes l i \<Longrightarrow> stop_lists l' i = stop_lists l i \<Longrightarrow>
    delivery_ok P' l' i t = delivery_ok P l i t"
  by (simp add: delivery_ok_def)

lemma deliveries_ok_task:
  assumes ok: "deliveries_ok s" and i: "i < length (s_tasks s)"
    and eff: "effect i (s_tasks s ! i) t' s s'" and mv: "moves s (s_tasks s ! i) t'"
  shows "deliveries_ok s'"
proof -
  let ?t = "s_tasks s ! i" and ?P = "s_pending s" and ?P' = "s_pending s'"
  have P': "?P' = (if tk_pc ?t = Idle \<and> tk_acks ?t then List.insert i ?P
      else if lists_at (tk_pc ?t) then remove1 i ?P else ?P)"
    using eff by (simp add: effect_def)
  have dist: "distinct ?P" "set ?P \<subseteq> {..<length (s_tasks s)}" using ok by (simp_all add: deliveries_ok_def)
  have other: "j \<in> set ?P' \<longleftrightarrow> j \<in> set ?P" if "j \<noteq> i" for j
    using that by (simp add: P')
  have "delivery_ok ?P' (s_life s') j (s_tasks s' ! j)" if j: "j < length (s_tasks s')" for j
  proof (cases "j = i")
    case True
    have "delivery_ok ?P (s_life s) i ?t" using ok i by (simp add: deliveries_ok_def)
    from delivery_ok_moves [OF this mv dist(1) P'] True i effect_same [OF eff] show ?thesis by simp
  next
    case False
    then have "delivery_ok ?P (s_life s) j (s_tasks s ! j)"
      using ok j effect_same [OF eff] by (simp add: deliveries_ok_def)
    with False show ?thesis
      using delivery_ok_other [OF other [OF False] refl refl] effect_same [OF eff] by simp
  qed
  moreover have "distinct ?P'" "set ?P' \<subseteq> {..<length (s_tasks s')}"
    using dist i effect_same [OF eff] set_remove1_subset [of i ?P] by (auto simp: P')
  ultimately show ?thesis by (simp add: deliveries_ok_def)
qed

lemma abandon_ok_task:
  assumes ok: "abandon_ok s" and gate: "gate_ok s" and i: "i < length (s_tasks s)"
    and eff: "effect i (s_tasks s ! i) t' s s'" and mv: "moves s (s_tasks s ! i) t'"
  shows "abandon_ok s'"
proof -
  let ?t = "s_tasks s ! i"
  have 1: "tk_acks t' = tk_acks ?t" "tk_pc t' \<noteq> Idle"
    using mv by (cases "tk_pc ?t"; simp add: moves_def split: if_splits; fastforce?)+
  have "may_run_at (tk_pc ?t) \<and> tk_state ?t \<noteq> deliverySettled"
    if "abandoning (s_life s)" "may_run_at (tk_pc t')" "tk_acks t'" "tk_state t' \<noteq> deliverySettled"
  proof -
    have "\<not> s_accepting s"
      using that(1) gate by (auto simp: gate_ok_def intake_closed_def abandoning_def split: life.splits)
    then have "tk_pc ?t \<noteq> AtAdd"
      using gate lockable_nth [OF _ i] by (auto simp: gate_ok_def holds_rlock_def)
    with that mv show ?thesis
      by (cases "tk_pc ?t") (auto simp: moves_def split: if_splits)
  qed
  note run = this
  have tasks: "s_tasks s' = (s_tasks s)[i := t']" and life: "s_life s' = s_life s"
    using effect_same [OF eff] by simp_all
  have "j < length (s_tasks s') \<and> tk_acks (s_tasks s' ! j) \<and> tk_pc (s_tasks s' ! j) \<noteq> Idle"
    if "j \<in> set (stop_rest (s_life s)) \<or> stop_owes (s_life s) j" for j
  proof -
    have "j < length (s_tasks s) \<and> tk_acks (s_tasks s ! j) \<and> tk_pc (s_tasks s ! j) \<noteq> Idle"
      using ok that unfolding abandon_ok_def by blast
    then show ?thesis using 1 by (cases "j = i") (simp_all add: tasks)
  qed
  moreover have "j \<in> set (stop_rest (s_life s))"
    if "abandoning (s_life s)" "j < length (s_tasks s')" "tk_acks (s_tasks s' ! j)"
      "tk_state (s_tasks s' ! j) \<noteq> deliverySettled" "may_run_at (tk_pc (s_tasks s' ! j))" for j
  proof -
    have "tk_acks (s_tasks s ! j) \<and> tk_state (s_tasks s ! j) \<noteq> deliverySettled
        \<and> may_run_at (tk_pc (s_tasks s ! j))"
    proof (cases "j = i")
      case True
      with that i have "tk_acks t'" "tk_state t' \<noteq> deliverySettled" "may_run_at (tk_pc t')"
        by (simp_all only: tasks nth_list_update_eq simp_thms)
      with run [OF that(1)] 1(1) True show ?thesis by blast
    next
      case False
      with that show ?thesis by (simp add: tasks)
    qed
    then show ?thesis using ok that(1,2) tasks unfolding abandon_ok_def by (simp)
  qed
  ultimately show ?thesis unfolding abandon_ok_def life by blast
qed

lemma settled_simps [simp]:
  "s_tasks (settled i s) = (s_tasks s)[i := (s_tasks s ! i)\<lparr>tk_state := deliverySettled\<rparr>]"
  "s_pending (settled i s) = s_pending s" "s_life (settled i s) = s_life s"
  by (simp_all add: settled_def put_def)

lemma nak_task_simps [simp]:
  "s_tasks (nak_task i s) = (s_tasks s)[i := (s_tasks s ! i)\<lparr>tk_naked := tk_naked (s_tasks s ! i) + 1\<rparr>]"
  "s_pending (nak_task i s) = s_pending s" "s_life (nak_task i s) = s_life s"
  by (simp_all add: nak_task_def put_def Let_def)

text \<open>An event that changes one delivery at most keeps the others as they are.\<close>

lemma deliveries_ok_event:
  assumes ok: "deliveries_ok s"
    and tasks: "s_tasks s' = (s_tasks s)[i := t']"
    and P: "distinct (s_pending s')" "set (s_pending s') \<subseteq> {..<length (s_tasks s)}"
    and other: "\<And>j. j \<noteq> i \<Longrightarrow> (j \<in> set (s_pending s')) = (j \<in> set (s_pending s))
      \<and> stop_owes (s_life s') j = stop_owes (s_life s) j \<and> stop_lists (s_life s') j = stop_lists (s_life s) j"
    and mine: "i < length (s_tasks s) \<Longrightarrow> delivery_ok (s_pending s') (s_life s') i t'"
  shows "deliveries_ok s'"
proof -
  have "delivery_ok (s_pending s') (s_life s') j (s_tasks s' ! j)" if "j < length (s_tasks s)" for j
  proof (cases "j = i")
    case True
    with that mine show ?thesis by (simp add: tasks)
  next
    case False
    then have "delivery_ok (s_pending s) (s_life s) j (s_tasks s ! j)"
      using ok that by (simp add: deliveries_ok_def)
    with False other [OF False] delivery_ok_other [of j "s_pending s'" "s_pending s" "s_life s'" "s_life s"]
    show ?thesis by (simp add: tasks)
  qed
  with P show ?thesis by (simp add: deliveries_ok_def tasks)
qed

lemma deliveries_ok_life:
  assumes "deliveries_ok s" "s_tasks s' = s_tasks s" "s_pending s' = s_pending s"
    and "\<And>j. stop_owes (s_life s') j = stop_owes (s_life s) j"
    and "\<And>j. stop_lists (s_life s') j = stop_lists (s_life s) j"
  shows "deliveries_ok s'"
  using assms by (simp add: deliveries_ok_def delivery_ok_def)

lemma stop_owes_simps [simp]:
  "stop_owes (LUntrack i is) j \<longleftrightarrow> i = j" "stop_owes (LNak i is) j \<longleftrightarrow> i = j"
  "\<not> stop_owes (LAbandon is) j" "\<not> stop_owes LSnapshot j" "\<not> stop_owes LIntake j"
  "\<not> stop_owes (LCancelling c) j" "\<not> stop_owes (LStopped c) j" "\<not> stop_owes LWaiting j"
  "\<not> stop_owes LRunning j" "\<not> stop_owes LStarting j" "\<not> stop_owes LAborting j" "\<not> stop_owes LCreated j"
  "stop_lists (LUntrack i is) j \<longleftrightarrow> i = j" "\<not> stop_lists (LNak i is) j"
  "\<not> stop_lists (LAbandon is) j" "\<not> stop_lists LSnapshot j" "\<not> stop_lists LIntake j"
  "\<not> stop_lists (LCancelling c) j" "\<not> stop_lists (LStopped c) j" "\<not> stop_lists LWaiting j"
  "\<not> stop_lists LRunning j" "\<not> stop_lists LStarting j" "\<not> stop_lists LAborting j" "\<not> stop_lists LCreated j"
  by (simp_all add: stop_owes_def stop_lists_def)

lemma deliveries_ok_stop:
  assumes ok: "deliveries_ok s" and ab: "abandon_ok s" and "stop_event e s = Some s'"
  shows "deliveries_ok s'"
  using stop_event_cases [OF assms(3)]
proof (elim disjE conjE exE)
  fix i "is" assume l: "s_life s = LAbandon (i # is)" and st: "tk_state (s_tasks s ! i) \<noteq> deliverySettled"
    and s': "s' = (settled i s)\<lparr>s_life := LUntrack i is\<rparr>"
  have i: "i < length (s_tasks s)" "tk_acks (s_tasks s ! i)" "tk_pc (s_tasks s ! i) \<noteq> Idle"
    using ab l by (auto simp: abandon_ok_def)
  then have "delivery_ok (s_pending s) (LAbandon (i # is)) i (s_tasks s ! i)"
    using ok l by (simp add: deliveries_ok_def)
  with i st have "delivery_ok (s_pending s) (LUntrack i is) i ((s_tasks s ! i)\<lparr>tk_state := deliverySettled\<rparr>)"
    by (simp add: delivery_ok_def owes_def)
  with ok show ?thesis
    by (intro deliveries_ok_event [OF ok, of _ i]) (simp_all add: s' l deliveries_ok_def)
next
  fix i "is" assume l: "s_life s = LAbandon (i # is)" and st: "tk_state (s_tasks s ! i) = deliverySettled"
    and s': "s' = (settled i s)\<lparr>s_life := LAbandon is\<rparr>"
  have "(s_tasks s)[i := (s_tasks s ! i)\<lparr>tk_state := deliverySettled\<rparr>] = s_tasks s"
    using st list_update_id [of "s_tasks s" i] by (metis task.surjective task.update_convs(4))
  with l show ?thesis by (intro deliveries_ok_life [OF ok]) (simp_all add: s')
next
  fix i "is" assume l: "s_life s = LUntrack i is"
    and s': "s' = s\<lparr>s_pending := remove1 i (s_pending s), s_life := LNak i is\<rparr>"
  have i: "i < length (s_tasks s)" "tk_acks (s_tasks s ! i)"
    using ab l by (auto simp: abandon_ok_def)
  have d: "distinct (s_pending s)" "set (s_pending s) \<subseteq> {..<length (s_tasks s)}"
    using ok by (simp_all add: deliveries_ok_def)
  have "delivery_ok (s_pending s) (LUntrack i is) i (s_tasks s ! i)"
    using ok l i by (simp add: deliveries_ok_def)
  with i d have "delivery_ok (remove1 i (s_pending s)) (LNak i is) i (s_tasks s ! i)"
    by (cases "tk_pc (s_tasks s ! i)") (auto simp: delivery_ok_def owes_def of_bool_def split: if_splits)
  with d show ?thesis
    using set_remove1_subset [of i "s_pending s"]
    by (intro deliveries_ok_event [OF ok, of _ i "s_tasks s ! i"]) (auto simp: s' l)
next
  fix i "is" assume l: "s_life s = LNak i is" and s': "s' = (nak_task i s)\<lparr>s_life := LAbandon is\<rparr>"
  have i: "i < length (s_tasks s)" "tk_acks (s_tasks s ! i)"
    using ab l by (auto simp: abandon_ok_def)
  have "delivery_ok (s_pending s) (LNak i is) i (s_tasks s ! i)"
    using ok l i by (simp add: deliveries_ok_def)
  with i have "delivery_ok (s_pending s) (LAbandon is) i
      ((s_tasks s ! i)\<lparr>tk_naked := tk_naked (s_tasks s ! i) + 1\<rparr>)"
    by (simp add: delivery_ok_def owes_def)
  with ok show ?thesis
    by (intro deliveries_ok_event [OF ok, of _ i]) (simp_all add: s' l deliveries_ok_def)
qed (intro deliveries_ok_life [OF ok]; simp split: if_splits)+

lemma deliveries_ok_fire:
  assumes ok: "deliveries_ok s" and ab: "abandon_ok s" and f: "fire e s = Some s'"
  shows "deliveries_ok s'"
  using fire_cases [OF f]
proof (elim disjE exE conjE)
  fix i assume i: "i < length (s_tasks s)" "task_event e i (s_tasks s ! i) s = Some s'"
  from task_step_effect [OF i(2,1)] show ?thesis by (blast intro: deliveries_ok_task [OF ok i(1)])
next
  assume "start_event e s = Some s'"
  from start_event_cases [OF this] show ?thesis
    by (elim disjE conjE) (intro deliveries_ok_life [OF ok]; simp)+
next
  assume "drain_event e s = Some s'"
  from drain_event_cases [OF this] show ?thesis
    by (elim disjE conjE) (intro deliveries_ok_life [OF ok]; simp)+
next
  assume "stop_event e s = Some s'"
  then show ?thesis by (rule deliveries_ok_stop [OF ok ab])
qed

lemma abandoning_simps [simp]:
  "abandoning (LAbandon is)" "abandoning (LUntrack i is)" "abandoning (LNak i is)"
  "abandoning (LStopped c) \<longleftrightarrow> \<not> c" "\<not> abandoning LSnapshot" "\<not> abandoning LIntake"
  "\<not> abandoning (LCancelling c)" "\<not> abandoning LWaiting" "\<not> abandoning LRunning"
  "\<not> abandoning LStarting" "\<not> abandoning LAborting" "\<not> abandoning LCreated"
  by (simp_all add: abandoning_def)

lemma abandon_ok_life:
  assumes "abandon_ok s" "s_tasks s' = s_tasks s"
    and "\<And>j. j \<in> set (stop_rest (s_life s')) \<or> stop_owes (s_life s') j \<Longrightarrow>
      j \<in> set (stop_rest (s_life s)) \<or> stop_owes (s_life s) j"
    and "abandoning (s_life s') \<Longrightarrow>
      abandoning (s_life s) \<and> set (stop_rest (s_life s)) \<subseteq> set (stop_rest (s_life s'))"
  shows "abandon_ok s'"
  using assms(1,3,4) unfolding abandon_ok_def assms(2) by blast

lemma abandon_ok_start:
  assumes "abandon_ok s" "start_event e s = Some s'"
  shows "abandon_ok s'"
  using start_event_cases [OF assms(2)]
  by (elim disjE conjE) (intro abandon_ok_life [OF assms(1)]; simp)+

lemma abandon_ok_drain:
  assumes "abandon_ok s" "drain_event e s = Some s'"
  shows "abandon_ok s'"
  using drain_event_cases [OF assms(2)]
  by (elim disjE conjE) (intro abandon_ok_life [OF assms(1)]; simp)+

lemma abandon_ok_event:
  assumes ab: "abandon_ok s" and tasks: "s_tasks s' = (s_tasks s)[i := t']"
    and t': "tk_acks t' = tk_acks (s_tasks s ! i)" "tk_pc t' = tk_pc (s_tasks s ! i)"
      "tk_state t' = tk_state (s_tasks s ! i) \<or> tk_state t' = deliverySettled"
    and l: "abandoning (s_life s)"
    and fewer: "\<And>j. j \<in> set (stop_rest (s_life s')) \<or> stop_owes (s_life s') j \<Longrightarrow>
      j \<in> set (stop_rest (s_life s)) \<or> stop_owes (s_life s) j"
    and kept: "\<And>j. j \<in> set (stop_rest (s_life s)) \<Longrightarrow>
      j \<in> set (stop_rest (s_life s')) \<or> j = i \<and> tk_state t' = deliverySettled"
  shows "abandon_ok s'"
proof -
  have same: "tk_acks (s_tasks s' ! j) = tk_acks (s_tasks s ! j) \<and> tk_pc (s_tasks s' ! j) = tk_pc (s_tasks s ! j)
    \<and> (tk_state (s_tasks s' ! j) \<noteq> deliverySettled \<longrightarrow> tk_state (s_tasks s ! j) \<noteq> deliverySettled)"
    if "j < length (s_tasks s)" for j
    using that t' by (cases "j = i") (auto simp: tasks)
  have new: "tk_state (s_tasks s' ! i) = deliverySettled"
    if "i < length (s_tasks s)" "tk_state t' = deliverySettled"
    using that by (simp add: tasks)
  have old: "j \<in> set (stop_rest (s_life s))"
    if "j < length (s_tasks s)" "tk_acks (s_tasks s ! j)" "tk_state (s_tasks s ! j) \<noteq> deliverySettled"
      "may_run_at (tk_pc (s_tasks s ! j))" for j
    using ab l that unfolding abandon_ok_def by blast
  have covered: "j \<in> set (stop_rest (s_life s'))"
    if "j < length (s_tasks s)" "tk_acks (s_tasks s' ! j)" "tk_state (s_tasks s' ! j) \<noteq> deliverySettled"
      "may_run_at (tk_pc (s_tasks s' ! j))" for j
    using kept [of j] old [of j] same [of j] new that by metis
  have owed: "j < length (s_tasks s) \<and> tk_acks (s_tasks s' ! j) \<and> tk_pc (s_tasks s' ! j) \<noteq> Idle"
    if "j \<in> set (stop_rest (s_life s')) \<or> stop_owes (s_life s') j" for j
  proof -
    have "j < length (s_tasks s) \<and> tk_acks (s_tasks s ! j) \<and> tk_pc (s_tasks s ! j) \<noteq> Idle"
      using fewer [OF that] ab unfolding abandon_ok_def by blast
    with same [of j] show ?thesis by simp
  qed
  have len: "length (s_tasks s') = length (s_tasks s)" by (simp add: tasks)
  show ?thesis unfolding abandon_ok_def len using covered owed by blast
qed

lemma abandon_ok_stop:
  assumes ab: "abandon_ok s" and ok: "deliveries_ok s" and "stop_event e s = Some s'"
  shows "abandon_ok s'"
  using stop_event_cases [OF assms(3)]
proof (elim disjE conjE exE)
  fix "is" assume l: "s_life s = LSnapshot" and "is": "set is = set (s_pending s)"
    and s': "s' = s\<lparr>s_life := LAbandon is\<rparr>"
  have okd: "delivery_ok (s_pending s) LSnapshot i (s_tasks s ! i)" if "i < length (s_tasks s)" for i
    using ok that l by (simp add: deliveries_ok_def)
  have owed: "i < length (s_tasks s) \<and> tk_acks (s_tasks s ! i) \<and> tk_pc (s_tasks s ! i) \<noteq> Idle"
    if "i \<in> set (s_pending s)" for i
  proof -
    have i: "i < length (s_tasks s)" using ok that by (auto simp: deliveries_ok_def)
    with okd [OF i] that show ?thesis by (simp add: delivery_ok_def split: if_splits)
  qed
  have covered: "i \<in> set (s_pending s)"
    if "i < length (s_tasks s)" "tk_acks (s_tasks s ! i)" "tk_state (s_tasks s ! i) \<noteq> deliverySettled"
      "may_run_at (tk_pc (s_tasks s ! i))" for i
    using okd [OF that(1)] that by (cases "tk_pc (s_tasks s ! i)") (simp_all add: delivery_ok_def)
  show ?thesis by (simp add: abandon_ok_def s' "is") (use owed covered in blast)
next
  fix i "is" assume "s_life s = LAbandon (i # is)" "s' = (settled i s)\<lparr>s_life := LUntrack i is\<rparr>"
  then show ?thesis
    by (intro abandon_ok_event [OF ab, of _ i "(s_tasks s ! i)\<lparr>tk_state := deliverySettled\<rparr>"]) auto
next
  fix i "is" assume "s_life s = LAbandon (i # is)" "s' = (settled i s)\<lparr>s_life := LAbandon is\<rparr>"
  then show ?thesis
    by (intro abandon_ok_event [OF ab, of _ i "(s_tasks s ! i)\<lparr>tk_state := deliverySettled\<rparr>"]) auto
next
  fix i "is" assume "s_life s = LNak i is" "s' = (nak_task i s)\<lparr>s_life := LAbandon is\<rparr>"
  then show ?thesis
    by (intro abandon_ok_event [OF ab, of _ i
          "(s_tasks s ! i)\<lparr>tk_naked := tk_naked (s_tasks s ! i) + 1\<rparr>"]) auto
qed (intro abandon_ok_life [OF ab]; simp split: if_splits)+

lemma abandon_ok_fire:
  assumes ab: "abandon_ok s" and gate: "gate_ok s" and ok: "deliveries_ok s" and f: "fire e s = Some s'"
  shows "abandon_ok s'"
  using fire_cases [OF f]
proof (elim disjE exE conjE)
  fix i assume i: "i < length (s_tasks s)" "task_event e i (s_tasks s ! i) s = Some s'"
  from task_step_effect [OF i(2,1)] show ?thesis by (blast intro: abandon_ok_task [OF ab gate i(1)])
qed (use ab abandon_ok_start abandon_ok_drain abandon_ok_stop [OF ab ok] in \<open>blast+\<close>)

section \<open>The invariant\<close>

definition sys_ok :: "sys \<Rightarrow> bool" where
  "sys_ok s \<longleftrightarrow> slots_ok s \<and> gate_ok s \<and> gens_ok s \<and> deliveries_ok s \<and> abandon_ok s"

lemma sys_ok_initial: "initial s \<Longrightarrow> sys_ok s"
proof -
  assume "initial s"
  then obtain cap ts where s: "s = init_sys cap ts" by (auto simp: initial_def)
  have idle: "\<forall>t \<in> set (s_tasks s). tk_pc t = Idle"
    by (auto simp: s init_sys_def new_task_def)
  then have "count holds_slot s = 0" "count in_group s = 0"
    by (simp_all add: count_def filter_empty_conv holds_slot_def in_group_def)
  moreover have "lockable s" using idle by (simp add: lockable_def list_all_iff holds_rlock_def)
  moreover have "delivery_ok [] LCreated i (s_tasks s ! i)" if "i < length (s_tasks s)" for i
    using that by (auto simp: s init_sys_def new_task_def delivery_ok_def owes_def)
  ultimately show ?thesis
    using idle by (simp add: sys_ok_def slots_ok_def gate_ok_def gens_ok_def deliveries_ok_def
        abandon_ok_def s init_sys_def stopping_def)
qed

lemma sys_ok_step: "sys_ok s \<Longrightarrow> step s t \<Longrightarrow> sys_ok t"
  unfolding sys_ok_def step_def
  using slots_ok_fire gate_ok_fire gens_ok_fire deliveries_ok_fire abandon_ok_fire by blast

interpretation runtime_system: transition_invariant initial step sys_ok
  by unfold_locales (rule sys_ok_initial sys_ok_step; assumption)+

end
