(* ===== verification/Shutdown.thy ===== *)
theory Shutdown
  imports Concurrency_Invariant
begin

text \<open>
  What the concurrent runtime guarantees: the bound on handlers, the one reply of each
  delivery, what a clean \<open>Stop\<close> and one that gave up leave behind, that receivers of a
  failed \<open>Start\<close> never run handlers, and that \<open>Stop\<close> ends.
\<close>

section \<open>Runs\<close>

lemma reachable_run: "run es s = Some t \<Longrightarrow> reachable s \<Longrightarrow> reachable t"
proof (induction es arbitrary: s)
  case (Cons e es)
  then obtain s' where "fire e s = Some s'" "run es s' = Some t" by (auto split: option.splits)
  moreover from this have "step s s'" unfolding step_def by blast
  ultimately show ?case using Cons reach_step [of initial step s s'] by blast
qed simp

lemma reachable_from_start: "run es (init_sys cap ts) = Some t \<Longrightarrow> reachable t"
  by (rule reachable_run) (blast intro: reach_init initial_def [THEN iffD2])+

lemma reachable_steps: "step\<^sup>*\<^sup>* s t \<Longrightarrow> reachable s \<Longrightarrow> reachable t"
  by (induction rule: rtranclp.induct) (auto intro: reach_step)

lemmas reachable_ok = runtime_system.reach_inv [unfolded sys_ok_def]

lemma task_delivery_ok:
  assumes "reachable s" "t \<in> set (s_tasks s)"
  shows "\<exists>i. delivery_ok (s_pending s) (s_life s) i t \<and> i < length (s_tasks s) \<and> s_tasks s ! i = t"
  using assms reachable_ok [OF assms(1)] by (auto simp: deliveries_ok_def in_set_conv_nth)

lemma step_cases:
  assumes "step s s'"
  obtains (task) e i where "i < length (s_tasks s)" "event_task e = Some i"
      "effect i (s_tasks s ! i) (s_tasks s' ! i) s s'" "moves s (s_tasks s ! i) (s_tasks s' ! i)"
  | (control) e where "start_event e s = Some s' \<or> drain_event e s = Some s' \<or> stop_event e s = Some s'"
proof -
  from assms obtain e where e: "fire e s = Some s'" by (auto simp: step_def)
  from fire_cases [OF e] show thesis
  proof (elim disjE exE conjE)
    fix i assume "i < length (s_tasks s)" "event_task e = Some i" "task_event e i (s_tasks s ! i) s = Some s'"
    then show thesis using task_step_effect task by blast
  qed (use control in blast)+
qed

section \<open>Stale receivers\<close>

text \<open>A message whose receiver's context is cancelled, and that is not being handled.\<close>

definition refused :: "nat \<Rightarrow> sys \<Rightarrow> bool" where
  "refused i s \<longleftrightarrow> i < length (s_tasks s) \<and> cancelled s (s_tasks s ! i)
     \<and> tk_pc (s_tasks s ! i) \<noteq> AtAdd \<and> \<not> in_group (s_tasks s ! i)"

lemma moves_cancelled:
  "moves s t t' \<Longrightarrow> cancelled s t \<Longrightarrow> tk_pc t \<noteq> AtAdd \<Longrightarrow> \<not> in_group t \<Longrightarrow>
    tk_pc t' \<noteq> AtAdd \<and> \<not> in_group t'"
  by (cases "tk_pc t") (auto simp: moves_def in_group_def split: if_splits)

lemma cancelled_grows:
  assumes "start_event e s = Some s' \<or> drain_event e s = Some s' \<or> stop_event e s = Some s'"
  shows "set (s_cancelled s) \<subseteq> set (s_cancelled s')"
proof -
  have ok: "s_cancelled (settled i s) = s_cancelled s" "s_cancelled (nak_task i s) = s_cancelled s" for i
    by (simp_all add: settled_def nak_task_def put_def Let_def)
  from assms show ?thesis
  proof (elim disjE)
    assume "start_event e s = Some s'"
    from start_event_cases [OF this] show ?thesis by (elim disjE conjE) auto
  next
    assume "drain_event e s = Some s'"
    from drain_event_cases [OF this] show ?thesis by (elim disjE conjE) auto
  next
    assume "stop_event e s = Some s'"
    from stop_event_cases [OF this] show ?thesis by (elim disjE conjE exE) (simp_all add: ok subset_insertI)
  qed
qed

lemma refused_step:
  assumes "refused i s" "step s s'"
  shows "refused i s'"
  using assms(2)
proof (cases rule: step_cases)
  case (task e j)
  note same = effect_same [OF task(3)]
  have len: "length (s_tasks s') = length (s_tasks s)" using effect_length [OF task(3)] .
  show ?thesis
  proof (cases "j = i")
    case True
    with assms(1) task(4) moves_cancelled [OF task(4)] moves_gen [OF task(4)] same len show ?thesis
      by (simp add: refused_def cancelled_def)
  next
    case False
    then have "s_tasks s' ! i = s_tasks s ! i" using same by (metis nth_list_update_neq)
    with assms(1) same len show ?thesis by (simp add: refused_def cancelled_def)
  qed
next
  case (control e)
  note eff = control_effect [OF control]
  have i: "i < length (s_tasks s)" using assms(1) by (simp add: refused_def)
  have "length (s_tasks s') = length (s_tasks s)"
    using eff map_eq_imp_length_eq by blast
  moreover have "tk_pc (s_tasks s' ! i) = tk_pc (s_tasks s ! i)" "tk_gen (s_tasks s' ! i) = tk_gen (s_tasks s ! i)"
    using eff map_nth_eq [OF _ i, of tk_pc] map_nth_eq [OF _ i, of tk_gen] by blast+
  ultimately show ?thesis
    using assms(1) cancelled_grows [OF control] by (auto simp: refused_def cancelled_def in_group_def)
qed

interpretation refused_task: transition_invariant "refused i" step "refused i" for i
  by unfold_locales (auto intro: refused_step)

section \<open>Termination of Stop\<close>

fun pc_rank :: "pc \<Rightarrow> nat" where
  "pc_rank Idle = 17" | "pc_rank AtAccepting = 16" | "pc_rank AtContext = 15" | "pc_rank AtSelect = 14"
| "pc_rank AtRLock = 13" | "pc_rank AtContextLocked = 12" | "pc_rank AtAdd = 11" | "pc_rank AtBegin = 10"
| "pc_rank AtHandler = 9" | "pc_rank (AtSettle _) = 8" | "pc_rank (AtUntrack _) = 7"
| "pc_rank (AtReply _) = 6" | "pc_rank AtSemRelease = 5" | "pc_rank AtDone = 4"
| "pc_rank AtRelease = 5" | "pc_rank AtAbandon = 4" | "pc_rank AtAbandonUntrack = 3"
| "pc_rank AtAbandonNak = 2" | "pc_rank Ended = 0"

fun life_rank :: "nat \<Rightarrow> life \<Rightarrow> nat" where
  "life_rank n LWaiting = 3 * n + 5" | "life_rank n (LCancelling _) = 3 * n + 4"
| "life_rank n LIntake = 3 * n + 3" | "life_rank n LSnapshot = 3 * n + 2"
| "life_rank n (LAbandon is) = 3 * length is + 1" | "life_rank n (LUntrack _ is) = 3 * length is + 3"
| "life_rank n (LNak _ is) = 3 * length is + 2" | "life_rank n _ = 0"

fun drain_rank :: "drain \<Rightarrow> nat" where
  "drain_rank DNone = 3" | "drain_rank DDraining = 2" | "drain_rank DWaiting = 1" | "drain_rank DDone = 0"

text \<open>The work left: of every message, of \<open>Stop\<close> and of its drain goroutine.\<close>

definition work :: "sys \<Rightarrow> nat" where
  "work s = sum_list (map (pc_rank \<circ> tk_pc) (s_tasks s))
     + life_rank (length (s_tasks s)) (s_life s) + drain_rank (s_drain s)"

lemma moves_rank: "moves s t t' \<Longrightarrow> pc_rank (tk_pc t') < pc_rank (tk_pc t)"
  by (cases "tk_pc t") (auto simp: moves_def split: if_splits)

lemma stopping_life:
  "stopping LWaiting" "stopping (LCancelling c)" "stopping LIntake" "stopping LSnapshot"
  "stopping (LAbandon is)" "stopping (LUntrack i is)" "stopping (LNak i is)" "stopping (LStopped c)"
  "\<not> stopping LCreated" "\<not> stopping LStarting" "\<not> stopping LAborting" "\<not> stopping LRunning"
  by (simp_all add: stopping_def)

lemma work_decreases:
  assumes r: "reachable s" and st: "stopping (s_life s)" and "step s s'"
  shows "work s' < work s \<and> stopping (s_life s')"
  using assms(3)
proof (cases rule: step_cases)
  case (task e i)
  have "sum_list ((map (pc_rank \<circ> tk_pc) (s_tasks s))[i := pc_rank (tk_pc (s_tasks s' ! i))])
      < sum_list (map (pc_rank \<circ> tk_pc) (s_tasks s))"
    using task(1) moves_rank [OF task(4)] by (intro sum_list_less_update) simp_all
  moreover have "s_tasks s' = (s_tasks s)[i := s_tasks s' ! i]" using effect_same [OF task(3)] by simp
  from arg_cong [OF this, of "map (pc_rank \<circ> tk_pc)"] arg_cong [OF this, of length]
  have "map (pc_rank \<circ> tk_pc) (s_tasks s') = (map (pc_rank \<circ> tk_pc) (s_tasks s))[i := pc_rank (tk_pc (s_tasks s' ! i))]"
    "length (s_tasks s') = length (s_tasks s)"
    by (simp_all add: map_update)
  ultimately show ?thesis using effect_same [OF task(3)] st by (simp add: work_def)
next
  case (control e)
  have "map (pc_rank \<circ> tk_pc) (s_tasks s') = map (pc_rank \<circ> tk_pc) (s_tasks s)"
    using control_effect [OF control] arg_cong [of _ _ "map pc_rank"] by (simp add: map_map [symmetric] del: map_map)
  moreover from this have len: "length (s_tasks s') = length (s_tasks s)" using map_eq_imp_length_eq by blast
  moreover have "life_rank (length (s_tasks s)) (s_life s') + drain_rank (s_drain s')
      < life_rank (length (s_tasks s)) (s_life s) + drain_rank (s_drain s) \<and> stopping (s_life s')"
    using control
  proof (elim disjE)
    assume "start_event e s = Some s'"
    from start_event_cases [OF this] st show ?thesis by (elim disjE conjE) (simp_all add: stopping_life)
  next
    assume "drain_event e s = Some s'"
    from drain_event_cases [OF this] st show ?thesis by (elim disjE conjE) simp_all
  next
    assume a: "stop_event e s = Some s'"
    have dist: "distinct (s_pending s)" "set (s_pending s) \<subseteq> {..<length (s_tasks s)}"
      using reachable_ok [OF r] by (simp_all add: deliveries_ok_def)
    have pend: "length is \<le> length (s_tasks s)" if "distinct is" "set is = set (s_pending s)" for "is"
      using dist(2) card_mono [of "{..<length (s_tasks s)}" "set is"] distinct_card [OF that(1)] that(2) by simp
    have ok: "s_drain (settled i s) = s_drain s" "s_drain (nak_task i s) = s_drain s" for i
      by (simp_all add: settled_def nak_task_def put_def Let_def)
    from stop_event_cases [OF a] st ok show ?thesis
      by (elim disjE conjE exE) (simp_all add: stopping_life less_Suc_eq_le pend)
  qed
  ultimately show ?thesis by (simp add: work_def)
qed

section \<open>Progress\<close>

definition over :: "sys \<Rightarrow> bool" where
  "over s \<longleftrightarrow> s_life s \<in> {LStopped True, LStopped False} \<and> s_drain s = DDone
     \<and> list_all (\<lambda>t. tk_pc t \<in> {Idle, Ended}) (s_tasks s)"

text \<open>
  The events that are not the program's own: a message arrives, the caller's context ends, or
  the connection is closed.
\<close>

fun external :: "event \<Rightarrow> sys \<Rightarrow> bool" where
  "external StopTimeout s = True"
| "external DrainCut s = True"
| "external (Step i) s = (tk_pc (s_tasks s ! i) = Idle)"
| "external _ s = False"

lemma holder_counted:
  assumes "P (s_tasks s ! i)" "i < length (s_tasks s)"
  shows "0 < count P s"
proof -
  have "s_tasks s ! i \<in> set (filter P (s_tasks s))" using assms by simp
  then show ?thesis by (cases "filter P (s_tasks s)") (simp_all add: count_def)
qed

lemma task_enabled:
  assumes "slots_ok s" "i < length (s_tasks s)" "tk_pc (s_tasks s ! i) \<notin> {Idle, Ended}"
    and "tk_pc (s_tasks s ! i) = AtSelect \<Longrightarrow> cancelled s (s_tasks s ! i)"
  shows "\<exists>e s'. fire e s = Some s' \<and> \<not> external e s"
proof -
  let ?t = "s_tasks s ! i"
  have sem: "0 < s_sem s" if "holds_slot ?t"
    using holder_counted [of holds_slot s i] assms(1,2) that by (simp add: slots_ok_def)
  have wg: "0 < s_wg s" if "in_group ?t"
    using holder_counted [of in_group s i] assms(1,2) that by (simp add: slots_ok_def)
  have step: "\<exists>e s'. fire e s = Some s' \<and> \<not> external e s" if "task_event (Step i) i ?t s \<noteq> None"
    using that assms(2,3) by (intro exI [of _ "Step i"]) (auto simp: fire_def)
  consider "tk_pc ?t = AtSelect" | "tk_pc ?t = AtHandler" | "tk_pc ?t \<notin> {AtSelect, AtHandler, Idle, Ended}"
    using assms(3) by blast
  then show ?thesis
  proof cases
    case 1
    with assms(2,4) show ?thesis
      by (intro exI [of _ "ContextDone i"]) (simp add: fire_def task_event_def)
  next
    case 2
    with assms(2) show ?thesis
      by (intro exI [of _ "HandlerReturns i True"]) (simp add: fire_def task_event_def)
  next
    case 3
    have "task_event (Step i) i ?t s \<noteq> None"
      using 3 sem wg
      by (cases "tk_pc ?t")
        (simp_all add: task_event_def dispatch_step_def abandon_step_def handler_step_def section_defs Let_def case_prod_beta)
    then show ?thesis by (rule step)
  qed
qed

text \<open>A callback waits for a slot only while others hold them all, and one of these goes on.\<close>

lemma active_enabled:
  assumes "slots_ok s" "0 < s_cap s" "i < length (s_tasks s)" "tk_pc (s_tasks s ! i) \<notin> {Idle, Ended}"
  shows "\<exists>e s'. fire e s = Some s' \<and> \<not> external e s"
proof (cases "tk_pc (s_tasks s ! i) = AtSelect")
  case False
  with assms(1,3,4) show ?thesis by (intro task_enabled [of s i]) simp_all
next
  case select: True
  show ?thesis
  proof (cases "s_sem s < s_cap s")
    case True
    with select assms(3) show ?thesis
      by (intro exI [of _ "Step i"]) (simp add: fire_def task_event_def dispatch_step_def)
  next
    case False
    with assms(1,2) have "0 < count holds_slot s" by (simp add: slots_ok_def)
    then obtain t where "t \<in> set (s_tasks s)" "holds_slot t" by (auto simp: count_def filter_empty_conv)
    then obtain j where "j < length (s_tasks s)" "holds_slot (s_tasks s ! j)" by (auto simp: in_set_conv_nth)
    with assms(1) show ?thesis
      by (intro task_enabled [of s j]) (auto simp: holds_slot_def)
  qed
qed

lemma callbacks_or_enabled:
  assumes "slots_ok s" "0 < s_cap s"
  shows "callbacks_done s \<or> (\<exists>e s'. fire e s = Some s' \<and> \<not> external e s)"
proof (cases "callbacks_done s")
  case False
  then obtain i where "i < length (s_tasks s)" "in_callback (s_tasks s ! i)"
    by (auto simp: callbacks_done_def list_all_length)
  then show ?thesis using active_enabled [OF assms, of i] by (auto simp: in_callback_def)
qed simp

lemma lockable_or_enabled:
  assumes "slots_ok s"
  shows "lockable s \<or> (\<exists>e s'. fire e s = Some s' \<and> \<not> external e s)"
proof (cases "lockable s")
  case False
  then obtain i where "i < length (s_tasks s)" "holds_rlock (s_tasks s ! i)"
    by (auto simp: lockable_def list_all_length)
  then show ?thesis using task_enabled [OF assms, of i] by (auto simp: holds_rlock_def)
qed simp

lemma group_or_enabled:
  assumes "slots_ok s"
  shows "s_wg s = 0 \<or> (\<exists>e s'. fire e s = Some s' \<and> \<not> external e s)"
proof (cases "s_wg s = 0")
  case False
  then obtain t where "t \<in> set (s_tasks s)" "in_group t"
    using assms by (auto simp: slots_ok_def count_def filter_empty_conv)
  then obtain i where "i < length (s_tasks s)" "in_group (s_tasks s ! i)" by (auto simp: in_set_conv_nth)
  then show ?thesis using task_enabled [OF assms, of i]
    by (cases "tk_pc (s_tasks s ! i)") (simp_all add: in_group_def)
qed simp

lemma control_enabled:
  "event_task e = None \<Longrightarrow> e \<noteq> StopTimeout \<Longrightarrow> e \<noteq> DrainCut \<Longrightarrow>
    start_event e s \<noteq> None \<or> drain_event e s \<noteq> None \<or> stop_event e s \<noteq> None \<Longrightarrow>
    \<exists>e s'. fire e s = Some s' \<and> \<not> external e s"
  by (intro exI [of _ e]) (cases e; auto simp: fire_def split: option.splits)

lemma drain_enabled:
  assumes "slots_ok s" "0 < s_cap s" "s_drain s \<in> {DDraining, DWaiting}"
  shows "\<exists>e s'. fire e s = Some s' \<and> \<not> external e s"
proof (cases "s_drain s = DDraining")
  case True
  then have "callbacks_done s \<Longrightarrow> lockable s \<Longrightarrow> drain_event DrainEnds s \<noteq> None" by (simp add: drain_event_def)
  then show ?thesis
    using callbacks_or_enabled [OF assms(1,2)] lockable_or_enabled [OF assms(1)] control_enabled [of DrainEnds s] by auto
next
  case False
  with assms(3) have "s_wg s = 0 \<Longrightarrow> drain_event WaitEnds s \<noteq> None" by (simp add: drain_event_def)
  then show ?thesis using group_or_enabled [OF assms(1)] control_enabled [of WaitEnds s] by auto
qed

lemma progress:
  assumes r: "reachable s" and st: "stopping (s_life s)" and nf: "\<not> over s" and cap: "0 < s_cap s"
  shows "\<exists>e s'. fire e s = Some s' \<and> \<not> external e s"
proof -
  note ok = reachable_ok [OF r]
  have slots: "slots_ok s" and gate: "gate_ok s" and gens: "gens_ok s" using ok by simp_all
  have drain: "s_drain s \<noteq> DNone" using gate st by (simp add: gate_ok_def)
  show ?thesis
  proof (cases "s_life s")
    case LWaiting
    show ?thesis
    proof (cases "s_drain s = DDone")
      case True
      with LWaiting show ?thesis by (intro control_enabled [of StopDrained]) (simp_all add: stop_event_def)
    next
      case False
      with drain show ?thesis by (intro drain_enabled [OF slots cap]) (cases "s_drain s"; simp)
    qed
  next
    case (LCancelling clean)
    then show ?thesis by (intro control_enabled [of StopCancels]) (simp_all add: stop_event_def)
  next
    case LIntake
    then show ?thesis using lockable_or_enabled [OF slots] control_enabled [of StopIntake s]
      by (auto simp: stop_event_def)
  next
    case LSnapshot
    then show ?thesis using ok
      by (intro control_enabled [of "StopSnapshot (s_pending s)"]) (simp_all add: stop_event_def deliveries_ok_def)
  next
    case (LAbandon js)
    then show ?thesis
      using control_enabled [of StopSettles s] control_enabled [of StopEnds s]
      by (cases js) (simp_all add: stop_event_def settle_task_eq)
  next
    case (LUntrack i js)
    then show ?thesis by (intro control_enabled [of StopUntracks]) (simp_all add: stop_event_def)
  next
    case (LNak i js)
    then show ?thesis by (intro control_enabled [of StopNaks]) (simp_all add: stop_event_def)
  next
    case (LStopped clean)
    show ?thesis
    proof (cases "s_drain s = DDone")
      case True
      with LStopped nf obtain t where "t \<in> set (s_tasks s)" and t: "tk_pc t \<notin> {Idle, Ended}"
        by (cases clean) (auto simp: over_def list_all_iff)
      then obtain i where i: "i < length (s_tasks s)" "t = s_tasks s ! i" by (auto simp: in_set_conv_nth)
      have "s_gen s \<in> set (s_cancelled s) \<or> s_gen s = 0"
        using gens LStopped by (auto simp: gens_ok_def context_live_def)
      moreover have "1 \<le> tk_gen t \<and> tk_gen t \<le> s_gen s"
        using gens t i by (auto simp: gens_ok_def)
      ultimately have "cancelled s t"
        using gens by (cases "tk_gen t = s_gen s") (auto simp: gens_ok_def cancelled_def)
      with t i show ?thesis by (intro task_enabled [OF slots, of i]) auto
    next
      case False
      with drain show ?thesis by (intro drain_enabled [OF slots cap]) (cases "s_drain s"; simp)
    qed
  qed (use st in \<open>simp_all add: stopping_life\<close>)
qed

lemma run_work:
  assumes "reachable s" "stopping (s_life s)" "run es s = Some t"
  shows "length es + work t \<le> work s \<and> stopping (s_life t)"
  using assms
proof (induction es arbitrary: s)
  case (Cons e es)
  then obtain s' where f: "fire e s = Some s'" and r: "run es s' = Some t" by (auto split: option.splits)
  then have st: "step s s'" unfolding step_def by blast
  with Cons.prems have "work s' < work s \<and> stopping (s_life s')" by (intro work_decreases)
  moreover have "reachable s'" using Cons.prems(1) st by (rule reach_step)
  ultimately show ?case using Cons.IH [of s'] r by auto
qed simp

lemma fire_cap:
  assumes "fire e s = Some s'"
  shows "s_cap s' = s_cap s"
proof -
  have "step s s'" unfolding step_def using assms by blast
  then show ?thesis
  proof (cases rule: step_cases)
    case (task e i)
    then show ?thesis using effect_same [OF task(3)] by simp
  next
    case (control e)
    then show ?thesis using control_effect [of e s s'] by simp
  qed
qed

lemma run_cap: "run es s = Some t \<Longrightarrow> s_cap t = s_cap s"
  by (induction es arbitrary: s) (auto dest: fire_cap split: option.splits)

lemma stopped_stays:
  assumes "step s s'" "s_life s = LStopped c"
  shows "s_life s' = LStopped c"
  using assms(1)
proof (cases rule: step_cases)
  case (task e i)
  then show ?thesis using effect_same [OF task(3)] assms(2) by simp
next
  case (control e)
  then show ?thesis
  proof (elim disjE)
    assume "start_event e s = Some s'"
    from start_event_cases [OF this] assms(2) show ?thesis by (elim disjE conjE) simp_all
  next
    assume "drain_event e s = Some s'"
    from drain_event_cases [OF this] assms(2) show ?thesis by (elim disjE conjE) simp_all
  next
    assume "stop_event e s = Some s'"
    from stop_event_cases [OF this] assms(2) show ?thesis by (elim disjE conjE exE) simp_all
  qed
qed

section \<open>Sample runs\<close>

text \<open>
  Two messages of an acking consumer and one slot.  The first is handled while the
  second waits for the slot; then \<open>Stop\<close> gives up, and both callbacks end.  In the
  other run the first message is handled and \<open>Stop\<close> finds its drain done.
\<close>

definition sample_init :: sys where
  "sample_init = init_sys 1 [(1, True), (1, True)]"

definition until_handler :: "event list" where
  "until_handler = [StartBegins, StartSucceeds] @ replicate 8 (Step 0)"

definition until_timeout :: "event list" where
  "until_timeout = until_handler @ replicate 3 (Step 1) @ [StopBegins, StopTimeout, StopCancels, StopIntake,
     StopSnapshot [0, 1], StopSettles, StopUntracks, StopNaks, StopSettles, StopUntracks, StopNaks, StopEnds]"

definition until_over :: "event list" where
  "until_over = [HandlerReturns 0 True, Step 0, Step 0, Step 0, ContextDone 1, Step 1, DrainEnds, WaitEnds]"

definition until_drained :: "event list" where
  "until_drained = until_handler @ [HandlerReturns 0 True] @ replicate 5 (Step 0)
     @ [StopBegins, DrainEnds, WaitEnds, StopDrained, StopCancels]"

definition sample_task :: "pc \<Rightarrow> deliveryState \<Rightarrow> nat \<Rightarrow> nat \<Rightarrow> task" where
  "sample_task p st a n = \<lparr>tk_gen = 1, tk_acks = True, tk_pc = p, tk_state = st, tk_acked = a, tk_naked = n\<rparr>"

definition sample_handling :: sys where
  "sample_handling = \<lparr>s_cap = 1,
     s_tasks = [sample_task AtHandler deliveryRunning 0 0, sample_task Idle deliveryWaiting 0 0],
     s_accepting = True, s_sem = 1, s_wg = 1, s_pending = [0], s_gen = 1, s_cancelled = [],
     s_life = LRunning, s_drain = DNone\<rparr>"

definition sample_gave_up :: sys where
  "sample_gave_up = \<lparr>s_cap = 1,
     s_tasks = [sample_task AtHandler deliverySettled 0 1, sample_task AtSelect deliverySettled 0 1],
     s_accepting = False, s_sem = 1, s_wg = 1, s_pending = [], s_gen = 1, s_cancelled = [1],
     s_life = LStopped False, s_drain = DDraining\<rparr>"

definition sample_over :: sys where
  "sample_over = \<lparr>s_cap = 1,
     s_tasks = [sample_task Ended deliverySettled 0 1, sample_task Ended deliverySettled 0 1],
     s_accepting = False, s_sem = 0, s_wg = 0, s_pending = [], s_gen = 1, s_cancelled = [1],
     s_life = LStopped False, s_drain = DDone\<rparr>"

definition sample_drained :: sys where
  "sample_drained = \<lparr>s_cap = 1,
     s_tasks = [sample_task Ended deliverySettled 1 0, sample_task Idle deliveryWaiting 0 0],
     s_accepting = False, s_sem = 0, s_wg = 0, s_pending = [], s_gen = 1, s_cancelled = [1],
     s_life = LStopped True, s_drain = DDone\<rparr>"

lemmas run_eval =
  sample_init_def until_handler_def until_timeout_def until_over_def until_drained_def
  sample_task_def sample_handling_def sample_gave_up_def sample_over_def sample_drained_def
  init_sys_def new_task_def fire_def task_event_def dispatch_step_def abandon_step_def handler_step_def
  start_event_def drain_event_def stop_event_def settle_task_def nak_task_def settle_def begin_delivery_def
  put_def goto_def cancelled_def lockable_def holds_rlock_def callbacks_done_def in_callback_def

lemma run_handling: "run until_handler sample_init = Some sample_handling"
  by (simp add: run_eval numeral_eq_Suc)

lemma run_timeout: "run until_timeout sample_init = Some sample_gave_up"
  unfolding until_timeout_def run_append run_handling by (simp add: run_eval numeral_eq_Suc insert_commute)

lemma run_over: "run until_over sample_gave_up = Some sample_over"
  by (simp add: run_eval numeral_eq_Suc)

lemma run_drained: "run until_drained sample_init = Some sample_drained"
  unfolding until_drained_def run_append run_handling by (simp add: run_eval numeral_eq_Suc)

lemma run_steps: "run es s = Some t \<Longrightarrow> step\<^sup>*\<^sup>* s t"
proof (induction es arbitrary: s)
  case (Cons e es)
  then obtain s' where "fire e s = Some s'" "run es s' = Some t" by (auto split: option.splits)
  moreover from this have "step s s'" unfolding step_def by blast
  ultimately show ?case using Cons.IH by (meson converse_rtranclp_into_rtranclp)
qed simp

text \<open>After a clean \<open>Stop\<close> the second message arrives late and is refused.\<close>

definition sample_late :: sys where
  "sample_late = sample_drained\<lparr>s_tasks :=
     [sample_task Ended deliverySettled 1 0, sample_task Ended deliverySettled 0 1]\<rparr>"

lemma run_late: "run (replicate 5 (Step 1)) sample_drained = Some sample_late"
  by (simp add: run_eval sample_late_def numeral_eq_Suc)

lemma sample_reachable:
  "reachable sample_handling" "reachable sample_gave_up" "reachable sample_over" "reachable sample_drained"
proof -
  show "reachable sample_handling" using run_handling unfolding sample_init_def by (rule reachable_from_start)
  show "reachable sample_drained" using run_drained unfolding sample_init_def by (rule reachable_from_start)
  show g: "reachable sample_gave_up" using run_timeout unfolding sample_init_def by (rule reachable_from_start)
  show "reachable sample_over" using run_over g by (rule reachable_run)
qed

section \<open>Properties\<close>

text \<open>C7: at no time do more handlers run than the concurrency allows: a running handler
  holds a slot of the semaphore, and the semaphore never holds more than its capacity.\<close>

theorem handlers_bounded:
  assumes "reachable s"
  shows "count (\<lambda>t. tk_pc t = AtHandler) s \<le> s_sem s \<and> s_sem s \<le> s_cap s"
proof -
  have "slots_ok s" using reachable_ok [OF assms] by simp
  moreover have "count (\<lambda>t. tk_pc t = AtHandler) s \<le> count holds_slot s"
    by (rule count_mono) (simp add: holds_slot_def)
  ultimately show ?thesis by (simp add: slots_ok_def)
qed

theorem handlers_bounded_witness:
  "count (\<lambda>t. tk_pc t = AtHandler) sample_handling = 1 \<and>
   count (\<lambda>t. tk_pc t = AtHandler) sample_handling \<le> s_sem sample_handling \<and>
   s_sem sample_handling \<le> s_cap sample_handling"
  using handlers_bounded [OF sample_reachable(1)]
  by (simp add: count_def sample_handling_def sample_task_def)

text \<open>C1: every message of an acking consumer gets at most one ack or nak in all,
  whatever its handler and \<open>Stop\<close> do, and only a settled one gets it; the messages of
  other receivers get none.\<close>

theorem one_reply:
  assumes "reachable s" and "t \<in> set (s_tasks s)"
  shows "tk_acked t + tk_naked t \<le> of_bool (tk_acks t \<and> tk_state t = deliverySettled)"
proof -
  from task_delivery_ok [OF assms] obtain i where "delivery_ok (s_pending s) (s_life s) i t" by blast
  then show ?thesis by (cases "tk_acks t") (simp_all add: delivery_ok_def of_bool_def split: if_splits)
qed

theorem one_reply_witness:
  "tk_acked (sample_task AtHandler deliverySettled 0 1) + tk_naked (sample_task AtHandler deliverySettled 0 1)
    \<le> of_bool (tk_acks (sample_task AtHandler deliverySettled 0 1) \<and>
        tk_state (sample_task AtHandler deliverySettled 0 1) = deliverySettled)"
  by (rule one_reply [OF sample_reachable(2)]) (simp add: sample_gave_up_def)

text \<open>C2: once all is over after \<open>Stop\<close>, clean or not, no delivery is pending, and every
  message that arrived from an acking consumer was settled and got exactly one reply.\<close>

theorem every_delivery_replied:
  assumes "reachable s" and "over s"
  shows "s_pending s = [] \<and> list_all (\<lambda>t. tk_acks t \<and> tk_pc t = Ended \<longrightarrow>
    tk_state t = deliverySettled \<and> tk_acked t + tk_naked t = 1) (s_tasks s)"
proof -
  have ok: "deliveries_ok s" using reachable_ok [OF assms(1)] by simp
  have l: "\<not> stop_owes (s_life s) i" "\<not> stop_lists (s_life s) i" for i
    using assms(2) by (auto simp: over_def)
  have pc: "tk_pc t \<in> {Idle, Ended}" if "t \<in> set (s_tasks s)" for t
    using that assms(2) by (auto simp: over_def list_all_iff)
  have fin: "i \<notin> set (s_pending s) \<and> (tk_acks t \<and> tk_pc t = Ended \<longrightarrow>
      tk_state t = deliverySettled \<and> tk_acked t + tk_naked t = 1)"
    if "t \<in> set (s_tasks s)" "delivery_ok (s_pending s) (s_life s) i t" for t i
    using pc [OF that(1)] that(2) l by (auto simp: delivery_ok_def owes_def split: if_splits)
  have "i \<notin> set (s_pending s)" for i
  proof
    assume i: "i \<in> set (s_pending s)"
    then have "i < length (s_tasks s)" using ok by (auto simp: deliveries_ok_def)
    with fin [of "s_tasks s ! i" i] ok i show False by (auto simp: deliveries_ok_def)
  qed
  moreover have "tk_acks t \<and> tk_pc t = Ended \<longrightarrow> tk_state t = deliverySettled \<and> tk_acked t + tk_naked t = 1"
    if "t \<in> set (s_tasks s)" for t
    using task_delivery_ok [OF assms(1) that] fin [OF that] by blast
  ultimately show ?thesis by (simp add: list_all_iff) (metis last_in_set)
qed

theorem every_delivery_replied_witness:
  "s_pending sample_over = [] \<and> list_all (\<lambda>t. tk_acks t \<and> tk_pc t = Ended \<longrightarrow>
    tk_state t = deliverySettled \<and> tk_acked t + tk_naked t = 1) (s_tasks sample_over)"
  by (rule every_delivery_replied [OF sample_reachable(3)])
    (simp add: over_def sample_over_def sample_task_def)

text \<open>C8: when \<open>Stop\<close> has found its drain done, no handler runs and none starts ever
  after: the wait group is empty and stays so.\<close>

theorem clean_stop_is_final:
  assumes "reachable s" and "s_life s = LStopped True" and "step\<^sup>*\<^sup>* s s'"
  shows "s_wg s' = 0 \<and> list_all (\<lambda>t. \<not> in_group t) (s_tasks s')"
proof -
  have "s_life s' = LStopped True"
    using assms(3,2) by (induction rule: rtranclp.induct) (auto intro: stopped_stays)
  moreover have ok: "gate_ok s'" "slots_ok s'"
    using reachable_ok [OF reachable_steps [OF assms(3,1)]] by simp_all
  ultimately have "s_wg s' = 0" by (simp add: gate_ok_def)
  with ok(2) show ?thesis by (simp add: slots_ok_def count_def filter_empty_conv list_all_iff)
qed

theorem clean_stop_is_final_witness:
  "s_wg sample_late = 0 \<and> list_all (\<lambda>t. \<not> in_group t) (s_tasks sample_late)"
  by (rule clean_stop_is_final [OF sample_reachable(4) _ run_steps [OF run_late]])
    (simp add: sample_drained_def)

lemma abandoned_task:
  assumes "reachable s" and "s_life s = LStopped False" and "t \<in> set (s_tasks s)"
  shows "tk_acks t \<and> tk_state t \<noteq> deliverySettled \<longrightarrow> tk_pc t \<noteq> AtAdd \<and> \<not> in_group t"
proof -
  have gate: "gate_ok s" and ab: "abandon_ok s" using reachable_ok [OF assms(1)] by simp_all
  obtain i where i: "i < length (s_tasks s)" "t = s_tasks s ! i" using assms(3) by (auto simp: in_set_conv_nth)
  have "tk_pc t \<noteq> AtAdd"
    using gate assms(2) i lockable_nth [of s i] by (auto simp: gate_ok_def intake_closed_def holds_rlock_def)
  moreover have "\<not> may_run_at (tk_pc t)" if "tk_acks t" "tk_state t \<noteq> deliverySettled"
    using ab assms(2) i that by (auto simp: abandon_ok_def)
  moreover have "owes t \<or> tk_pc t \<in> {AtSemRelease, AtDone} \<longrightarrow> tk_state t = deliverySettled" if "tk_acks t"
    using task_delivery_ok [OF assms(1,3)] that
    by (cases "tk_state t = deliverySettled") (auto simp: delivery_ok_def)
  ultimately show ?thesis by (cases "tk_pc t") (auto simp: in_group_def owes_def)
qed

text \<open>C9: when \<open>Stop\<close> gave up on its drain, every delivery of an acking consumer whose handler is
  running or may still begin is settled.\<close>

theorem abandoned_stop_settles:
  assumes "reachable s" and "s_life s = LStopped False" and "t \<in> set (s_tasks s)"
    and "tk_acks t" and "tk_pc t = AtAdd \<or> in_group t"
  shows "tk_state t = deliverySettled"
  using abandoned_task [OF assms(1-3)] assms(4,5) by auto

theorem abandoned_stop_settles_witness:
  "tk_pc (s_tasks sample_gave_up ! 0) = AtHandler \<and> tk_state (s_tasks sample_gave_up ! 0) = deliverySettled"
  using abandoned_stop_settles [OF sample_reachable(2), of "s_tasks sample_gave_up ! 0"]
  by (simp add: sample_gave_up_def sample_task_def in_group_def)

text \<open>C11: a receiver left over from a failed or stopped \<open>Start\<close> runs no handler: once its
  context is cancelled, a message of it that is not past \<open>dispatch\<close>'s second check, the one
  under the lock, never gets a handler, even when a later \<open>Start\<close> accepts again.  (A message
  past that check when the context is cancelled still gets its handler.)\<close>

theorem stale_receiver_never_runs:
  assumes "i < length (s_tasks s)" and "tk_gen (s_tasks s ! i) \<in> set (s_cancelled s)"
    and "tk_pc (s_tasks s ! i) \<noteq> AtAdd \<and> \<not> in_group (s_tasks s ! i)" and "step\<^sup>*\<^sup>* s s'"
  shows "\<not> in_group (s_tasks s' ! i)"
  using refused_task.steps_inv [OF assms(4), of i] assms(1-3) by (simp add: refused_def cancelled_def)

theorem stale_receiver_never_runs_witness:
  "\<not> in_group (s_tasks sample_late ! 1)"
  by (rule stale_receiver_never_runs [OF _ _ _ run_steps [OF run_late]])
    (simp_all add: sample_drained_def sample_task_def in_group_def)

text \<open>C12: once \<open>Stop\<close> has begun to wait for its handlers, the wait group never grows.\<close>

theorem wait_group_never_reused:
  assumes "reachable s" and "s_drain s \<in> {DWaiting, DDone}" and "step s s'"
  shows "s_wg s' \<le> s_wg s"
  using assms(3)
proof (cases rule: step_cases)
  case (task e i)
  have gate: "gate_ok s" using reachable_ok [OF assms(1)] by simp
  then have "tk_pc (s_tasks s ! i) \<noteq> AtAdd"
    using assms(2) lockable_nth [OF _ task(1)] by (auto simp: gate_ok_def intake_closed_def holds_rlock_def)
  then show ?thesis using task(3) moves_group [OF task(4)] by (auto simp: effect_def of_bool_def split: if_splits)
next
  case (control e)
  then show ?thesis using control_effect [of e s s'] by simp
qed

theorem wait_group_never_reused_witness:
  "\<exists>s'. fire (Step 1) sample_drained = Some s' \<and> s_wg s' \<le> s_wg sample_drained"
proof -
  obtain s' where f: "fire (Step 1) sample_drained = Some s'"
    by (simp add: run_eval)
  then have "step sample_drained s'" unfolding step_def by blast
  with wait_group_never_reused [OF sample_reachable(4)] have "s_wg s' \<le> s_wg sample_drained"
    by (simp add: sample_drained_def)
  with f show ?thesis by blast
qed

text \<open>C10: \<open>Stop\<close> and the messages in flight come to an end when there is a handler slot and
  every handler returns: after \<open>Stop\<close> has begun every run is at most as long as the work that
  is left, and a run that is not over can go on by a step of the program, the return of a
  handler or the end of a drain whose callbacks have all returned - with no need of a timeout, of
  a closed connection or of a new message, since a callback that waits for a slot gets one.\<close>

theorem stop_terminates:
  assumes "reachable s" and "stopping (s_life s)" and "0 < s_cap s" and "run es s = Some t"
  shows "length es \<le> work s \<and> (over t \<or> (\<exists>e t'. fire e t = Some t' \<and> \<not> external e t))"
  using run_work [OF assms(1,2,4)] progress [of t] reachable_run [OF assms(4,1)] run_cap [OF assms(4)] assms(3) by auto

theorem stop_terminates_witness:
  "length until_over \<le> work sample_gave_up \<and>
    (over sample_over \<or> (\<exists>e t'. fire e sample_over = Some t' \<and> \<not> external e sample_over))"
  by (rule stop_terminates [OF sample_reachable(2) _ _ run_over])
    (simp_all add: sample_gave_up_def stopping_life)

end
