(* ===== verification/Delivery_Steps.thy ===== *)
theory Delivery_Steps
  imports Concurrency
begin

text \<open>
  The two models of a message from a consumer meet: \<open>receive\<close> in \<open>Deliveries\<close>, which runs
  to its end at once, and the steps of a task in \<open>Concurrency\<close>.  The sequential run is one
  run of the concurrent system, with the same replies and the same final state.
\<close>

section \<open>Replies in the log\<close>

fun is_ack :: "nat \<Rightarrow> call \<Rightarrow> bool" where
  "is_ack i (CAck j) = (i = j)"
| "is_ack i (CDoubleAck j) = (i = j)"
| "is_ack i _ = False"

fun is_nak :: "nat \<Rightarrow> call \<Rightarrow> bool" where
  "is_nak i (CNak j) = (i = j)"
| "is_nak i (CNakDelay _ j) = (i = j)"
| "is_nak i _ = False"

definition replies :: "(nat \<Rightarrow> call \<Rightarrow> bool) \<Rightarrow> nat \<Rightarrow> 'w world \<Rightarrow> 'w world \<Rightarrow> nat" where
  "replies P i W W' = length (filter (P i) (drop (length (w_log W)) (w_log W')))"

lemma ack_nak_calls [simp]:
  "is_ack (jm_id m) (ack_call c m)" "\<not> is_nak (jm_id m) (ack_call c m)"
  "is_nak (jm_id m) (nak_call c m)" "\<not> is_ack (jm_id m) (nak_call c m)"
  by (simp_all add: ack_call_def nak_call_def)

section \<open>The steps of one task\<close>

text \<open>The events of a task that \<open>dispatch\<close> accepts, and of one that it refuses at its gate.\<close>

definition accepted_events :: "nat \<Rightarrow> bool \<Rightarrow> bool \<Rightarrow> event list" where
  "accepted_events i acks ok =
    replicate 8 (Step i) @ [HandlerReturns i ok] @ replicate (if acks then 5 else 3) (Step i)"

definition refused_events :: "nat \<Rightarrow> bool \<Rightarrow> bool \<Rightarrow> event list" where
  "refused_events i acks accepting =
    replicate (if accepting then 3 else 2) (Step i) @ replicate (if acks then 3 else 1) (Step i)"

lemmas one_task_simps = fire_def task_event_def dispatch_step_def abandon_step_def handler_step_def put_def goto_def
  new_task_def cancelled_def begin_delivery_def settle_def Let_def numeral_eq_Suc

lemma accepted_run:
  assumes "i < length (s_tasks s)" and "s_tasks s ! i = new_task (g, acks)" and "1 \<le> g" and "g \<le> s_gen s"
    and "g \<notin> set (s_cancelled s)" and "s_accepting s" and "s_sem s < s_cap s" and "i \<notin> set (s_pending s)"
  shows "run (accepted_events i acks ok) s = Some (s\<lparr>s_tasks := (s_tasks s)[i :=
    \<lparr>tk_gen = g, tk_acks = acks, tk_pc = Ended, tk_state = (if acks then deliverySettled else deliveryWaiting),
     tk_acked = of_bool (acks \<and> ok), tk_naked = of_bool (acks \<and> \<not> ok)\<rparr>]\<rparr>)"
  using assms by (cases acks; cases ok) (simp_all add: accepted_events_def one_task_simps)

lemma refused_run:
  assumes "i < length (s_tasks s)" and "s_tasks s ! i = new_task (g, acks)" and "1 \<le> g" and "g \<le> s_gen s"
    and "g \<in> set (s_cancelled s) \<or> \<not> s_accepting s" and "i \<notin> set (s_pending s)"
  shows "run (refused_events i acks (s_accepting s)) s = Some (s\<lparr>s_tasks := (s_tasks s)[i :=
    \<lparr>tk_gen = g, tk_acks = acks, tk_pc = Ended, tk_state = (if acks then deliverySettled else deliveryWaiting),
     tk_acked = 0, tk_naked = of_bool acks\<rparr>]\<rparr>)"
  using assms by (cases acks; cases "s_accepting s") (simp_all add: refused_events_def one_task_simps)

text \<open>What \<open>receive\<close> leaves when nothing else settles the message.\<close>

lemma receive_alone:
  obtains ok logs c' D' where "fst (receive env N cl hctx c m accepted id id D W) = Inr (logs, c', D')"
    "jc_acks c \<Longrightarrow> ds_state D' (jm_id m) = deliverySettled"
    "replies is_ack (jm_id m) W (snd (receive env N cl hctx c m accepted id id D W)) = of_bool (jc_acks c \<and> accepted \<and> ok)"
    "replies is_nak (jm_id m) W (snd (receive env N cl hctx c m accepted id id D W)) = of_bool (jc_acks c \<and> \<not> (accepted \<and> ok))"
    "jc_acks c \<Longrightarrow> jm_id m \<notin> set (ds_pending D) \<Longrightarrow> ds_pending D' = ds_pending D"
proof -
  let ?D1 = "if jc_acks c then track (jm_id m) D else D"
  let ?D2 = "if accepted then begun_state c m ?D1 else ?D1"
  let ?W' = "snd (receive env N cl hctx c m accepted id id D W)"
  have D1: "tracked_state c m id D = ?D1" by (simp add: tracked_state_def)
  have begun: "begins c m accepted ?D1 \<longleftrightarrow> accepted" by (auto simp: begins_def track_def)
  have mine: "jc_acks c \<and> ds_state ?D2 (jm_id m) \<noteq> deliverySettled \<longleftrightarrow> jc_acks c"
    and pend: "jc_acks c \<Longrightarrow> jm_id m \<notin> set (ds_pending D) \<Longrightarrow> remove1 (jm_id m) (ds_pending ?D2) = ds_pending D"
    by (simp_all add: begun_state_def track_def)
  obtain ctx msg logs c' D' where r: "fst (receive env N cl hctx c m accepted id id D W) = Inr (logs, c', D')"
    "w_log ?W' = w_log W @ (if accepted then [CHandle ctx msg] else []) @
       (if \<not> jc_acks c then [] else if accepted \<and> subscriber_result c ctx msg = None then [ack_call c m] else [nak_call c m])"
    "jc_acks c \<longrightarrow> ds_state D' (jm_id m) = deliverySettled"
    "jc_acks c \<longrightarrow> ds_pending D' = remove1 (jm_id m) (ds_pending ?D2)"
    using receive_effect [of env N cl hctx c m accepted id id D W, simplified Let_def D1 begun id_apply mine]
    by (elim exE conjE) (rule that)
  show ?thesis
  proof (rule that [OF r(1)])
    show "jc_acks c \<Longrightarrow> ds_state D' (jm_id m) = deliverySettled" using r(3) by simp
    show "replies is_ack (jm_id m) W ?W' = of_bool (jc_acks c \<and> accepted \<and> subscriber_result c ctx msg = None)"
      "replies is_nak (jm_id m) W ?W' = of_bool (jc_acks c \<and> \<not> (accepted \<and> subscriber_result c ctx msg = None))"
      by (simp_all add: replies_def r(2))
    show "jc_acks c \<Longrightarrow> jm_id m \<notin> set (ds_pending D) \<Longrightarrow> ds_pending D' = ds_pending D" using r(4) pend by simp
  qed
qed

text \<open>C5: what \<open>receive\<close> does with a message from its arrival to its reply is one run of that
  message's task in the concurrent system: there is a run of only this task's steps that ends
  with the acks and naks, the delivery state and the pending deliveries of the sequential code,
  and leaves the semaphore, the wait group and everything else as they were.\<close>

theorem receive_is_a_run:
  assumes "i < length (s_tasks s)" and "s_tasks s ! i = new_task (g, jc_acks c)" and "1 \<le> g" and "g \<le> s_gen s"
    and "s_sem s < s_cap s" and "i \<notin> set (s_pending s)" and "jm_id m = i" and "ds_pending D = s_pending s"
    and "accepted \<longleftrightarrow> s_accepting s \<and> g \<notin> set (s_cancelled s)"
  shows "\<exists>logs c' D' es t.
    fst (receive env N cl hctx c m accepted id id D W) = Inr (logs, c', D') \<and>
    set (map event_task es) = {Some i} \<and> run es s = Some (s\<lparr>s_tasks := (s_tasks s)[i := t]\<rparr>) \<and> tk_pc t = Ended \<and>
    tk_acked t = replies is_ack i W (snd (receive env N cl hctx c m accepted id id D W)) \<and>
    tk_naked t = replies is_nak i W (snd (receive env N cl hctx c m accepted id id D W)) \<and>
    (if jc_acks c then tk_state t = ds_state D' i \<and> s_pending s = ds_pending D' else tk_acked t + tk_naked t = 0)"
proof -
  obtain ok logs c' D' where r: "fst (receive env N cl hctx c m accepted id id D W) = Inr (logs, c', D')"
    "jc_acks c \<Longrightarrow> ds_state D' i = deliverySettled"
    "replies is_ack i W (snd (receive env N cl hctx c m accepted id id D W)) = of_bool (jc_acks c \<and> accepted \<and> ok)"
    "replies is_nak i W (snd (receive env N cl hctx c m accepted id id D W)) = of_bool (jc_acks c \<and> \<not> (accepted \<and> ok))"
    "jc_acks c \<Longrightarrow> ds_pending D' = s_pending s"
    using receive_alone [of env N cl hctx c m accepted D W] assms(6-8) by metis
  show ?thesis
  proof (cases accepted)
    case True
    have e: "set (map event_task (accepted_events i (jc_acks c) ok)) = {Some i}" by (auto simp: accepted_events_def)
    from True assms(9) have "g \<notin> set (s_cancelled s)" "s_accepting s" by simp_all
    from accepted_run [OF assms(1-4) this assms(5,6), of ok] r e True show ?thesis
      by (intro exI [of _ logs] exI [of _ c'] exI [of _ D'] exI [of _ "accepted_events i (jc_acks c) ok"] exI) auto
  next
    case False
    have e: "set (map event_task (refused_events i (jc_acks c) (s_accepting s))) = {Some i}"
      by (auto simp: refused_events_def)
    from False assms(9) have "g \<in> set (s_cancelled s) \<or> \<not> s_accepting s" by blast
    from refused_run [OF assms(1-4) this assms(6)] r e False show ?thesis
      by (intro exI [of _ logs] exI [of _ c'] exI [of _ D'] exI [of _ "refused_events i (jc_acks c) (s_accepting s)"] exI) auto
  qed
qed

definition sample_open :: sys where
  "sample_open = (init_sys 1 [(1, True)])\<lparr>s_accepting := True, s_gen := 1, s_life := LRunning\<rparr>"

theorem receive_is_a_run_witness:
  "\<exists>logs c' D' es t. fst (receive sample_env sample_nats sample_client ctx_background sample_js_consumer
      (snd (sample_info 0)) True id id \<lparr>ds_pending = [], ds_state = \<lambda>_. deliveryWaiting\<rparr> (init_world 0)) = Inr (logs, c', D') \<and>
    run es sample_open = Some (sample_open\<lparr>s_tasks := (s_tasks sample_open)[0 := t]\<rparr>) \<and> tk_pc t = Ended \<and>
    tk_state t = ds_state D' 0"
proof -
  have "0 < length (s_tasks sample_open)" "s_tasks sample_open ! 0 = new_task (1, jc_acks sample_js_consumer)"
    "(1 :: nat) \<le> 1" "1 \<le> s_gen sample_open" "s_sem sample_open < s_cap sample_open" "0 \<notin> set (s_pending sample_open)"
    "jm_id (snd (sample_info 0)) = 0"
    "ds_pending \<lparr>ds_pending = [], ds_state = \<lambda>_. deliveryWaiting\<rparr> = s_pending sample_open"
    "True \<longleftrightarrow> s_accepting sample_open \<and> 1 \<notin> set (s_cancelled sample_open)"
    by (simp_all add: sample_open_def init_sys_def sample_js_consumer_fields sample_info_def)
  from receive_is_a_run [OF this, of sample_env sample_nats sample_client ctx_background "init_world 0"]
  obtain logs c' D' es t where "fst (receive sample_env sample_nats sample_client ctx_background sample_js_consumer
      (snd (sample_info 0)) True id id \<lparr>ds_pending = [], ds_state = \<lambda>_. deliveryWaiting\<rparr> (init_world 0)) = Inr (logs, c', D')"
    "run es sample_open = Some (sample_open\<lparr>s_tasks := (s_tasks sample_open)[0 := t]\<rparr>)" "tk_pc t = Ended"
    "if jc_acks sample_js_consumer then tk_state t = ds_state D' 0 \<and> s_pending sample_open = ds_pending D'
     else tk_acked t + tk_naked t = 0"
    by (elim exE conjE) (rule that)
  then show ?thesis by (auto simp: sample_js_consumer_fields)
qed

end
