(* ===== verification/Runtime_Steps.thy ===== *)
theory Runtime_Steps
  imports Delivery_Steps
begin

text \<open>
  The two models of a runtime meet: \<open>start\<close> and \<open>stop\<close> in \<open>Lifecycle\<close>, which run to their
  end at once, and the events of \<open>Start\<close> and \<open>Stop\<close> in \<open>Concurrency\<close>.
\<close>

section \<open>One state in both models\<close>

fun life_of :: "runtime_state \<Rightarrow> life \<Rightarrow> bool" where
  "life_of StateCreated l = (l = LCreated)"
| "life_of StateRunning l = (l = LRunning)"
| "life_of StateStopped l = (l = LStopped True \<or> l = LStopped False)"

text \<open>The runtime, with its deliveries, and the concurrent system agree on what they share.\<close>

definition runtime_view :: "runtime \<Rightarrow> deliveries \<Rightarrow> sys \<Rightarrow> bool" where
  "runtime_view r D s \<longleftrightarrow>
    life_of (r_state r) (s_life s) \<and> (r_state r \<noteq> StateStopped \<longrightarrow> s_drain s = DNone) \<and>
    s_accepting s = r_accepting r \<and> s_gen s = r_handlerCtx r \<and> s_cancelled s = r_cancelled r \<and>
    s_pending s = ds_pending D \<and> (\<forall>i \<in> set (s_pending s). i < length (s_tasks s)) \<and>
    (\<forall>i < length (s_tasks s). tk_state (s_tasks s ! i) = ds_state D i)"

text \<open>The replies the system sent for each message between two states.\<close>

definition naked_by :: "sys \<Rightarrow> sys \<Rightarrow> (nat \<Rightarrow> nat) \<Rightarrow> bool" where
  "naked_by s s' f \<longleftrightarrow> length (s_tasks s') = length (s_tasks s) \<and> (\<forall>i < length (s_tasks s).
    tk_acked (s_tasks s' ! i) = tk_acked (s_tasks s ! i) \<and> tk_naked (s_tasks s' ! i) = tk_naked (s_tasks s ! i) + f i)"

lemma naked_by_same: "s_tasks s' = s_tasks s \<Longrightarrow> (\<And>i. f i = 0) \<Longrightarrow> naked_by s s' f"
  by (simp add: naked_by_def)

lemmas life_simps = fire_def start_event_def drain_event_def stop_event_def

section \<open>Start\<close>

lemma started_run:
  "s_life s = LCreated \<Longrightarrow> lockable s \<Longrightarrow>
    run [StartBegins, StartSucceeds] s = Some (s\<lparr>s_gen := s_gen s + 1, s_accepting := True, s_life := LRunning\<rparr>)"
  by (simp add: life_simps)

lemma aborted_run:
  "s_life s = LCreated \<Longrightarrow> lockable s \<Longrightarrow>
    run [StartBegins, StartFails, AbortFinishes] s =
      Some (s\<lparr>s_gen := s_gen s + 1, s_accepting := False, s_cancelled := (s_gen s + 1) # s_cancelled s\<rparr>)"
  by (simp add: life_simps lockable_def)

lemma start_is_a_run:
  assumes "runtime_view r D s" and "lockable s" and "start N r ctx W = (e, r', W')"
  shows "\<exists>es s'. run es s = Some s' \<and> set (map event_task es) \<subseteq> {None} \<and> runtime_view r' D s' \<and> s_tasks s' = s_tasks s"
  using assms(3)
proof (cases rule: start_ends)
  case (refused x)
  with assms(1) show ?thesis by (intro exI [of _ "[]"] exI [of _ s]) simp
next
  case (aborted x hs js cs)
  with assms(1) have "s_life s = LCreated" by (simp add: runtime_view_def)
  from aborted_run [OF this assms(2)] assms(1) aborted(2,4) show ?thesis
    by (intro exI [of _ "[StartBegins, StartFails, AbortFinishes]"] exI) (auto simp: runtime_view_def)
next
  case (started hs js cs W1 W2)
  with assms(1) have "s_life s = LCreated" by (simp add: runtime_view_def)
  from started_run [OF this assms(2)] assms(1) started(2,5) show ?thesis
    by (intro exI [of _ "[StartBegins, StartSucceeds]"] exI) (auto simp: runtime_view_def)
qed

section \<open>Stop\<close>

text \<open>What is left of the pending deliveries when those of a list are abandoned.\<close>

definition abandoned :: "(nat \<Rightarrow> deliveryState) \<Rightarrow> nat list \<Rightarrow> nat list \<Rightarrow> nat list" where
  "abandoned st is ps = fold (\<lambda>i. if st i = deliverySettled then id else remove1 i) is ps"

lemma abandoned_cong: "(\<And>i. i \<in> set is \<Longrightarrow> st i = st' i) \<Longrightarrow> abandoned st is ps = abandoned st' is ps"
  unfolding abandoned_def by (rule fold_cong) simp_all

lemma abandoned_subset: "set (abandoned st is ps) \<subseteq> set ps"
  unfolding abandoned_def
  by (induction "is" arbitrary: ps) (auto dest!: subsetD [OF set_remove1_subset] split: if_splits)

text \<open>The system after the loop of \<open>abandonPending\<close>.\<close>

definition abandon_result :: "nat list \<Rightarrow> sys \<Rightarrow> sys \<Rightarrow> bool" where
  "abandon_result is s s' \<longleftrightarrow>
    (s_cap s', s_accepting s', s_sem s', s_wg s', s_gen s', s_cancelled s', s_drain s', s_life s') =
      (s_cap s, s_accepting s, s_sem s, s_wg s, s_gen s, s_cancelled s, s_drain s, LAbandon []) \<and>
    s_pending s' = abandoned (\<lambda>i. tk_state (s_tasks s ! i)) is (s_pending s) \<and>
    naked_by s s' (\<lambda>i. of_bool (i \<in> set is \<and> tk_state (s_tasks s ! i) \<noteq> deliverySettled)) \<and>
    (\<forall>i < length (s_tasks s). tk_state (s_tasks s' ! i) =
      (if i \<in> set is then deliverySettled else tk_state (s_tasks s ! i)))"

text \<open>The first delivery of the loop.\<close>

definition abandon_first :: "nat \<Rightarrow> nat list \<Rightarrow> sys \<Rightarrow> sys" where
  "abandon_first i is s =
    (let t = s_tasks s ! i in
     if tk_state t = deliverySettled then s\<lparr>s_life := LAbandon is\<rparr>
     else (put i (t\<lparr>tk_state := deliverySettled, tk_naked := tk_naked t + 1\<rparr>) s)
       \<lparr>s_pending := remove1 i (s_pending s), s_life := LAbandon is\<rparr>)"

lemma abandon_first_run:
  assumes "s_life s = LAbandon (i # is)" and "i < length (s_tasks s)"
  shows "run (if tk_state (s_tasks s ! i) = deliverySettled then [StopSettles] else [StopSettles, StopUntracks, StopNaks]) s
    = Some (abandon_first i is s)"
proof (cases "tk_state (s_tasks s ! i) = deliverySettled")
  case True
  then have t: "(s_tasks s ! i)\<lparr>tk_state := deliverySettled\<rparr> = s_tasks s ! i" by (cases "s_tasks s ! i") simp
  have "s\<lparr>s_tasks := s_tasks s, s_life := LAbandon is\<rparr> = s\<lparr>s_life := LAbandon is\<rparr>" by (cases s) simp
  with assms True show ?thesis
    by (simp add: life_simps settle_task_def settle_def put_def abandon_first_def Let_def t)
next
  case False
  with assms show ?thesis
    by (simp add: life_simps settle_task_def settle_def nak_task_def put_def abandon_first_def Let_def)
qed

lemma abandon_run:
  assumes "s_life s = LAbandon is" and "distinct is" and "\<forall>i \<in> set is. i < length (s_tasks s)"
  shows "\<exists>es s'. run es s = Some s' \<and> set (map event_task es) \<subseteq> {None} \<and> abandon_result is s s'"
  using assms
proof (induction "is" arbitrary: s)
  case Nil
  then show ?case
    by (intro exI [of _ "[]"] exI [of _ s]) (simp add: abandon_result_def abandoned_def naked_by_def)
next
  case (Cons i "is")
  let ?es = "if tk_state (s_tasks s ! i) = deliverySettled then [StopSettles] else [StopSettles, StopUntracks, StopNaks]"
  let ?s = "abandon_first i is s"
  have i: "i < length (s_tasks s)" "i \<notin> set is" using Cons.prems(2,3) by simp_all
  note r1 = abandon_first_run [OF Cons.prems(1) i(1)]
  have f: "s_life ?s = LAbandon is" "length (s_tasks ?s) = length (s_tasks s)"
    "s_pending ?s = (if tk_state (s_tasks s ! i) = deliverySettled then s_pending s else remove1 i (s_pending s))"
    "(s_cap ?s, s_accepting ?s, s_sem ?s, s_wg ?s, s_gen ?s, s_cancelled ?s, s_drain ?s) =
      (s_cap s, s_accepting s, s_sem s, s_wg s, s_gen s, s_cancelled s, s_drain s)"
    "\<And>j. j < length (s_tasks s) \<Longrightarrow> s_tasks ?s ! j = (if j = i \<and> tk_state (s_tasks s ! i) \<noteq> deliverySettled
      then (s_tasks s ! i)\<lparr>tk_state := deliverySettled, tk_naked := tk_naked (s_tasks s ! i) + 1\<rparr> else s_tasks s ! j)"
    using i(1) by (simp_all add: abandon_first_def Let_def put_def)
  obtain es s' where r2: "run es ?s = Some s'" "set (map event_task es) \<subseteq> {None}" "abandon_result is ?s s'"
    using Cons.IH [of ?s] f(1,2) Cons.prems(2,3) by auto
  have same: "tk_state (s_tasks ?s ! j) = tk_state (s_tasks s ! j)" if "j \<in> set is" for j
    using that i(2) f(5) [of j] Cons.prems(3) by auto
  have "abandon_result (i # is) s s'"
    using r2(3) f i abandoned_cong [OF same, where ps = "s_pending ?s"]
    by (auto simp: abandon_result_def naked_by_def abandoned_def)
  moreover have "run (?es @ es) s = Some s'" by (simp only: run_append r1 option.case r2(1))
  moreover have "set (map event_task (?es @ es)) \<subseteq> {None}" using r2(2) by auto
  ultimately show ?case by blast
qed

lemma drained_run:
  assumes "s_life s = LRunning" and "s_drain s = DNone" and "lockable s" and "s_wg s = 0"
  shows "run [StopBegins, if callbacks_done s then DrainEnds else DrainCut, WaitEnds, StopDrained, StopCancels] s = Some (s\<lparr>s_drain := DDone,
    s_accepting := False, s_cancelled := s_gen s # s_cancelled s, s_life := LStopped True\<rparr>)"
  using assms by (simp add: life_simps lockable_def callbacks_done_def)

definition abandoning :: "sys \<Rightarrow> sys" where
  "abandoning s = s\<lparr>s_drain := DDraining, s_accepting := False, s_cancelled := s_gen s # s_cancelled s,
     s_life := LAbandon (s_pending s)\<rparr>"

lemma abandoning_run:
  assumes "s_life s = LRunning" and "s_drain s = DNone" and "lockable s" and "distinct (s_pending s)"
  shows "run [StopBegins, StopTimeout, StopCancels, StopIntake, StopSnapshot (s_pending s)] s = Some (abandoning s)"
  using assms by (simp add: life_simps lockable_def abandoning_def)

text \<open>The naks of a list of calls, none of which is a reply otherwise.\<close>

lemma naks_of_others: "filter (is_nak i) (map CDrainSub hs) = []" "filter (is_nak i) (map (\<lambda>c. CCcDrain (jc_cc c)) js) = []"
  "set cs \<subseteq> {CFlush, CClose} \<Longrightarrow> filter (is_nak i) cs = []"
  by (auto simp: filter_empty_conv)

lemma naks_of_abandoned:
  assumes "distinct is" and "\<forall>i \<in> set is. jm_id (snd (info i)) = i"
  shows "length (filter (is_nak j) (map (\<lambda>i. nak_call (fst (info i)) (snd (info i))) (filter P is))) = of_bool (j \<in> set is \<and> P j)"
  using assms
proof (induction "is")
  case (Cons i "is")
  have "is_nak j (nak_call (fst (info i)) (snd (info i))) = (j = i)"
    using Cons.prems(2) by (auto simp: nak_call_def)
  with Cons show ?case by auto
qed simp

text \<open>What the sequential \<open>stop\<close> of a running runtime does.\<close>

lemma stop_effect:
  assumes "r_state r = StateRunning" and "stop N info r ctx drainErr D W = (Inr (res, logs, r', D'), W')"
    and "distinct (ds_pending D)" and "\<forall>i \<in> set (ds_pending D). jm_id (snd (info i)) = i"
  shows "r_state r' = StateStopped \<and> \<not> r_accepting r' \<and> r_handlerCtx r' = r_handlerCtx r \<and>
    r_cancelled r' = r_handlerCtx r # r_cancelled r \<and>
    (if drainErr = None then D' = D
     else ds_pending D' = abandoned (ds_state D) (ds_pending D) (ds_pending D) \<and>
       ds_state D' = (\<lambda>i. if i \<in> set (ds_pending D) then deliverySettled else ds_state D i)) \<and>
    replies is_nak j W W' = of_bool (drainErr \<noteq> None \<and> j \<in> set (ds_pending D) \<and> ds_state D j \<noteq> deliverySettled)"
proof -
  let ?W1 = "drain_handles N (r_subs r) (r_consumers r) W"
  have W1: "w_log ?W1 = w_log W @ map CDrainSub (r_subs r) @ map (\<lambda>c. CCcDrain (jc_cc c)) (r_consumers r)"
    by (rule drain_handles_log)
  have cl: "w_log (snd (close N (r_client r) V)) = w_log V @ (if cl_closed (r_client r) then [] else [CClose])" for V
    using close_added [of V N "r_client r"] by (simp add: added_def)
  show ?thesis
  proof (cases drainErr)
    case None
    obtain l V where f: "flush_on_stop N (r_client r) ctx ?W1 = (l, V)" by force
    obtain cs where cs: "w_log V = w_log ?W1 @ cs" "set cs \<subseteq> {CFlush}"
      using flush_on_stop_added [of ?W1 N "r_client r" ctx] f by (auto simp: added_def)
    have W': "W' = snd (close N (r_client r) V)" "D' = D"
      "r_state r' = StateStopped \<and> \<not> r_accepting r' \<and> r_handlerCtx r' = r_handlerCtx r \<and>
        r_cancelled r' = r_handlerCtx r # r_cancelled r"
      using assms(1,2) None f by (auto simp: stop_def Let_def split: prod.splits)
    have "set (cs @ (if cl_closed (r_client r) then [] else [CClose])) \<subseteq> {CFlush, CClose}" using cs(2) by auto
    from naks_of_others(3) [OF this, of j] have "replies is_nak j W W' = 0"
      by (simp add: replies_def W'(1) cl cs(1) W1 naks_of_others(1,2))
    with W' None show ?thesis by simp
  next
    case (Some x)
    have ids: "\<And>i. i \<in> set (ds_pending D) \<Longrightarrow> jm_id (snd (info i)) = i" using assms(4) by blast
    obtain l D1 where a: "fst (abandon_all N info (ds_pending D) D ?W1) = Inr (l, D1)"
      "ds_state D1 = (\<lambda>i. if i \<in> set (ds_pending D) then deliverySettled else ds_state D i)"
      "ds_pending D1 = abandoned (ds_state D) (ds_pending D) (ds_pending D)"
      "w_log (snd (abandon_all N info (ds_pending D) D ?W1)) = w_log ?W1 @
        map (\<lambda>i. nak_call (fst (info i)) (snd (info i))) (filter (\<lambda>i. ds_state D i \<noteq> deliverySettled) (ds_pending D))"
      by (rule exE [OF abandon_all_ok [OF assms(3), where info = info and D = D and N = N and W = ?W1]])
        (use ids in blast, elim exE conjE, rule that, simp_all add: abandoned_def)
    obtain V where V: "abandon_all N info (ds_pending D) D ?W1 = (Inr (l, D1), V)" using a(1) by (metis prod.collapse)
    have W': "W' = snd (close N (r_client r) V)" "D' = D1"
      "r_state r' = StateStopped \<and> \<not> r_accepting r' \<and> r_handlerCtx r' = r_handlerCtx r \<and>
        r_cancelled r' = r_handlerCtx r # r_cancelled r"
      using assms(1,2) Some V by (auto simp: stop_def abandon_pending_def Let_def split: prod.splits)
    have "filter (is_nak j) (if cl_closed (r_client r) then [] else [CClose]) = []" by simp
    then have "replies is_nak j W W' = of_bool (j \<in> set (ds_pending D) \<and> ds_state D j \<noteq> deliverySettled)"
      using naks_of_abandoned [OF assms(3,4), of j "\<lambda>i. ds_state D i \<noteq> deliverySettled"] a(4) V
      by (simp add: replies_def W'(1) cl W1 naks_of_others(1,2))
    with W' a(2,3) Some show ?thesis by simp
  qed
qed

text \<open>A \<open>stop\<close> that gives up always returns.\<close>

lemma stop_gives_up:
  assumes "r_state r = StateRunning" and "distinct (ds_pending D)" and "\<forall>i \<in> set (ds_pending D). jm_id (snd (info i)) = i"
  shows "\<exists>logs r' D' W'. stop N info r ctx (Some x) D W = (Inr (Some x, logs, r', D'), W') \<and> r_state r' = StateStopped"
proof -
  let ?W1 = "drain_handles N (r_subs r) (r_consumers r) W"
  have ids: "\<And>i. i \<in> set (ds_pending D) \<Longrightarrow> jm_id (snd (info i)) = i" using assms(3) by blast
  obtain l D1 where "fst (abandon_all N info (ds_pending D) D ?W1) = Inr (l, D1)"
    by (rule exE [OF abandon_all_ok [OF assms(2), where info = info and D = D and N = N and W = ?W1]])
      (use ids in blast, elim exE conjE, rule that)
  then obtain V where "abandon_all N info (ds_pending D) D ?W1 = (Inr (l, D1), V)" by (metis prod.collapse)
  with assms(1) show ?thesis by (simp add: stop_def abandon_pending_def Let_def split: prod.split)
qed

lemma stop_is_a_run:
  assumes "runtime_view r D s" and "lockable s" and "distinct (s_pending s)"
    and "\<forall>i \<in> set (ds_pending D). jm_id (snd (info i)) = i"
    and "stop N info r ctx drainErr D W = (Inr (res, logs, r', D'), W')" and "drainErr = None \<longrightarrow> s_wg s = 0"
  shows "\<exists>es s'. run es s = Some s' \<and> set (map event_task es) \<subseteq> {None} \<and> runtime_view r' D' s' \<and>
    naked_by s s' (\<lambda>i. replies is_nak i W W')"
proof (cases "r_state r = StateRunning")
  case False
  with assms(5) have "r' = r" "D' = D" "W' = W" by (simp_all add: stop_def)
  with assms(1) show ?thesis
    by (intro exI [of _ "[]"] exI [of _ s]) (simp add: replies_def naked_by_def)
next
  case True
  have v: "s_life s = LRunning" "s_drain s = DNone" "s_pending s = ds_pending D" "s_gen s = r_handlerCtx r"
    "s_cancelled s = r_cancelled r" "\<forall>i \<in> set (s_pending s). i < length (s_tasks s)"
    "\<forall>i < length (s_tasks s). tk_state (s_tasks s ! i) = ds_state D i"
    using assms(1) True by (simp_all add: runtime_view_def)
  note eff = stop_effect [OF True assms(5) assms(3) [unfolded v(3)] assms(4)]
  show ?thesis
  proof (cases drainErr)
    case None
    with drained_run [OF v(1,2) assms(2)] assms(6) eff v show ?thesis
      by (intro exI [of _ "[StopBegins, if callbacks_done s then DrainEnds else DrainCut, WaitEnds, StopDrained, StopCancels]"] exI)
        (auto simp: runtime_view_def naked_by_def)
  next
    case (Some x)
    let ?a = "abandoning s"
    have fa: "s_life ?a = LAbandon (s_pending s)" "s_tasks ?a = s_tasks s" "s_pending ?a = s_pending s" "s_gen ?a = s_gen s"
      "\<not> s_accepting ?a" "s_cancelled ?a = s_gen s # s_cancelled s" by (simp_all add: abandoning_def)
    obtain es s1 where r1: "run es ?a = Some s1" "set (map event_task es) \<subseteq> {None}" "abandon_result (s_pending s) ?a s1"
      using abandon_run [OF fa(1) assms(3)] v(6) fa(2) by auto
    let ?s' = "s1\<lparr>s_life := LStopped False\<rparr>"
    have "run [StopEnds] s1 = Some ?s'" using r1(3) by (simp add: life_simps abandon_result_def)
    then have "run ([StopBegins, StopTimeout, StopCancels, StopIntake, StopSnapshot (s_pending s)] @ es @ [StopEnds]) s = Some ?s'"
      by (simp only: run_append abandoning_run [OF v(1,2) assms(2,3)] r1(1) option.case)
    moreover have st: "abandoned (\<lambda>i. tk_state (s_tasks s ! i)) (s_pending s) (s_pending s) =
        abandoned (ds_state D) (s_pending s) (s_pending s)"
      using v(6,7) by (intro abandoned_cong) blast
    have "set (abandoned (ds_state D) (ds_pending D) (ds_pending D)) \<subseteq> set (s_pending s)"
      unfolding v(3) by (rule abandoned_subset)
    with v(6) have less: "\<forall>i \<in> set (abandoned (ds_state D) (ds_pending D) (ds_pending D)). i < length (s_tasks s)" by blast
    with r1(3) eff [of 0] Some v fa st have "runtime_view r' D' ?s'"
      by (simp add: runtime_view_def abandon_result_def naked_by_def)
    moreover have "naked_by s ?s' (\<lambda>i. replies is_nak i W W')"
      using r1(3) eff Some v(3,7) fa(2) by (auto simp: abandon_result_def naked_by_def)
    moreover have "set (map event_task ([StopBegins, StopTimeout, StopCancels, StopIntake, StopSnapshot (s_pending s)] @ es @ [StopEnds])) \<subseteq> {None}"
      using r1(2) by auto
    ultimately show ?thesis by blast
  qed
qed

section \<open>Property\<close>

text \<open>C6: \<open>Start\<close> and \<open>Stop\<close> of \<open>Lifecycle\<close> are runs of the concurrent system: from a state both
  models agree on, in which no \<open>dispatch\<close> holds the lock, whatever \<open>start\<close> or \<open>stop\<close> does is what some
  run of only their own events does, to a state both agree on again; and the system naks in it,
  for each delivery, as often as the log of \<open>stop\<close> says.  A drain that is done has no handler left.\<close>

theorem runtime_actions_are_runs:
  assumes "runtime_view r D s" and "lockable s" and "distinct (s_pending s)"
    and "\<forall>i \<in> set (ds_pending D). jm_id (snd (info i)) = i"
    and "(\<exists>e. start N r ctx W = (e, r', W') \<and> D' = D \<and> naks = (\<lambda>i. 0)) \<or>
      (\<exists>res logs. stop N info r ctx drainErr D W = (Inr (res, logs, r', D'), W') \<and> (drainErr = None \<longrightarrow> s_wg s = 0) \<and>
        naks = (\<lambda>i. replies is_nak i W W'))"
  shows "\<exists>es s'. run es s = Some s' \<and> set (map event_task es) \<subseteq> {None} \<and> runtime_view r' D' s' \<and> naked_by s s' naks"
  using assms(5)
proof (elim disjE exE conjE)
  fix e
  assume "start N r ctx W = (e, r', W')" "D' = D" "naks = (\<lambda>i. 0)"
  with start_is_a_run [OF assms(1,2)] show ?thesis by (metis naked_by_same)
next
  fix res logs
  assume "stop N info r ctx drainErr D W = (Inr (res, logs, r', D'), W')" "drainErr = None \<longrightarrow> s_wg s = 0"
    "naks = (\<lambda>i. replies is_nak i W W')"
  with stop_is_a_run [OF assms(1-4)] show ?thesis by blast
qed

section \<open>Witness\<close>

text \<open>A running system with one delivery that no handler has begun, and a \<open>Stop\<close> that gives up.\<close>

definition sample_pending :: sys where
  "sample_pending = sample_open\<lparr>s_pending := [0]\<rparr>"

definition sample_one :: deliveries where
  "sample_one = \<lparr>ds_pending = [0], ds_state = \<lambda>_. deliveryWaiting\<rparr>"

lemma sample_runtime_view:
  "runtime_view (sample_running\<lparr>r_accepting := True, r_handlerCtx := 1, r_cancelled := []\<rparr>) sample_one sample_pending"
  by (simp add: runtime_view_def sample_started(2) sample_pending_def sample_open_def init_sys_def sample_one_def new_task_def)

theorem runtime_actions_are_runs_witness:
  "\<exists>es s' r' D' W'. run es sample_pending = Some s' \<and> runtime_view r' D' s' \<and> r_state r' = StateStopped \<and>
    tk_naked (s_tasks s' ! 0) = replies is_nak 0 (init_world (0 :: nat)) W'"
proof -
  let ?r = "sample_running\<lparr>r_accepting := True, r_handlerCtx := 1, r_cancelled := []\<rparr>"
  have run: "r_state ?r = StateRunning" by (simp add: sample_started(2))
  have ids: "\<forall>i \<in> set (ds_pending sample_one). jm_id (snd (sample_info i)) = i"
    by (simp add: sample_one_def sample_info_def)
  obtain logs r' D' W' where st: "stop sample_nats sample_info ?r ctx_background (Some ErrTimeout) sample_one (init_world 0)
      = (Inr (Some ErrTimeout, logs, r', D'), W')" and r': "r_state r' = StateStopped"
    using stop_gives_up [OF run, of sample_one sample_info sample_nats ctx_background ErrTimeout "init_world 0"] ids
    by (auto simp: sample_one_def)
  have l: "lockable sample_pending" "distinct (s_pending sample_pending)"
    by (simp_all add: sample_pending_def sample_open_def init_sys_def lockable_def new_task_def holds_rlock_def)
  have "\<exists>es s'. run es sample_pending = Some s' \<and> set (map event_task es) \<subseteq> {None} \<and> runtime_view r' D' s' \<and>
      naked_by sample_pending s' (\<lambda>i. replies is_nak i (init_world 0) W')"
    by (rule runtime_actions_are_runs [OF sample_runtime_view l ids]) (use st in blast)
  then obtain es s' where "run es sample_pending = Some s'" "runtime_view r' D' s'"
    "naked_by sample_pending s' (\<lambda>i. replies is_nak i (init_world 0) W')" by blast
  with r' show ?thesis
    by (intro exI [of _ es] exI [of _ s'] exI [of _ r'] exI [of _ D'] exI [of _ W'])
      (simp add: naked_by_def sample_pending_def sample_open_def init_sys_def new_task_def)
qed

end
