(* ===== verification/Spec2Isabelle.thy ===== *)
theory Spec2Isabelle
  imports Examples Runbooks Services Client_Steps Boot_Check Waiting Shutdown Runtime_Steps
begin

text \<open>
  A model of \<open>service-mesh-nats-go\<close>, the transport of a service mesh over NATS: a client that
  sends requests and events, and a runtime that serves endpoints and subscribers, the latter
  over core NATS or from a JetStream stream.  The package is under \<open>src/nats\<close>; six programs that use it are
  under \<open>src/examples\<close> and \<open>src/docs/runbooks/cmd\<close>.

  \<^bold>\<open>The program.\<close>  \<open>NewClient\<close> reads its settings and connects.  \<open>Request\<close> and \<open>Publish\<close> check
  a message's target, merge settings, turn metadata into a header and make one call of
  \<open>nats.go\<close>.  \<open>New\<close> turns endpoints and subscribers into subscriptions; \<open>Start\<close> runs a boot
  check, opens one receiver for each and flushes; the receivers' callbacks hand every message
  to \<open>dispatch\<close>, which bounds the handler goroutines; a handler's result becomes a reply, an
  ack or a nak; \<open>Stop\<close> drains, waits, and when it gives up naks what is not settled.

  \<^bold>\<open>The theories\<close>, in the order of their imports.
  \<^item> \<open>Prelude\<close>: machine integers and times, Go maps (nil or an ordered association list
    with distinct keys), error values, results, and the locale \<open>transition_invariant\<close>.
  \<^item> \<open>Go_Text\<close>, \<open>Go_Time\<close>: the parts of \<open>strconv\<close>, \<open>strings\<close>, \<open>unicode/utf8\<close>, \<open>time\<close> and
    \<open>context\<close> the code uses, on strings as lists of bytes.
  \<^item> \<open>Mesh\<close>: the data of the mesh interface (targets, messages, handlers); its code is not
    in the repository, so \<open>Target.Equal\<close> and \<open>Header.Set\<close> are fields of \<open>goenv\<close> with the
    laws \<open>target_equal_law\<close> and \<open>header_set_law\<close>.
  \<^item> \<open>Targets\<close> (\<open>target.go\<close>), \<open>Headers\<close> (\<open>header.go\<close>), \<open>Config\<close> (\<open>config.go\<close>) and
    \<open>JetStream_Settings\<close> (the options in \<open>jetstream.go\<close>): subjects, headers and settings.
  \<^item> \<open>Nats\<close>: the operations of \<open>nats.go\<close> as a record \<open>nats\<close> over an unknown state, and the log
    of calls in \<open>world\<close>.  Theorems hold for any such record, unless a hypothesis says what the code relies on.
  \<^item> \<open>Client\<close> (\<open>client.go\<close>), \<open>Subscriptions\<close> (\<open>New\<close> in \<open>runtime.go\<close>), \<open>Consumers\<close>
    (\<open>consumers.go\<close>), \<open>Serve\<close> (\<open>runtime_serve.go\<close>), \<open>Deliveries\<close> (\<open>runtime_jetstream.go\<close> and
    \<open>delivery\<close> in \<open>jetstream.go\<close>): one definition for each function, with the same branches.
  \<^item> \<open>Lifecycle\<close> (\<open>runtime.go\<close>, \<open>runtime_receivers.go\<close>, \<open>runtime_public.go\<close>): the runtime's
    state, \<open>Start\<close>, \<open>Stop\<close> and \<open>Receiver\<close>, which hold \<open>r.mu\<close> and so are one transition each; its
    properties speak of the runtime between two calls.
  \<^item> \<open>Waiting\<close>: the waits for subscriptions and consumers, and the loop of \<open>watchMissing\<close>.
  \<^item> \<open>Concurrency\<close> (\<open>runtime_dispatch.go\<close> with the goroutines around it): the same code as
    steps of one access to shared state each.  \<open>dispatch_step\<close>, \<open>abandon_step\<close> and
    \<open>handler_step\<close> are a message's way through \<open>dispatch\<close>, \<open>abandon\<close> and its handler
    goroutine; \<open>start_event\<close>, \<open>stop_event\<close> and \<open>drain_event\<close> are \<open>Start\<close>, \<open>Stop\<close> and the
    goroutine that waits for the drain; \<open>fire\<close> is one step of all of it.
  \<^item> \<open>Concurrency_Invariant\<close>, \<open>Shutdown\<close>: the invariant \<open>sys_ok\<close> of that system and what
    follows from it.
  \<^item> \<open>Delivery_Steps\<close>, \<open>Runtime_Steps\<close>: the sequential \<open>receive\<close> of \<open>Deliveries\<close> and the \<open>start\<close> and
    \<open>stop\<close> of \<open>Lifecycle\<close> are runs of the concurrent system.
  \<^item> \<open>Boot_Check\<close>: the boot check of \<open>Start\<close> against a specification of what it decides.
  \<^item> \<open>Client_Steps\<close>: \<open>connections\<close> and \<open>Close\<close> as steps of several goroutines around \<open>c.mu\<close>,
    with \<open>use_step\<close> and \<open>close_step\<close> for an operation of either kind.
  \<^item> \<open>Rpc\<close>, \<open>Services\<close> and this theory: a client and a runtime composed; \<open>Services\<close> goes from
    \<open>New\<close> and \<open>Start\<close> to the answer of a request.
  \<^item> \<open>Error_Texts\<close> (\<open>errors.go\<close> and every \<open>fmt.Errorf\<close>): the texts of the errors and \<open>%q\<close>.
  \<^item> \<open>Programs\<close>: processes, with what they write, their exit status and their deferred
    calls, and the rules of \<open>effects\<close>, which say what a process may add to the log of calls
    and to its output.  \<open>Examples\<close> and \<open>Runbooks\<close>: the six programs, one definition for
    each \<open>main\<close> and one for each function, handler or \<open>switch\<close> in it.

  \<^bold>\<open>What is shown.\<close>  Concurrency: handlers never exceed the concurrency; a delivery gets at most
  one ack or nak, and exactly one once all is over; a clean \<open>Stop\<close> leaves no handler, an
  abandoned one leaves no unsettled delivery to a handler; a stale receiver runs no
  handler; the wait group is not reused; \<open>Stop\<close> ends without its timeout when the handlers
  return; and what the sequential definitions of
  \<open>Deliveries\<close> and \<open>Lifecycle\<close> do is a run of the same system.  Lifecycle: the boot check
  decides as specified, a failed \<open>Start\<close> releases exactly what it opened, a successful one opens one receiver for each subscription, the states
  only go forward, and \<open>Receiver\<close> finds the right consumer.  Messages: one call for
  each request or event, one reply for each request, one ack or nak for each delivery, and the
  deadlines.  Settings and text: subjects are valid, literal and invertible, headers
  and numbers come back as they went, accepted settings are in range.  Client: after a \<open>Close\<close>
  no later operation reaches the connection, which is closed once, and operations do not
  block one another.  Composed: a request to an endpoint of a started runtime returns the error
  of its call or what that endpoint's handler returned, and its remaining time bounds that
  handler; an event reaches the subscriber's handler as it was published, over core NATS and from
  a stream, which adds the name of the stream it was published to.  Programs: the errors of
  refused input are single lines; the echo example, when its request is answered and its event
  delivered, prints what its documentation says; a client sends one message and reports it; \<open>send\<close>
  reports every message; and the arguments on which \<open>streams\<close> panics.

  \<^bold>\<open>Bounds.\<close>  No definition has fuel.  Recursions are structural or have a measure; in the
  concurrent system \<open>work\<close> bounds every run after \<open>Stop\<close> has begun, and \<open>client_work\<close> every
  run of \<open>Client_Steps\<close>.  A \<open>Duration\<close> and an \<open>int\<close>
  are 64-bit words that wrap; \<open>request_deadline_exact\<close> in \<open>Serve\<close> shows where that shows.
  Times are unbounded integers of nanoseconds.

  \<^bold>\<open>Not modelled.\<close>  \<open>nats.go\<close>, the server and \<open>slog\<close> are parameters (of \<open>slog\<close> only
  the records handed to it are kept).  The accessors \<open>Client.Conn\<close> and \<open>Client.JetStream\<close>
  hand out \<open>nats.go\<close> objects and do nothing else.  \<open>doc.go\<close> is documentation.  The texts of
  the errors and kinds of \<open>mesh\<close> and of the types of \<open>nats.go\<close> are the parameters \<open>mesh_texts\<close>
  and \<open>nats_texts\<close>.  Of the programs, flags are given parsed, except the repeated ones; the time
  stamps of \<open>log\<close> and the usage of \<open>flag\<close> are left out; what happens between \<open>Start\<close> and the
  signal that ends a server, and what NATS delivers to the subscriber of \<open>echo\<close>, are
  parameters of the run, in \<open>session\<close>.  What NATS does with a message is only assumed, in
  \<open>requests_routed\<close>, \<open>request_delivered\<close> and \<open>carried\<close>: whatever it delivers was sent, and a
  header arrives unchanged when it is plain (\<open>plain_header\<close>); that it delivers at all is assumed
  of the run of \<open>echo\<close> only (\<open>demo_responds\<close>, \<open>demo_delivers\<close>).
  In \<open>Concurrency\<close> the call of a handler, the body of \<open>Start\<close> between its
  first and last access to the gate and the wait for \<open>nats.go\<close>, which ends when the callbacks
  have returned or the connection is closed, are single steps; what
  they compute is in \<open>Serve\<close>, \<open>Deliveries\<close>, \<open>Lifecycle\<close> and \<open>Waiting\<close>.
\<close>

section \<open>Properties\<close>

text \<open>C21: the time a caller has left reaches the handler: with the header of a request that had
  \<open>wait\<close> left, the handler's context ends no later than \<open>wait\<close> after the arrival and less
  than a millisecond sooner, or when the runtime's context ends; and the handler reads the
  same deadline in its metadata.\<close>

theorem request_wait_bounds_handler:
  assumes "header_set_law env" and "request_header env md wait = Inr (N_Header m)" and "0 \<le> sint wait"
    and "sb_subscriber b = None" and "sb_endpoint b = Some h" and "N_Reply m \<noteq> []" and "c_deadline hctx = None"
  shows "\<exists>hc hm reply d. w_log (snd (serve env N hctx b m arrival W)) = w_log W @ [CHandle hc hm, CPublish reply] \<and>
    c_deadline hc = Some d \<and> d \<le> arrival + sint wait \<and> arrival + sint wait - 1000000 < d \<and>
    mget (M_Metadata hm) DeadlineKey = Some (rfc3339_nano (env_zone env) d)"
proof -
  obtain md0 where md0: "incoming_metadata (N_Header m) = Inr md0" "md0 \<noteq> None" "mget md0 = request_metadata md wait"
    using request_header_received [OF assms(1), of md wait] assms(2) by (metis sum.inject(2))
  let ?d = "arrival + sint wait div 1000000 * 1000000"
  have d: "request_deadline md0 arrival = Some ?d" by (rule request_deadline_received [OF md0(3) assms(3)])
  obtain logs V hc hm reply where s: "serve env N hctx b m arrival W = (Inr logs, V)"
    "w_log V = w_log W @ [CHandle hc hm, CPublish reply]" "c_deadline hc = Some ?d"
    "mget (M_Metadata hm) DeadlineKey = Some (rfc3339_nano (env_zone env) ?d)"
    by (rule serve_endpoint_result [OF assms(1,4,5,6) md0(1,2), of N hctx arrival W]) (use d assms(7) in auto)
  have "sint wait div 1000000 * 1000000 + sint wait mod 1000000 = sint wait" "0 \<le> sint wait mod 1000000"
    "sint wait mod 1000000 < 1000000" by simp_all
  with s show ?thesis by (intro exI [of _ hc] exI [of _ hm] exI [of _ reply] exI [of _ ?d]) auto
qed

text \<open>C4: a message that \<open>Publish\<close> hands to the connection is what the subscriber's handler gets,
  from a core subscription and, unless \<open>Stop\<close> has settled it before, from a stream: its payload
  under the subscriber's target, and its metadata with the message ID under both names.  A message
  published to a stream also carries the stream's name as \<open>Nats-Expected-Stream\<close>, and a delivery
  from a stream adds its details.  This is for a delivery that arrives as it was sent.\<close>

theorem published_event_handled:
  assumes "header_set_law env"
    and "sent \<in> set (drop (length (w_log W)) (w_log (snd (publish env N c ctx msg opts W))))"
    and "carried sent h d"
    and "sb_subscriber b = Some f" and "N_Header m = h" and "N_Data m = d"
    and "jm_Headers jm = h" and "jm_Data jm = d" and "begins jc jm True (tracked_state jc jm before D)"
  shows "(\<exists>p. (sent = CPublish p \<or> (\<exists>stream. sent = CJsPublish p stream)) \<and> subject env (M_Target msg) = Inr (N_Subject p)) \<and>
    (\<exists>hm. w_log (snd (serve env S hctx b m arrival V)) = w_log V @ [CHandle hctx hm] \<and>
       M_Target hm = sb_target b \<and> M_Payload hm = M_Payload msg \<and>
       mget (M_Metadata hm) = delivered_metadata sent (M_Metadata msg)) \<and>
    (\<exists>hc hm rest. w_log (snd (receive env S cl hctx jc jm True before during D V)) = w_log V @ CHandle hc hm # rest \<and>
       M_Target hm = sb_target (jc_sub jc) \<and> M_Payload hm = M_Payload msg \<and>
       mget (M_Metadata hm) = js_handler_metadata env jc jm (fst (clock S V)) (delivered_metadata sent (M_Metadata msg)))"
proof -
  obtain p where p: "sent = CPublish p \<or> (\<exists>stream. sent = CJsPublish p stream)"
    using assms(3) by (auto simp: carried_def split: call.splits)
  then have pub: "subject env (M_Target msg) = Inr (N_Subject p)" "outgoing_header env (M_Metadata msg) = Inr (N_Header p)"
    "N_Data p = M_Payload msg"
    using publish_hands_over [OF assms(1)] assms(2) by blast+
  obtain md where md: "incoming_metadata h = Inr md" "md \<noteq> None" "mget md = delivered_metadata sent (M_Metadata msg)"
    and d: "d = M_Payload msg"
    using delivery_received [OF assms(1) p pub(2) assms(3)] pub(3) by metis
  have core: "\<exists>hm. w_log (snd (serve env S hctx b m arrival V)) = w_log V @ [CHandle hctx hm] \<and>
      M_Target hm = sb_target b \<and> M_Payload hm = M_Payload msg \<and>
      mget (M_Metadata hm) = delivered_metadata sent (M_Metadata msg)"
    using assms(4-6) md d by (auto simp: serve_def note_call_def Let_def)
  obtain hc hm rest where "handled_with env hctx jc jm (fst (clock S V)) hc hm"
    "w_log (snd (receive env S cl hctx jc jm True before during D V)) = w_log V @ CHandle hc hm # rest"
    using receive_effect [of env S cl hctx jc jm True before during D V] assms(9) by (auto simp: Let_def)
  then have "\<exists>hc hm rest. w_log (snd (receive env S cl hctx jc jm True before during D V)) = w_log V @ CHandle hc hm # rest \<and>
       M_Target hm = sb_target (jc_sub jc) \<and> M_Payload hm = M_Payload msg \<and>
       mget (M_Metadata hm) = js_handler_metadata env jc jm (fst (clock S V)) (delivered_metadata sent (M_Metadata msg))"
    using assms(7,8) md d by (fastforce simp: handled_with_def)
  with core p pub(1) show ?thesis by blast
qed

section \<open>Witnesses\<close>

theorem request_wait_bounds_handler_witness:
  "\<exists>h. request_header sample_env None 1500000 = Inr h \<and>
    (\<exists>hc hm reply. w_log (snd (serve sample_env sample_nats ctx_background sample_endpoint_sub
        \<lparr>N_Subject = ''demo.echo'', N_Reply = ''_INBOX.1'', N_Header = h, N_Data = ''hi''\<rparr> 0 (init_world 0)))
        = [CHandle hc hm, CPublish reply] \<and> (\<exists>d. c_deadline hc = Some d \<and> 500000 < d \<and> d \<le> 1500000))"
proof -
  obtain h where h: "request_header sample_env None 1500000 = Inr h"
    using request_header_received [OF sample_env_laws(1), of None 1500000] by metis
  let ?m = "\<lparr>N_Subject = ''demo.echo'', N_Reply = ''_INBOX.1'', N_Header = h, N_Data = ''hi''\<rparr>"
  have b: "sb_subscriber sample_endpoint_sub = None" "sb_endpoint sample_endpoint_sub = Some echo" "N_Reply ?m \<noteq> []"
    "request_header sample_env None 1500000 = Inr (N_Header ?m)" "0 \<le> sint (1500000 :: duration)"
    "c_deadline ctx_background = None"
    using h by (simp_all add: sample_endpoint_sub_def ctx_background_def)
  from request_wait_bounds_handler [OF sample_env_laws(1) b(4,5,1,2,3,6), of sample_nats 0 "init_world 0"] h
  show ?thesis by (intro exI [of _ h]) (auto simp: init_world_def)
qed

text \<open>An event published to a stream, and its delivery to a JetStream subscriber and to a core one.\<close>

definition stream_options :: "string gomap" where
  "stream_options = mlit [(key StreamKey, ''ORDERS'')]"

theorem published_event_handled_witness:
  "\<exists>p h hm hc hm'. w_log (snd (publish sample_env sample_nats sample_client ctx_background sample_event stream_options
      (init_world 0))) = [CJsPublish p ''ORDERS''] \<and>
    w_log (snd (serve sample_env sample_nats ctx_background sample_subscriber_sub
      \<lparr>N_Subject = ''demo.created'', N_Reply = [], N_Header = h, N_Data = ''{}''\<rparr> 0 (init_world 0))) = [CHandle ctx_background hm] \<and>
    CHandle hc hm' \<in> set (w_log (snd (receive sample_env sample_nats sample_client ctx_background sample_js_consumer
      \<lparr>jm_id = 3, jm_Headers = h, jm_Data = ''{}'', jm_Metadata = Inl ErrTimeout\<rparr> True id id sample_waiting (init_world 0)))) \<and>
    mget (M_Metadata hm) ''Nats-Expected-Stream'' = Some ''ORDERS'' \<and> M_Payload hm' = ''{}''"
proof -
  obtain md where md: "mput ''stream'' ''ORDERS'' mmake = Inr md"
    using mput_ok [OF mmake_not_nil, of "''stream''" "''ORDERS''"] by blast
  have c: "publish_checks sample_env sample_client sample_event stream_options = Inr (''demo.created'', ''ORDERS'', 30 * Second)"
    unfolding publish_checks_Inr using sample_subjects(2)
    by (simp add: sample_event_def sample_client_def sample_target_fields merge_settings_def mget0_def stream_options_def
        duration_setting_def mrange_mlit1 md mget_mput [OF md])
  obtain h0 where h0: "outgoing_header sample_env (M_Metadata sample_event) = Inr h0" using header_received [OF sample_env_laws(1)] .
  let ?p = "\<lparr>N_Subject = ''demo.created'', N_Reply = [], N_Header = h0, N_Data = ''{}''\<rparr>"
  have log: "w_log (snd (publish sample_env sample_nats sample_client ctx_background sample_event stream_options (init_world 0)))
      = [CJsPublish ?p ''ORDERS'']"
    using c h0 by (simp add: publish_def Let_def clock_def ctx_err_def ctx_background_def sample_nats_def perform_def init_world_def
        sample_event_def bound_context_def split_beta)
  obtain h where h: "mput ExpectedStreamHeader [''ORDERS''] (if h0 = None then mmake else h0) = Inr h"
    using mput_ok [of "if h0 = None then mmake else h0"] by (cases h0) (auto simp: mmake_not_nil)
  have "mget h = (mget h0)(ExpectedStreamHeader \<mapsto> [''ORDERS''])"
    using mget_mput [OF h] by (cases h0) (auto simp: fun_eq_iff)
  then have carried: "carried (CJsPublish ?p ''ORDERS'') h ''{}''" by (simp add: carried_def)
  let ?m = "\<lparr>N_Subject = ''demo.created'', N_Reply = [], N_Header = h, N_Data = ''{}''\<rparr>"
  let ?jm = "\<lparr>jm_id = 3, jm_Headers = h, jm_Data = ''{}'', jm_Metadata = Inl ErrTimeout\<rparr>"
  have sent: "CJsPublish ?p ''ORDERS'' \<in> set (drop (length (w_log (init_world (0 :: nat))))
      (w_log (snd (publish sample_env sample_nats sample_client ctx_background sample_event stream_options (init_world 0)))))"
    using log by (simp add: init_world_def)
  obtain f where f: "sb_subscriber sample_subscriber_sub = Some f" by (simp add: sample_subscriber_sub_def)
  have fields: "N_Header ?m = h" "N_Data ?m = ''{}''" "jm_Headers ?jm = h" "jm_Data ?jm = ''{}''" by simp_all
  have begun: "begins sample_js_consumer ?jm True (tracked_state sample_js_consumer ?jm id sample_waiting)"
    by (simp add: begins_def tracked_state_def track_def sample_js_consumer_fields)
  note all = published_event_handled [OF sample_env_laws(1) sent carried f fields begun, of sample_nats ctx_background 0
      "init_world (0 :: nat)" sample_client id]
  obtain hm where hm: "w_log (snd (serve sample_env sample_nats ctx_background sample_subscriber_sub ?m 0 (init_world 0))) =
      w_log (init_world (0 :: nat)) @ [CHandle ctx_background hm]"
    "mget (M_Metadata hm) = delivered_metadata (CJsPublish ?p ''ORDERS'') (M_Metadata sample_event)"
    using all [THEN conjunct2, THEN conjunct1] by blast
  obtain hc hm' rest where hm': "w_log (snd (receive sample_env sample_nats sample_client ctx_background sample_js_consumer ?jm True id id
      sample_waiting (init_world 0))) = w_log (init_world (0 :: nat)) @ CHandle hc hm' # rest" "M_Payload hm' = M_Payload sample_event"
    using all [THEN conjunct2, THEN conjunct2] by blast
  have "mget (M_Metadata hm) ''Nats-Expected-Stream'' = Some ''ORDERS''"
    by (simp add: hm(2) delivered_metadata_def ExpectedStreamHeader_def)
  with log hm(1) hm' show ?thesis
    by (intro exI [of _ ?p] exI [of _ h] exI [of _ hm] exI [of _ hc] exI [of _ hm']) (simp add: init_world_def sample_event_def)
qed

end
